(* ===== verification/Prelude.thy ===== *)
theory Prelude
  imports Main "HOL-Library.Word" "HOL-Library.List_Lexorder" "HOL-Library.AList"
begin

text \<open>
  Shared vocabulary of the development: machine integers, byte strings, the outcome type of
  fallible code (an error value that the code returns, or a panic that unwinds the task), the
  big-endian byte form of integers, and the two generic interfaces the components are proved
  against: a byte codec and a system of fallible steps with an invariant.
\<close>

section \<open>Machine types\<close>

type_synonym byte = "8 word"
type_synonym bytes = "byte list"
type_synonym u16 = "16 word"
type_synonym u32 = "32 word"
type_synonym u64 = "64 word"
type_synonym node_id = u32
type_synonym term_id = u64
type_synonym log_index = u64

section \<open>Outcomes\<close>

text \<open>
  \<open>Error\<close> is an \<^verbatim>\<open>Err\<close> that a function returns to its caller, \<open>Panic\<close> is a failed assertion,
  an \<^verbatim>\<open>unwrap\<close> of a missing value, an \<^verbatim>\<open>unimplemented!()\<close> and the like.
\<close>

datatype failure = Error string | Panic string

type_synonym 'a res = "failure + 'a"

text \<open>The \<^verbatim>\<open>?\<close> operator (a panic propagates in the same way).\<close>

definition bindE :: "'a res \<Rightarrow> ('a \<Rightarrow> 'b res) \<Rightarrow> 'b res" where
  "bindE r f = (case r of Inl e \<Rightarrow> Inl e | Inr x \<Rightarrow> f x)"

text \<open>An \<^verbatim>\<open>assert!\<close>.\<close>

definition assertE :: "bool \<Rightarrow> string \<Rightarrow> unit res" where
  "assertE b m = (if b then Inr () else Inl (Panic m))"

text \<open>\<^verbatim>\<open>unwrap\<close> and \<^verbatim>\<open>expect\<close> on an \<^verbatim>\<open>Option\<close>.\<close>

definition expectE :: "'a option \<Rightarrow> string \<Rightarrow> 'a res" where
  "expectE x m = (case x of None \<Rightarrow> Inl (Panic m) | Some v \<Rightarrow> Inr v)"

text \<open>
  Integer arithmetic on \<^verbatim>\<open>u64\<close>: an overflow panics in a build with overflow checks and wraps around
  in one without.
\<close>

definition add_u64 :: "bool \<Rightarrow> u64 \<Rightarrow> u64 \<Rightarrow> u64 res" where
  "add_u64 checks a b =
     (if checks \<and> 2 ^ 64 \<le> unat a + unat b then Inl (Panic ''attempt to add with overflow'')
      else Inr (a + b))"

definition sub_u64 :: "bool \<Rightarrow> u64 \<Rightarrow> u64 \<Rightarrow> u64 res" where
  "sub_u64 checks a b =
     (if checks \<and> a < b then Inl (Panic ''attempt to subtract with overflow'')
      else Inr (a - b))"

text \<open>A loop over a list whose body may fail.\<close>

fun foldE :: "('a \<Rightarrow> 's \<Rightarrow> 's res) \<Rightarrow> 'a list \<Rightarrow> 's \<Rightarrow> 's res" where
  "foldE f [] s = Inr s"
| "foldE f (x # xs) s = bindE (f x s) (foldE f xs)"

text \<open>Draining an iterator whose items may panic when they are produced.\<close>

fun forceE :: "'a res list \<Rightarrow> 'a list res" where
  "forceE [] = Inr []"
| "forceE (x # xs) = bindE x (\<lambda>v. bindE (forceE xs) (\<lambda>vs. Inr (v # vs)))"

section \<open>Big-endian bytes\<close>

definition be_val :: "bytes \<Rightarrow> nat" where
  "be_val bs = foldl (\<lambda>a b. a * 256 + unat b) 0 bs"

text \<open>\<^verbatim>\<open>u64::to_be_bytes\<close> and \<^verbatim>\<open>u64::from_be_bytes\<close> of the standard library.\<close>

definition to_be_bytes :: "u64 \<Rightarrow> bytes" where
  "to_be_bytes w = map (\<lambda>i. ucast (drop_bit (8 * i) w)) (rev [0..<8])"

definition from_be_bytes :: "bytes \<Rightarrow> u64" where
  "from_be_bytes bs = word_of_nat (be_val bs)"

section \<open>Collections of facts\<close>

named_theorems outcome \<open>inversion of successful outcomes\<close>
named_theorems frame \<open>fields an operation leaves alone\<close>

section \<open>Outcomes: lemmas\<close>

lemma bindE_simps [simp]:
  "bindE (Inl e) f = Inl e"
  "bindE (Inr x) f = f x"
  by (simp_all add: bindE_def)

lemma bindE_Inr [outcome]: "bindE r f = Inr y \<longleftrightarrow> (\<exists>x. r = Inr x \<and> f x = Inr y)"
  by (cases r) auto

lemma bindE_Inl: "bindE r f = Inl e \<longleftrightarrow> r = Inl e \<or> (\<exists>x. r = Inr x \<and> f x = Inl e)"
  by (cases r) auto

lemma bindE_assoc: "bindE (bindE r f) g = bindE r (\<lambda>x. bindE (f x) g)"
  by (cases r) auto

lemma assertE_simps [simp]:
  "assertE True m = Inr ()"
  "assertE False m = Inl (Panic m)"
  by (simp_all add: assertE_def)

lemma assertE_Inr [outcome]: "assertE b m = Inr u \<longleftrightarrow> b"
  by (simp add: assertE_def)

lemma expectE_simps [simp]:
  "expectE None m = Inl (Panic m)"
  "expectE (Some v) m = Inr v"
  by (simp_all add: expectE_def)

lemma expectE_Inr [outcome]: "expectE x m = Inr v \<longleftrightarrow> x = Some v"
  by (cases x) auto

lemma foldE_append [simp]: "foldE f (xs @ ys) s = bindE (foldE f xs s) (foldE f ys)"
  by (induction xs arbitrary: s) (auto simp: bindE_assoc fun_eq_iff intro!: arg_cong [where f = "bindE _"])

lemma foldE_invariant:
  assumes "foldE f xs s = Inr s'"
    and "P s"
    and "\<And>x t t'. x \<in> set xs \<Longrightarrow> P t \<Longrightarrow> f x t = Inr t' \<Longrightarrow> P t'"
  shows "P s'"
  using assms by (induction xs arbitrary: s) (auto simp: bindE_Inr)

lemma foldE_cong:
  assumes "\<And>x t. x \<in> set xs \<Longrightarrow> f x t = g x t"
  shows "foldE f xs s = foldE g xs s"
  using assms by (induction xs arbitrary: s) (auto simp: bindE_def split: sum.splits)

lemma forceE_map_Inr [simp]: "forceE (map Inr xs) = Inr xs"
  by (induction xs) auto

lemma forceE_Inr: "forceE rs = Inr xs \<longleftrightarrow> rs = map Inr xs"
  by (induction rs arbitrary: xs) (auto simp: bindE_Inr)

lemma forceE_prefix: "forceE (map Inr xs @ Inl e # rest) = Inl e"
  by (induction xs) auto

lemma forceE_Inl_mem: "forceE rs = Inl e \<Longrightarrow> Inl e \<in> set rs"
  by (induction rs) (auto simp: bindE_Inl)

lemma foldE_panics:
  assumes "x \<in> set xs" and "P s" and "\<And>t. P t \<Longrightarrow> f x t = Inl e"
    and "\<And>y t. P t \<Longrightarrow> f y t = Inl e \<or> (\<exists>t'. f y t = Inr t' \<and> P t')"
  shows "foldE f xs s = Inl e"
  using assms(1,2)
proof (induction xs arbitrary: s)
  case (Cons y ys)
  show ?case
    using Cons assms(3) [OF Cons.prems(2)] assms(4) [OF Cons.prems(2), of y] by auto
qed simp

section \<open>Sorted association lists\<close>

lemma sorted_split_at:
  fixes k :: "'k :: linorder"
  assumes "sorted_wrt (<) (map fst xs)" and "(k, v) \<in> set xs"
  obtains ys where "xs = filter (\<lambda>p. fst p < k) xs @ (k, v) # ys"
proof -
  obtain ps qs where xs: "xs = ps @ (k, v) # qs"
    using assms(2) by (meson split_list)
  have "\<forall>p \<in> set ps. fst p < k" and "\<forall>p \<in> set qs. k < fst p"
    using assms(1) by (auto simp: xs sorted_wrt_append)
  then have "filter (\<lambda>p. fst p < k) xs = ps"
    by (auto simp: xs filter_id_conv filter_empty_conv not_less_iff_gr_or_eq)
  with xs show ?thesis by (intro that) simp
qed

lemma sorted_le_last:
  assumes "sorted_wrt (<) (map f xs)" and "x \<in> set xs"
  shows "(f x :: 'k :: linorder) \<le> f (last xs)"
  using assms by (induction xs rule: rev_induct) (auto simp: sorted_wrt_append less_imp_le)

lemma sorted_singleton:
  fixes f :: "'a \<Rightarrow> 'k :: linorder"
  assumes "sorted_wrt (<) (map f xs)" and "set xs = {x}"
  shows "xs = [x]"
proof -
  have "distinct xs"
    using assms(1) by (metis distinct_map strict_sorted_iff)
  then have "length xs = 1"
    using assms(2) distinct_card [of xs] by simp
  then show ?thesis
    using assms(2) by (cases xs) auto
qed

section \<open>Big-endian bytes: lemmas\<close>

lemma be_val_foldl:
  "foldl (\<lambda>a b. a * 256 + unat (b :: byte)) n bs = n * 256 ^ length bs + be_val bs"
proof (induction bs arbitrary: n)
  case (Cons b bs)
  show ?case
    using Cons.IH [of "n * 256 + unat b"] Cons.IH [of "unat b"]
    by (simp add: be_val_def algebra_simps)
qed (simp add: be_val_def)

lemma be_val_Nil [simp]: "be_val [] = 0"
  by (simp add: be_val_def)

lemma be_val_Cons [simp]: "be_val (b # bs) = unat b * 256 ^ length bs + be_val bs"
  using be_val_foldl [of "unat b" bs] by (simp add: be_val_def)

lemma unat_byte_less: "unat (b :: byte) < 256"
  using unsigned_less [of b] by simp

lemma be_val_less: "be_val bs < 256 ^ length bs"
proof (induction bs)
  case (Cons b bs)
  have "unat b * 256 ^ length bs + be_val bs < (unat b + 1) * 256 ^ length bs"
    using Cons.IH by simp
  also have "\<dots> \<le> 256 * 256 ^ length bs"
    using unat_byte_less [of b] by (intro mult_le_mono1) simp
  finally show ?case by simp
qed simp

text \<open>
  On byte strings of equal length the lexicographic order, which \<^verbatim>\<open>Bytes\<close> derives its \<^verbatim>\<open>Ord\<close>
  from, is the order of the numbers they denote.
\<close>

lemma digit_order:
  assumes "(x :: nat) < m" and "y < m"
  shows "a * m + x < b * m + y \<longleftrightarrow> a < b \<or> (a = b \<and> x < y)"
proof (cases a b rule: linorder_cases)
  case less
  then have "a * m + x < Suc a * m" using assms by simp
  also have "\<dots> \<le> b * m" using less by (intro mult_le_mono1) simp
  finally show ?thesis using less by simp
next
  case greater
  then have "b * m + y < Suc b * m" using assms by simp
  also have "\<dots> \<le> a * m" using greater by (intro mult_le_mono1) simp
  finally show ?thesis using greater by simp
qed simp

lemma bytes_less_iff_be_val:
  assumes "length xs = length ys"
  shows "(xs :: bytes) < ys \<longleftrightarrow> be_val xs < be_val ys"
  using assms
proof (induction xs ys rule: list_induct2)
  case (Cons x xs y ys)
  have "unat x * 256 ^ length ys + be_val xs < unat y * 256 ^ length ys + be_val ys
      \<longleftrightarrow> unat x < unat y \<or> (unat x = unat y \<and> be_val xs < be_val ys)"
    using be_val_less [of xs] be_val_less [of ys] Cons.hyps by (intro digit_order) auto
  then show ?case
    using Cons by (auto simp: word_less_nat_alt word_unat_eq_iff)
qed simp

lemma be_val_digits:
  "be_val (map (\<lambda>i. word_of_nat (n div 256 ^ i)) (rev [0..<k])) = n mod 256 ^ k"
proof (induction k)
  case (Suc k)
  have "n mod (256 ^ k * 256) = 256 ^ k * (n div 256 ^ k mod 256) + n mod 256 ^ k"
    by (rule mod_mult2_eq)
  moreover have "unat (word_of_nat (n div 256 ^ k) :: byte) = n div 256 ^ k mod 256"
    by (simp add: unat_of_nat)
  ultimately show ?case
    using Suc by (simp add: algebra_simps)
qed simp

lemma to_be_bytes_digits:
  "to_be_bytes w = map (\<lambda>i. word_of_nat (unat w div 256 ^ i)) (rev [0..<8])"
proof -
  have "ucast (drop_bit (8 * i) w) = (word_of_nat (unat w div 256 ^ i) :: byte)" for i :: nat
  proof -
    have "unat (drop_bit (8 * i) w) = unat w div 256 ^ i"
      using unat_drop_bit_eq [of "8 * i" w] by (simp add: drop_bit_eq_div power_mult)
    then show ?thesis
      by (simp only: word_unat_eq_iff unsigned_ucast_eq unat_of_nat take_bit_eq_mod)
  qed
  then show ?thesis by (simp add: to_be_bytes_def)
qed

lemma length_to_be_bytes [simp]: "length (to_be_bytes w) = 8"
  by (simp add: to_be_bytes_def)

lemma be_val_to_be_bytes [simp]: "be_val (to_be_bytes w) = unat w"
proof -
  have "be_val (to_be_bytes w) = unat w mod 256 ^ 8"
    unfolding to_be_bytes_digits by (rule be_val_digits)
  then show ?thesis
    using unsigned_less [of w, where 'a = nat] by (simp add: mod_less)
qed

lemma from_to_be_bytes [simp]: "from_be_bytes (to_be_bytes w) = w"
  by (simp add: from_be_bytes_def)

lemma be_val_inject:
  assumes "length xs = length ys" and "be_val xs = be_val ys"
  shows "xs = ys"
  using assms bytes_less_iff_be_val [of xs ys] bytes_less_iff_be_val [of ys xs]
  by (metis less_irrefl linorder_less_linear)

lemma to_from_be_bytes:
  assumes "length bs = 8"
  shows "to_be_bytes (from_be_bytes bs) = bs"
proof (rule be_val_inject)
  have "be_val bs < 2 ^ 64" using be_val_less [of bs] assms by simp
  then show "be_val (to_be_bytes (from_be_bytes bs)) = be_val bs"
    by (simp add: from_be_bytes_def unat_of_nat)
qed (simp add: assms)

lemma to_be_bytes_less [simp]: "to_be_bytes a < to_be_bytes b \<longleftrightarrow> a < b"
  by (simp add: bytes_less_iff_be_val word_less_nat_alt)

lemma to_be_bytes_inject [simp]: "to_be_bytes a = to_be_bytes b \<longleftrightarrow> a = b"
  by (metis from_to_be_bytes)

section \<open>Interface: a byte codec\<close>

locale codec =
  fixes enc :: "'a \<Rightarrow> bytes"
    and dec :: "bytes \<Rightarrow> 'a option"
  assumes dec_enc: "dec (enc x) = Some x"
begin

lemma enc_inject: "enc x = enc y \<longleftrightarrow> x = y"
  by (metis dec_enc option.inject)

lemma dec_onto: "\<exists>bs. dec bs = Some x"
  using dec_enc by blast

end

section \<open>Interface: a system of fallible steps with an invariant\<close>

text \<open>
  The raft node, the state machine driver and the server loop are all driven by feeding events,
  one at a time, to a function that returns the next state or fails.  What one step on a well-formed
  event keeps, every run keeps.
\<close>

fun run_steps :: "('s \<Rightarrow> 'e \<Rightarrow> 's res) \<Rightarrow> 's \<Rightarrow> 'e list \<Rightarrow> 's res" where
  "run_steps step s [] = Inr s"
| "run_steps step s (e # es) = bindE (step s e) (\<lambda>s'. run_steps step s' es)"

lemma run_steps_append:
  "run_steps step s (es @ fs) = bindE (run_steps step s es) (\<lambda>s'. run_steps step s' fs)"
  by (induction es arbitrary: s) (auto simp: bindE_def split: sum.splits)

locale step_system =
  fixes step :: "'s \<Rightarrow> 'e \<Rightarrow> 's res"
    and inv :: "'s \<Rightarrow> bool"
    and event_ok :: "'e \<Rightarrow> bool"
  assumes step_inv: "inv s \<Longrightarrow> event_ok e \<Longrightarrow> step s e = Inr s' \<Longrightarrow> inv s'"
begin

lemma run_inv:
  "inv s \<Longrightarrow> \<forall>e \<in> set es. event_ok e \<Longrightarrow> run_steps step s es = Inr s' \<Longrightarrow> inv s'"
  by (induction es arbitrary: s) (auto simp: bindE_Inr intro: step_inv)

end

end
