(* ===== verification/External.thy ===== *)
theory External
  imports Prelude "HOL-Library.RBT"
begin

text \<open>
  The third-party code the program is written against, as parameters of the model: the sled
  key/value store and the bincode serialisation of blocks.  A definition that uses them takes an
  \<open>ext\<close> record, which also says whether the build has overflow checks; \<open>ext_ok\<close> states what their documentation promises, and is the hypothesis of the
  theorems that rely on it.  The block and block identifier types of \<^verbatim>\<open>raft/chain.rs\<close> are here
  because bincode is used at type \<open>block\<close>.  The last section instantiates the parameters with
  concrete functions (a red-black tree and a self-delimiting encoding), which shows that
  \<open>ext_ok\<close> can hold and lets theorems be evaluated at concrete inputs.
\<close>

section \<open>Blocks\<close>

datatype block_id = BlockId (bid_bytes: bytes)

instantiation block_id :: linorder
begin

definition less_eq_block_id :: "block_id \<Rightarrow> block_id \<Rightarrow> bool" where
  "less_eq_block_id a b \<longleftrightarrow> bid_bytes a \<le> bid_bytes b"

definition less_block_id :: "block_id \<Rightarrow> block_id \<Rightarrow> bool" where
  "less_block_id a b \<longleftrightarrow> bid_bytes a < bid_bytes b"

instance
  by standard
    (auto simp: less_eq_block_id_def less_block_id_def less_le_not_le block_id.expand)

end

definition BlockId_new :: "u64 \<Rightarrow> block_id" where
  "BlockId_new val = BlockId (to_be_bytes val)"

record block =
  blk_id :: block_id
  blk_next :: block_id
  blk_data :: bytes

section \<open>The parameters\<close>

datatype sled_error = SledError

datatype bound = Unbounded | Included bytes | Excluded bytes

fun above :: "bound \<Rightarrow> bytes \<Rightarrow> bool" where
  "above Unbounded k = True"
| "above (Included l) k = (l \<le> k)"
| "above (Excluded l) k = (l < k)"

fun below :: "bound \<Rightarrow> bytes \<Rightarrow> bool" where
  "below Unbounded k = True"
| "below (Included u) k = (k \<le> u)"
| "below (Excluded u) k = (k < u)"

definition in_bounds :: "bound \<Rightarrow> bound \<Rightarrow> bytes \<Rightarrow> bool" where
  "in_bounds lo hi k \<longleftrightarrow> above lo k \<and> below hi k"

record 'db sled =
  db_get :: "'db \<Rightarrow> bytes \<Rightarrow> sled_error + bytes option"
  db_contains_key :: "'db \<Rightarrow> bytes \<Rightarrow> sled_error + bool"
  db_insert :: "'db \<Rightarrow> bytes \<Rightarrow> bytes \<Rightarrow> sled_error + 'db"
  db_remove :: "'db \<Rightarrow> bytes \<Rightarrow> sled_error + 'db"
  db_range :: "'db \<Rightarrow> bound \<Rightarrow> bound \<Rightarrow> (sled_error + bytes \<times> bytes) list"

record 'db ext =
  sled :: "'db sled"
  ser_block :: "block \<Rightarrow> bytes option"
  de_block :: "bytes \<Rightarrow> block option"
  overflow_checks :: bool

text \<open>\<^verbatim>\<open>unwrap\<close> and \<^verbatim>\<open>?\<close> on a result of sled.\<close>

definition unwrapS :: "sled_error + 'a \<Rightarrow> 'a res" where
  "unwrapS r = (case r of Inl _ \<Rightarrow> Inl (Panic ''unwrap'') | Inr x \<Rightarrow> Inr x)"

definition tryS :: "sled_error + 'a \<Rightarrow> 'a res" where
  "tryS r = (case r of Inl _ \<Rightarrow> Inl (Error ''sled'') | Inr x \<Rightarrow> Inr x)"

section \<open>What the parameters promise\<close>

definition db_entries :: "'db sled \<Rightarrow> 'db \<Rightarrow> (bytes \<times> bytes) list" where
  "db_entries S d = map projr (db_range S d Unbounded Unbounded)"

definition db_lookup :: "'db sled \<Rightarrow> 'db \<Rightarrow> bytes \<Rightarrow> bytes option" where
  "db_lookup S d = map_of (db_entries S d)"

text \<open>
  A tree of sled is an ordered map: iteration is in ascending key order, \<^verbatim>\<open>range\<close> yields the
  entries whose key is within the bounds, and no operation fails.
\<close>

definition sled_ok :: "'db sled \<Rightarrow> bool" where
  "sled_ok S \<longleftrightarrow>
     (\<forall>d. sorted_wrt (<) (map fst (db_entries S d)))
   \<and> (\<forall>d lo hi. db_range S d lo hi =
        map Inr (filter (\<lambda>kv. in_bounds lo hi (fst kv)) (db_entries S d)))
   \<and> (\<forall>d k. db_get S d k = Inr (db_lookup S d k))
   \<and> (\<forall>d k. db_contains_key S d k = Inr (db_lookup S d k \<noteq> None))
   \<and> (\<forall>d k v. \<exists>d'. db_insert S d k v = Inr d' \<and> db_lookup S d' = (db_lookup S d)(k \<mapsto> v))
   \<and> (\<forall>d k. \<exists>d'. db_remove S d k = Inr d' \<and> db_lookup S d' = (db_lookup S d)(k := None))"

text \<open>
  bincode reads back what it wrote, and the encoding of a block, which holds three sequences
  (the two identifiers and the data), starts each of them with a length of eight bytes.
\<close>

definition bincode_ok :: "'db ext \<Rightarrow> bool" where
  "bincode_ok E \<longleftrightarrow>
     (\<forall>b. \<exists>v. ser_block E b = Some v \<and> de_block E v = Some b)
   \<and> (\<forall>v b. de_block E v = Some b \<longrightarrow> 24 \<le> length v)"

definition ext_ok :: "'db ext \<Rightarrow> bool" where
  "ext_ok E \<longleftrightarrow> sled_ok (sled E) \<and> bincode_ok E"

section \<open>A concrete instance\<close>

type_synonym tree = "(bytes, bytes) RBT.rbt"

definition tree_sled :: "tree sled" where
  "tree_sled = \<lparr>
     db_get = (\<lambda>t k. Inr (RBT.lookup t k)),
     db_contains_key = (\<lambda>t k. Inr (RBT.lookup t k \<noteq> None)),
     db_insert = (\<lambda>t k v. Inr (RBT.insert k v t)),
     db_remove = (\<lambda>t k. Inr (RBT.delete k t)),
     db_range = (\<lambda>t lo hi.
       map Inr (filter (\<lambda>kv. in_bounds lo hi (fst kv)) (RBT.entries t)))\<rparr>"

fun esc :: "bytes \<Rightarrow> bytes" where
  "esc [] = [0]"
| "esc (b # bs) = 1 # b # esc bs"

fun unesc :: "bytes \<Rightarrow> (bytes \<times> bytes) option" where
  "unesc (h # t) =
     (if h = 0 then Some ([], t)
      else case t of [] \<Rightarrow> None
        | b # r \<Rightarrow> map_option (\<lambda>(bs, rest). (b # bs, rest)) (unesc r))"
| "unesc [] = None"

definition tree_ser :: "block \<Rightarrow> bytes option" where
  "tree_ser b = Some (replicate 24 0 @ esc (bid_bytes (blk_id b))
     @ esc (bid_bytes (blk_next b)) @ blk_data b)"

definition tree_de :: "bytes \<Rightarrow> block option" where
  "tree_de v =
     (if length v < 24 then None
      else case unesc (drop 24 v) of None \<Rightarrow> None
        | Some (i, r) \<Rightarrow> (case unesc r of None \<Rightarrow> None
          | Some (n, d) \<Rightarrow> Some \<lparr>blk_id = BlockId i, blk_next = BlockId n, blk_data = d\<rparr>))"

definition tree_ext :: "tree ext" where
  "tree_ext =
     \<lparr>sled = tree_sled, ser_block = tree_ser, de_block = tree_de, overflow_checks = True\<rparr>"

section \<open>Block identifiers: lemmas\<close>

lemma BlockId_new_less [simp]: "BlockId_new a < BlockId_new b \<longleftrightarrow> a < b"
  by (simp add: less_block_id_def BlockId_new_def)

lemma BlockId_new_inject [simp]: "BlockId_new a = BlockId_new b \<longleftrightarrow> a = b"
  by (simp add: BlockId_new_def)

lemma BlockId_new_le [simp]: "BlockId_new a \<le> BlockId_new b \<longleftrightarrow> a \<le> b"
  by (simp add: le_less)

lemma bid_bytes_BlockId_new [simp]: "bid_bytes (BlockId_new w) = to_be_bytes w"
  by (simp add: BlockId_new_def)

lemma BlockId_new_exhaust:
  assumes "length (bid_bytes i) = 8"
  obtains w where "i = BlockId_new w"
  using assms to_from_be_bytes [of "bid_bytes i"]
  by (metis BlockId_new_def block_id.collapse)

section \<open>Use of the promises\<close>

lemma unwrapS_simps [simp]:
  "unwrapS (Inl e) = Inl (Panic ''unwrap'')"
  "unwrapS (Inr x) = Inr x"
  by (simp_all add: unwrapS_def)

lemma tryS_simps [simp]:
  "tryS (Inl e) = Inl (Error ''sled'')"
  "tryS (Inr x) = Inr x"
  by (simp_all add: tryS_def)

lemma sled_okD:
  assumes "sled_ok S"
  shows "sorted_wrt (<) (map fst (db_entries S d))"
    and "db_range S d lo hi =
      map Inr (filter (\<lambda>kv. in_bounds lo hi (fst kv)) (db_entries S d))"
    and "db_get S d k = Inr (db_lookup S d k)"
    and "db_contains_key S d k = Inr (db_lookup S d k \<noteq> None)"
  using assms unfolding sled_ok_def by blast+

lemma sled_insertE:
  assumes "sled_ok S"
  obtains d' where "db_insert S d k v = Inr d'" "db_lookup S d' = (db_lookup S d)(k \<mapsto> v)"
  using assms unfolding sled_ok_def by blast

lemma sled_removeE:
  assumes "sled_ok S"
  obtains d' where "db_remove S d k = Inr d'" "db_lookup S d' = (db_lookup S d)(k := None)"
  using assms unfolding sled_ok_def by blast

lemma db_entries_mem:
  assumes "sled_ok S"
  shows "(k, v) \<in> set (db_entries S d) \<longleftrightarrow> db_lookup S d k = Some v"
proof -
  have "distinct (map fst (db_entries S d))"
    using sled_okD(1) [OF assms, of d] by (simp add: strict_sorted_iff)
  then show ?thesis by (simp add: db_lookup_def)
qed

lemma ext_okD:
  assumes "ext_ok E"
  shows "sled_ok (sled E)" and "bincode_ok E"
  using assms by (simp_all add: ext_ok_def)

lemma bincode_serE:
  assumes "ext_ok E"
  obtains v where "ser_block E b = Some v" "de_block E v = Some b"
  using assms unfolding ext_ok_def bincode_ok_def by blast

lemma bincode_short:
  assumes "ext_ok E" and "length v < 24"
  shows "de_block E v = None"
  using assms unfolding ext_ok_def bincode_ok_def
  by (metis not_le not_None_eq)

section \<open>The concrete instance keeps the promises\<close>

lemma tree_sled_entries: "db_entries tree_sled t = RBT.entries t"
  by (simp add: db_entries_def tree_sled_def in_bounds_def o_def)

lemma tree_sled_lookup: "db_lookup tree_sled t = RBT.lookup t"
  by (simp add: db_lookup_def tree_sled_entries RBT.map_of_entries)

lemma tree_sled_ok: "sled_ok tree_sled"
proof -
  have "sorted_wrt (<) (map fst (RBT.entries (t :: tree)))" for t
    using RBT.sorted_entries [of t] RBT.distinct_entries [of t] by (simp add: strict_sorted_iff)
  then show ?thesis
    by (simp add: sled_ok_def tree_sled_entries tree_sled_lookup)
      (simp add: tree_sled_def fun_upd_def)
qed

lemma unesc_esc [simp]: "unesc (esc bs @ r) = Some (bs, r)"
  by (induction bs) auto

lemma tree_ext_ok: "ext_ok tree_ext"
  by (auto simp: ext_ok_def tree_ext_def tree_sled_ok bincode_ok_def tree_ser_def tree_de_def
      split: if_splits)

interpretation block_codec: codec "\<lambda>b. the (tree_ser b)" tree_de
  by unfold_locales (simp add: tree_ser_def tree_de_def)

end
