(* ===== verification/Chain.thy ===== *)
theory Chain
  imports External
begin

text \<open>
  \<^verbatim>\<open>raft/chain.rs\<close>: the block store of a raft node.  The chain is a tree of sled that maps the
  eight bytes of a block identifier to the serialised block and, in the same tree, the key
  \<^verbatim>\<open>"commit"\<close> to the identifier of the committed block; beside it the node keeps the identifier
  generator, the commit and the head in memory.  The invariant \<open>chain_ok\<close> says how these agree.
\<close>

section \<open>The chain and its operations\<close>

record unappended_block =
  ub_data :: bytes

record 'db chain =
  ch_db :: 'db
  ch_id_gen :: u64
  ch_commit :: block_id
  ch_head :: block_id

definition commit_key :: bytes where
  "commit_key = [0x63, 0x6f, 0x6d, 0x6d, 0x69, 0x74]"

text \<open>\<^verbatim>\<open>fetch_add\<close> returns the old value and wraps around.\<close>

definition id_gen_next :: "u64 \<Rightarrow> u64 \<times> u64" where
  "id_gen_next g = (g, g + 1)"

text \<open>\<^verbatim>\<open>u64::from_be_bytes(x.as_ref().try_into().unwrap())\<close>.\<close>

definition u64_of_bytes :: "bytes \<Rightarrow> u64 option" where
  "u64_of_bytes bs = (if length bs = 8 then Some (from_be_bytes bs) else None)"

definition chain_init :: "'db ext \<Rightarrow> 'db chain \<Rightarrow> 'db chain res" where
  "chain_init E c =
     (let (i, g) = id_gen_next (ch_id_gen c);
          b = \<lparr>blk_id = BlockId_new i, blk_next = BlockId_new i, blk_data = []\<rparr>
      in bindE (assertE (i = 0) ''assert_eq'') (\<lambda>_.
         bindE (expectE (ser_block E b) ''unwrap'') (\<lambda>v.
         bindE (unwrapS (db_insert (sled E) (ch_db c) (bid_bytes (blk_id b)) v)) (\<lambda>d.
         Inr (c\<lparr>ch_db := d, ch_id_gen := g\<rparr>)))))"

text \<open>\<open>opened\<close> is what \<^verbatim>\<open>sled::open(path)\<close> returned.\<close>

definition chain_new :: "'db ext \<Rightarrow> sled_error + 'db \<Rightarrow> 'db chain res" where
  "chain_new E opened =
     bindE (unwrapS opened) (\<lambda>d.
     bindE (unwrapS (db_get (sled E) d commit_key)) (\<lambda>x.
     bindE (case x of None \<Rightarrow> Inr 0 | Some bs \<Rightarrow> expectE (u64_of_bytes bs) ''unwrap'') (\<lambda>cm.
     let c = \<lparr>ch_db = d, ch_id_gen = cm, ch_commit = BlockId_new cm, ch_head = BlockId_new cm\<rparr>
     in if cm = 0 then chain_init E c else Inr c)))"

definition chain_has :: "'db ext \<Rightarrow> 'db chain \<Rightarrow> block_id \<Rightarrow> bool res" where
  "chain_has E c i = tryS (db_contains_key (sled E) (ch_db c) (bid_bytes i))"

definition chain_append ::
  "'db ext \<Rightarrow> 'db chain \<Rightarrow> unappended_block \<Rightarrow> ('db chain \<times> block_id) res" where
  "chain_append E c u =
     (let (n, g) = id_gen_next (ch_id_gen c); i = BlockId_new n;
          b = \<lparr>blk_id = i, blk_next = ch_head c, blk_data = ub_data u\<rparr>
      in bindE (assertE (ch_head c < i) ''assert id > head'') (\<lambda>_.
         bindE (expectE (ser_block E b) ''unwrap'') (\<lambda>v.
         bindE (unwrapS (db_insert (sled E) (ch_db c) (bid_bytes (blk_id b)) v)) (\<lambda>d.
         Inr (c\<lparr>ch_db := d, ch_id_gen := g, ch_head := blk_id b\<rparr>, blk_id b)))))"

definition chain_extend :: "'db ext \<Rightarrow> 'db chain \<Rightarrow> block \<Rightarrow> 'db chain res" where
  "chain_extend E c b =
     bindE (chain_has E c (blk_next b)) (\<lambda>h.
     if \<not> h then Inl (Error ''block not found in chain'')
     else
       bindE (expectE (ser_block E b) ''unwrap'') (\<lambda>v.
       bindE (unwrapS (db_insert (sled E) (ch_db c) (bid_bytes (blk_id b)) v)) (\<lambda>d.
       Inr (c\<lparr>ch_db := d, ch_head := blk_id b\<rparr>))))"

definition chain_commit ::
  "'db ext \<Rightarrow> 'db chain \<Rightarrow> block_id \<Rightarrow> ('db chain \<times> block_id) res" where
  "chain_commit E c i =
     bindE (unwrapS (db_contains_key (sled E) (ch_db c) (bid_bytes i))) (\<lambda>h.
     if h then
       bindE (tryS (db_insert (sled E) (ch_db c) commit_key (bid_bytes i))) (\<lambda>d.
       Inr (c\<lparr>ch_db := d, ch_commit := i\<rparr>, i))
     else Inl (Panic ''''))"

text \<open>
  \<^verbatim>\<open>range\<close> is a lazy iterator: an item that cannot be read or deserialised panics when it is
  produced, so the model keeps the items as outcomes and the callers force those they reach.
\<close>

definition range_item :: "'db ext \<Rightarrow> sled_error + bytes \<times> bytes \<Rightarrow> block res" where
  "range_item E x =
     bindE (unwrapS x) (\<lambda>kv. expectE (de_block E (snd kv)) ''couldn't deserialize'')"

definition chain_range :: "'db ext \<Rightarrow> 'db chain \<Rightarrow> bound \<Rightarrow> bound \<Rightarrow> block res list" where
  "chain_range E c lo hi = map (range_item E) (db_range (sled E) (ch_db c) lo hi)"

abbreviation "incl i \<equiv> Included (bid_bytes i)"
abbreviation "excl i \<equiv> Excluded (bid_bytes i)"

definition get_head :: "'db chain \<Rightarrow> block_id" where
  "get_head c = ch_head c"

definition get_commit :: "'db chain \<Rightarrow> block_id" where
  "get_commit c = ch_commit c"

text \<open>One turn of the loop of \<^verbatim>\<open>compact\<close>, over the items from the last to the first.\<close>

definition compact_visit ::
  "'db ext \<Rightarrow> block res \<Rightarrow> 'db chain \<times> block_id option \<Rightarrow> ('db chain \<times> block_id option) res" where
  "compact_visit E item s =
     (let (c, next_id) = s
      in bindE item (\<lambda>b.
         bindE (case next_id of
             None \<Rightarrow> Inr c
           | Some n \<Rightarrow>
               if blk_id b \<noteq> n then
                 bindE (tryS (db_remove (sled E) (ch_db c) (bid_bytes (blk_id b)))) (\<lambda>d.
                 Inr (c\<lparr>ch_db := d\<rparr>))
               else Inr c) (\<lambda>c'.
         Inr (c', Some (blk_next b)))))"

definition chain_compact :: "'db ext \<Rightarrow> 'db chain \<Rightarrow> 'db chain res" where
  "chain_compact E c =
     bindE (foldE (compact_visit E)
       (rev (chain_range E c (incl (BlockId_new 0)) (excl (get_commit c)))) (c, None))
     (\<lambda>s. Inr (fst s))"

section \<open>Abstract view and invariant\<close>

text \<open>The block an identifier stands for.\<close>

definition chain_block :: "'db ext \<Rightarrow> 'db chain \<Rightarrow> block_id \<Rightarrow> block option" where
  "chain_block E c i =
     (if bid_bytes i = commit_key then None
      else Option.bind (db_lookup (sled E) (ch_db c) (bid_bytes i)) (de_block E))"

definition id_ok :: "block_id \<Rightarrow> bool" where
  "id_ok i \<longleftrightarrow> length (bid_bytes i) = 8"

text \<open>
  Every key but \<open>commit_key\<close> is an eight-byte identifier and holds a block with that identifier;
  the commit entry, once written, agrees with the commit in memory; commit and head are stored.
\<close>

definition entry_ok :: "'db ext \<Rightarrow> 'db chain \<Rightarrow> bytes \<Rightarrow> bytes \<Rightarrow> bool" where
  "entry_ok E c k v \<longleftrightarrow>
     (if k = commit_key then v = bid_bytes (ch_commit c)
      else length k = 8 \<and> (\<exists>b. de_block E v = Some b \<and> blk_id b = BlockId k))"

definition genesis :: block_id where
  "genesis = BlockId_new 0"

text \<open>A range that does not come across the commit entry.\<close>

definition range_clear :: "'db ext \<Rightarrow> 'db chain \<Rightarrow> bound \<Rightarrow> bound \<Rightarrow> bool" where
  "range_clear E c lo hi \<longleftrightarrow>
     \<not> in_bounds lo hi commit_key \<or> db_lookup (sled E) (ch_db c) commit_key = None"

definition chain_ok :: "'db ext \<Rightarrow> 'db chain \<Rightarrow> bool" where
  "chain_ok E c \<longleftrightarrow> ext_ok E
   \<and> (\<forall>k v. db_lookup (sled E) (ch_db c) k = Some v \<longrightarrow> entry_ok E c k v)
   \<and> (db_lookup (sled E) (ch_db c) commit_key = None \<longrightarrow> ch_commit c = genesis)
   \<and> chain_block E c (ch_commit c) \<noteq> None
   \<and> chain_block E c (ch_head c) \<noteq> None"

text \<open>
  The tree of blocks is closed: the parent of a block is stored, and, the genesis apart, has a
  smaller identifier.
\<close>

definition parents_ok :: "(block_id \<Rightarrow> block option) \<Rightarrow> bool" where
  "parents_ok B \<longleftrightarrow>
     (\<exists>g. B genesis = Some g \<and> blk_next g = genesis)
   \<and> (\<forall>i b. B i = Some b \<longrightarrow>
        id_ok i \<and> B (blk_next b) \<noteq> None \<and> (i = genesis \<or> blk_next b < i))"

inductive ancestor :: "(block_id \<Rightarrow> block option) \<Rightarrow> block_id \<Rightarrow> block_id \<Rightarrow> bool"
  for B where
  here: "B i = Some b \<Longrightarrow> ancestor B i i"
| parent: "B i = Some b \<Longrightarrow> ancestor B (blk_next b) j \<Longrightarrow> ancestor B i j"

section \<open>Walking the tree of blocks\<close>

lemma id_ok_new [simp]: "id_ok (BlockId_new w)"
  by (simp add: id_ok_def)

lemma id_ok_less_iff:
  assumes "id_ok i" and "id_ok j"
  shows "i < j \<longleftrightarrow> be_val (bid_bytes i) < be_val (bid_bytes j)"
  using assms by (simp add: id_ok_def less_block_id_def bytes_less_iff_be_val)

lemma genesis_least:
  assumes "id_ok i"
  shows "genesis \<le> i"
proof -
  obtain w where "i = BlockId_new w"
    using assms BlockId_new_exhaust by (auto simp: id_ok_def)
  then show ?thesis by (simp add: genesis_def)
qed

lemma parents_okD:
  assumes "parents_ok B" and "B i = Some b"
  shows "id_ok i" and "B (blk_next b) \<noteq> None" and "i \<noteq> genesis \<Longrightarrow> blk_next b < i"
    and "blk_next b \<le> i"
proof -
  show "id_ok i" and "B (blk_next b) \<noteq> None" and "i \<noteq> genesis \<Longrightarrow> blk_next b < i"
    using assms unfolding parents_ok_def by blast+
  then show "blk_next b \<le> i"
    using assms unfolding parents_ok_def by (cases "i = genesis") auto
qed

lemma ancestor_stored: "ancestor B i j \<Longrightarrow> B j \<noteq> None"
  by (induction rule: ancestor.induct) auto

lemma ancestor_le:
  assumes "ancestor B i j" and "parents_ok B"
  shows "j \<le> i"
  using assms by (induction rule: ancestor.induct) (auto dest: parents_okD(4) order_trans)

text \<open>
  The walk back from any stored block ends at the genesis: the identifiers go down, so the walk
  cannot run forever, and no parent is missing, so it cannot get stuck.
\<close>

lemma walk_reaches_genesis:
  assumes "parents_ok B" and "B i = Some b"
  shows "ancestor B i genesis"
  using assms(2)
proof (induction "be_val (bid_bytes i)" arbitrary: i b rule: less_induct)
  case less
  show ?case
  proof (cases "i = genesis")
    case True
    with less.prems show ?thesis by (auto intro: ancestor.here)
  next
    case False
    obtain b' where b': "B (blk_next b) = Some b'"
      using parents_okD(2) [OF assms(1) less.prems] by blast
    have "be_val (bid_bytes (blk_next b)) < be_val (bid_bytes i)"
      using parents_okD(1) [OF assms(1) b'] parents_okD(1) [OF assms(1) less.prems]
        parents_okD(3) [OF assms(1) less.prems False] by (simp add: id_ok_less_iff)
    from less.hyps [OF this b'] less.prems show ?thesis
      by (rule ancestor.parent [rotated])
  qed
qed

text \<open>Overwriting or adding a block above the start of a walk does not change the walk.\<close>

lemma ancestor_upd_above:
  assumes "ancestor B i j" and "parents_ok B" and "i < k"
  shows "ancestor (B(k \<mapsto> x)) i j"
  using assms
proof (induction rule: ancestor.induct)
  case (here i b)
  then show ?case by (auto intro: ancestor.here)
next
  case (parent i b j)
  have "blk_next b \<le> i" using parents_okD(4) parent by blast
  then have "blk_next b < k" using parent.prems(2) by (rule le_less_trans)
  with parent.IH parent.prems(1) have "ancestor (B(k \<mapsto> x)) (blk_next b) j" by blast
  moreover have "(B(k \<mapsto> x)) i = Some b" using parent by auto
  ultimately show ?case by (rule ancestor.parent [rotated])
qed

lemma parents_ok_upd:
  assumes "parents_ok B" and "id_ok (blk_id b)" and "B (blk_next b) \<noteq> None"
    and "blk_next b < blk_id b"
  shows "parents_ok (B(blk_id b \<mapsto> b))"
proof -
  have "blk_id b \<noteq> genesis"
    using assms genesis_least parents_okD(1) by (metis not_None_eq not_le)
  then show ?thesis
    using assms unfolding parents_ok_def by auto
qed

section \<open>Interface: a store of blocks\<close>

text \<open>
  What the roles rely on: an appended block gets a fresh, larger identifier and the old head as
  its parent; an extension needs a stored parent; committing needs a stored block; each of them
  changes one block at most and keeps the invariant.
\<close>

locale block_store =
  fixes inv :: "'c \<Rightarrow> bool"
    and blocks :: "'c \<Rightarrow> block_id \<Rightarrow> block option"
    and head :: "'c \<Rightarrow> block_id"
    and committed :: "'c \<Rightarrow> block_id"
    and append :: "'c \<Rightarrow> unappended_block \<Rightarrow> ('c \<times> block_id) res"
    and extend :: "'c \<Rightarrow> block \<Rightarrow> 'c res"
    and commit :: "'c \<Rightarrow> block_id \<Rightarrow> ('c \<times> block_id) res"
  assumes append_law: "inv c \<Longrightarrow> append c u = Inr (c', i) \<Longrightarrow>
      inv c' \<and> id_ok i \<and> head c < i \<and> head c' = i \<and> committed c' = committed c
    \<and> blocks c' = (blocks c)(i \<mapsto> \<lparr>blk_id = i, blk_next = head c, blk_data = ub_data u\<rparr>)"
    and extend_law: "inv c \<Longrightarrow> id_ok (blk_id b) \<Longrightarrow> id_ok (blk_next b) \<Longrightarrow> extend c b = Inr c' \<Longrightarrow>
      inv c' \<and> blocks c (blk_next b) \<noteq> None \<and> head c' = blk_id b \<and> committed c' = committed c
    \<and> blocks c' = (blocks c)(blk_id b \<mapsto> b)"
    and commit_law: "inv c \<Longrightarrow> id_ok i \<Longrightarrow> commit c i = Inr (c', j) \<Longrightarrow>
      inv c' \<and> j = i \<and> blocks c i \<noteq> None \<and> committed c' = i \<and> head c' = head c
    \<and> blocks c' = blocks c"
    and head_stored: "inv c \<Longrightarrow> blocks c (head c) \<noteq> None"
    and committed_stored: "inv c \<Longrightarrow> blocks c (committed c) \<noteq> None"
begin

lemma append_parents_ok:
  assumes "inv c" and "parents_ok (blocks c)" and "append c u = Inr (c', i)"
  shows "parents_ok (blocks c')"
proof -
  note law = append_law [OF assms(1,3)]
  have "parents_ok ((blocks c)(i \<mapsto> \<lparr>blk_id = i, blk_next = head c, blk_data = ub_data u\<rparr>))"
    using parents_ok_upd [OF assms(2), of "\<lparr>blk_id = i, blk_next = head c, blk_data = ub_data u\<rparr>"]
      law head_stored [OF assms(1)] by simp
  then show ?thesis using law by simp
qed

lemma extend_parents_ok:
  assumes "inv c" and "parents_ok (blocks c)" and "extend c b = Inr c'"
    and "id_ok (blk_id b)" and "id_ok (blk_next b)" and "blk_next b < blk_id b"
  shows "parents_ok (blocks c')"
  using extend_law [OF assms(1,4,5,3)] parents_ok_upd [OF assms(2,4) _ assms(6)] by simp

lemma head_reaches_genesis:
  assumes "inv c" and "parents_ok (blocks c)"
  shows "ancestor (blocks c) (head c) genesis"
  using walk_reaches_genesis [OF assms(2)] head_stored [OF assms(1)] by blast

text \<open>What was committed below the head stays below the head.\<close>

lemma append_keeps_ancestor:
  assumes "inv c" and "parents_ok (blocks c)" and "append c u = Inr (c', i)"
    and "ancestor (blocks c) (head c) j"
  shows "ancestor (blocks c') (head c') j"
proof -
  note law = append_law [OF assms(1,3)]
  have "ancestor (blocks c') (head c) j"
    using ancestor_upd_above [OF assms(4,2), of i] law by simp
  then show ?thesis
    using law by (auto intro: ancestor.parent)
qed

end

section \<open>The chain: facts about its keys\<close>

lemma id_ok_commit_key [simp]: "id_ok i \<Longrightarrow> bid_bytes i \<noteq> commit_key"
  by (auto simp: id_ok_def commit_key_def)

lemma chain_okD:
  assumes "chain_ok E c"
  shows "ext_ok E"
    and "db_lookup (sled E) (ch_db c) k = Some v \<Longrightarrow> entry_ok E c k v"
    and "chain_block E c (ch_commit c) \<noteq> None"
    and "chain_block E c (ch_head c) \<noteq> None"
    and "db_lookup (sled E) (ch_db c) commit_key = None \<Longrightarrow> ch_commit c = genesis"
  using assms unfolding chain_ok_def by blast+

lemma chain_block_lookup:
  assumes "chain_ok E c"
  shows "chain_block E c i = Some b \<longleftrightarrow> bid_bytes i \<noteq> commit_key \<and>
    (\<exists>v. db_lookup (sled E) (ch_db c) (bid_bytes i) = Some v \<and> de_block E v = Some b)"
  by (auto simp: chain_block_def bind_eq_Some_conv)

lemma chain_block_id:
  assumes "chain_ok E c" and "chain_block E c i = Some b"
  shows "blk_id b = i" and "id_ok i"
  using assms chain_okD(2) [OF assms(1), of "bid_bytes i"]
  by (auto simp: chain_block_lookup entry_ok_def id_ok_def)

lemma chain_block_None:
  assumes "chain_ok E c" and "id_ok i"
  shows "chain_block E c i = None \<longleftrightarrow> db_lookup (sled E) (ch_db c) (bid_bytes i) = None"
  using assms chain_okD(2) [OF assms(1), of "bid_bytes i"]
  by (cases "db_lookup (sled E) (ch_db c) (bid_bytes i)")
    (auto simp: chain_block_def entry_ok_def)

lemma chain_head_id_ok: "chain_ok E c \<Longrightarrow> id_ok (ch_head c)"
  using chain_block_id(2) chain_okD(4) by blast

lemma chain_commit_id_ok: "chain_ok E c \<Longrightarrow> id_ok (ch_commit c)"
  using chain_block_id(2) chain_okD(3) by blast

lemma chain_has_block:
  assumes "chain_ok E c" and "id_ok i"
  shows "chain_has E c i = Inr (chain_block E c i \<noteq> None)"
  using chain_block_None [OF assms] sled_okD(4) [OF ext_okD(1) [OF chain_okD(1) [OF assms(1)]]]
  by (simp add: chain_has_def)

section \<open>The chain: how a write changes the abstract view\<close>

lemma chain_block_cong: "ch_db c' = ch_db c \<Longrightarrow> chain_block E c' = chain_block E c"
  by (simp add: chain_block_def fun_eq_iff)

lemma chain_block_insert:
  assumes "db_lookup (sled E) (ch_db c') =
      (db_lookup (sled E) (ch_db c))(bid_bytes (blk_id b) \<mapsto> v)"
    and "id_ok (blk_id b)" and "de_block E v = Some b"
  shows "chain_block E c' = (chain_block E c)(blk_id b \<mapsto> b)"
  using assms by (auto simp: chain_block_def fun_eq_iff block_id.expand)

lemma chain_ok_insert:
  assumes "chain_ok E c"
    and ins: "db_lookup (sled E) (ch_db c') =
      (db_lookup (sled E) (ch_db c))(bid_bytes (blk_id b) \<mapsto> v)"
    and b: "id_ok (blk_id b)" "de_block E v = Some b"
    and "ch_commit c' = ch_commit c" and "ch_head c' = ch_head c \<or> ch_head c' = blk_id b"
  shows "chain_ok E c'"
proof -
  note blocks = chain_block_insert [OF ins b]
  have "entry_ok E c' k w" if "db_lookup (sled E) (ch_db c') k = Some w" for k w
    using that chain_okD(2) [OF assms(1), of k w] assms(5) b
    by (auto simp: ins entry_ok_def id_ok_def commit_key_def split: if_splits)
  then show ?thesis
    using chain_okD [OF assms(1)] assms(5,6) b(1) by (auto simp: chain_ok_def blocks ins)
qed

lemma chain_block_commit_entry:
  assumes "db_lookup (sled E) (ch_db c') = (db_lookup (sled E) (ch_db c))(commit_key \<mapsto> v)"
  shows "chain_block E c' = chain_block E c"
  using assms by (simp add: chain_block_def fun_eq_iff)

section \<open>The chain: each operation on every branch\<close>

lemma chain_append_ok:
  assumes "chain_ok E c" and "ch_head c < BlockId_new (ch_id_gen c)"
  obtains c' where
    "chain_append E c u = Inr (c', BlockId_new (ch_id_gen c))"
    "chain_ok E c'"
    "chain_block E c' = (chain_block E c)(BlockId_new (ch_id_gen c) \<mapsto>
       \<lparr>blk_id = BlockId_new (ch_id_gen c), blk_next = ch_head c, blk_data = ub_data u\<rparr>)"
    "ch_head c' = BlockId_new (ch_id_gen c)"
    "ch_commit c' = ch_commit c"
    "ch_id_gen c' = ch_id_gen c + 1"
proof -
  let ?i = "BlockId_new (ch_id_gen c)"
  let ?b = "\<lparr>blk_id = ?i, blk_next = ch_head c, blk_data = ub_data u\<rparr>"
  note E = chain_okD(1) [OF assms(1)]
  obtain v where v: "ser_block E ?b = Some v" "de_block E v = Some ?b"
    using bincode_serE [OF E] by blast
  obtain d where d: "db_insert (sled E) (ch_db c) (bid_bytes ?i) v = Inr d"
      "db_lookup (sled E) d = (db_lookup (sled E) (ch_db c))(bid_bytes ?i \<mapsto> v)"
    using sled_insertE [OF ext_okD(1) [OF E]] by blast
  let ?c = "c\<lparr>ch_db := d, ch_id_gen := ch_id_gen c + 1, ch_head := ?i\<rparr>"
  show ?thesis
  proof (rule that)
    show "chain_append E c u = Inr (?c, ?i)"
      using assms(2) v(1) d(1) by (simp add: chain_append_def id_gen_next_def Let_def)
    show "chain_ok E ?c"
      using chain_ok_insert [OF assms(1), of ?c ?b v] d(2) v(2) by simp
    show "chain_block E ?c = (chain_block E c)(?i \<mapsto> ?b)"
      using chain_block_insert [of E ?c c ?b v] d(2) v(2) by simp
  qed simp_all
qed

lemma chain_append_panics:
  assumes "\<not> ch_head c < BlockId_new (ch_id_gen c)"
  shows "chain_append E c u = Inl (Panic ''assert id > head'')"
  using assms by (simp add: chain_append_def id_gen_next_def Let_def)

lemma chain_extend_ok:
  assumes "chain_ok E c" and "id_ok (blk_id b)" and "id_ok (blk_next b)"
    and "chain_block E c (blk_next b) \<noteq> None"
  obtains c' where
    "chain_extend E c b = Inr c'"
    "chain_ok E c'"
    "chain_block E c' = (chain_block E c)(blk_id b \<mapsto> b)"
    "ch_head c' = blk_id b"
    "ch_commit c' = ch_commit c"
    "ch_id_gen c' = ch_id_gen c"
proof -
  note E = chain_okD(1) [OF assms(1)]
  obtain v where v: "ser_block E b = Some v" "de_block E v = Some b"
    using bincode_serE [OF E] by blast
  obtain d where d: "db_insert (sled E) (ch_db c) (bid_bytes (blk_id b)) v = Inr d"
      "db_lookup (sled E) d = (db_lookup (sled E) (ch_db c))(bid_bytes (blk_id b) \<mapsto> v)"
    using sled_insertE [OF ext_okD(1) [OF E]] by blast
  let ?c = "c\<lparr>ch_db := d, ch_head := blk_id b\<rparr>"
  show ?thesis
  proof (rule that)
    show "chain_extend E c b = Inr ?c"
      using chain_has_block [OF assms(1,3)] assms(4) v(1) d(1) by (simp add: chain_extend_def)
    show "chain_ok E ?c"
      using chain_ok_insert [OF assms(1), of ?c b v] d(2) v(2) assms(2) by simp
    show "chain_block E ?c = (chain_block E c)(blk_id b \<mapsto> b)"
      using chain_block_insert [of E ?c c b v] d(2) v(2) assms(2) by simp
  qed simp_all
qed

lemma chain_extend_missing:
  assumes "chain_ok E c" and "id_ok (blk_next b)" and "chain_block E c (blk_next b) = None"
  shows "chain_extend E c b = Inl (Error ''block not found in chain'')"
  using chain_has_block [OF assms(1,2)] assms(3) by (simp add: chain_extend_def)

lemma chain_commit_ok:
  assumes "chain_ok E c" and "id_ok i" and "chain_block E c i \<noteq> None"
  obtains c' where
    "chain_commit E c i = Inr (c', i)"
    "chain_ok E c'"
    "chain_block E c' = chain_block E c"
    "ch_head c' = ch_head c"
    "ch_commit c' = i"
    "ch_id_gen c' = ch_id_gen c"
    "db_lookup (sled E) (ch_db c') =
       (db_lookup (sled E) (ch_db c))(commit_key \<mapsto> bid_bytes i)"
proof -
  note S = ext_okD(1) [OF chain_okD(1) [OF assms(1)]]
  obtain d where d: "db_insert (sled E) (ch_db c) commit_key (bid_bytes i) = Inr d"
      "db_lookup (sled E) d = (db_lookup (sled E) (ch_db c))(commit_key \<mapsto> bid_bytes i)"
    using sled_insertE [OF S] by blast
  let ?c = "c\<lparr>ch_db := d, ch_commit := i\<rparr>"
  have blocks: "chain_block E ?c = chain_block E c"
    using chain_block_commit_entry [of E ?c c] d(2) by simp
  have "entry_ok E ?c k w" if "db_lookup (sled E) d k = Some w" for k w
    using that chain_okD(2) [OF assms(1), of k w]
    by (auto simp: d(2) entry_ok_def split: if_splits)
  then have ok: "chain_ok E ?c"
    using chain_okD [OF assms(1)] assms(3) by (simp add: chain_ok_def blocks d(2))
  show ?thesis
  proof (rule that)
    show "chain_commit E c i = Inr (?c, i)"
      using chain_block_None [OF assms(1,2)] assms(3) sled_okD(4) [OF S] d(1)
      by (simp add: chain_commit_def)
  qed (simp_all add: ok blocks d(2))
qed

lemma chain_commit_missing:
  assumes "chain_ok E c" and "id_ok i" and "chain_block E c i = None"
  shows "chain_commit E c i = Inl (Panic '''')"
  using chain_block_None [OF assms(1,2)] assms(3)
    sled_okD(4) [OF ext_okD(1) [OF chain_okD(1) [OF assms(1)]]]
  by (simp add: chain_commit_def)

interpretation chain_store: block_store "chain_ok E" "chain_block E" get_head get_commit
  "chain_append E" "chain_extend E" "chain_commit E" for E :: "'db ext"
proof unfold_locales
  fix c c' :: "'db chain" and u i
  assume c: "chain_ok E c" and r: "chain_append E c u = Inr (c', i)"
  have lt: "ch_head c < BlockId_new (ch_id_gen c)"
    using chain_append_panics [of c E u] r by (metis Inl_Inr_False)
  then show "chain_ok E c' \<and> id_ok i \<and> get_head c < i \<and> get_head c' = i
      \<and> get_commit c' = get_commit c \<and> chain_block E c' = (chain_block E c)(i \<mapsto>
        \<lparr>blk_id = i, blk_next = get_head c, blk_data = ub_data u\<rparr>)"
    by (rule chain_append_ok [OF c, where u = u]) (use r lt in \<open>simp add: get_head_def get_commit_def\<close>)
next
  fix c c' :: "'db chain" and b
  assume c: "chain_ok E c" and b: "id_ok (blk_id b)" "id_ok (blk_next b)"
    and r: "chain_extend E c b = Inr c'"
  have p: "chain_block E c (blk_next b) \<noteq> None"
    using chain_extend_missing [OF c b(2)] r by (metis Inl_Inr_False)
  show "chain_ok E c' \<and> chain_block E c (blk_next b) \<noteq> None \<and> get_head c' = blk_id b
      \<and> get_commit c' = get_commit c \<and> chain_block E c' = (chain_block E c)(blk_id b \<mapsto> b)"
    by (rule chain_extend_ok [OF c b p]) (use p r in \<open>simp add: get_head_def get_commit_def\<close>)
next
  fix c c' :: "'db chain" and i j
  assume c: "chain_ok E c" and i: "id_ok i" and r: "chain_commit E c i = Inr (c', j)"
  have p: "chain_block E c i \<noteq> None"
    using chain_commit_missing [OF c i] r by (metis Inl_Inr_False)
  show "chain_ok E c' \<and> j = i \<and> chain_block E c i \<noteq> None \<and> get_commit c' = i
      \<and> get_head c' = get_head c \<and> chain_block E c' = chain_block E c"
    by (rule chain_commit_ok [OF c i p]) (use p r in \<open>simp add: get_head_def get_commit_def\<close>)
qed (simp_all add: chain_okD get_head_def get_commit_def)

section \<open>The chain: ranges\<close>

lemma range_items_blocks:
  assumes "chain_ok E c" and "set L \<subseteq> set (db_entries (sled E) (ch_db c))"
    and "\<forall>kv \<in> set L. fst kv \<noteq> commit_key"
  obtains bs where "map (\<lambda>kv. range_item E (Inr kv)) L = map Inr bs"
    "map blk_id bs = map (\<lambda>kv. BlockId (fst kv)) L"
    "\<forall>b \<in> set bs. chain_block E c (blk_id b) = Some b"
  using assms(2,3)
proof (induction L arbitrary: thesis)
  case (Cons kv L)
  obtain k v where kv: "kv = (k, v)" by force
  have v: "db_lookup (sled E) (ch_db c) k = Some v"
    using Cons.prems(2) db_entries_mem [OF ext_okD(1) [OF chain_okD(1) [OF assms(1)]]]
    by (auto simp: kv)
  obtain b where b: "de_block E v = Some b" "blk_id b = BlockId k"
    using chain_okD(2) [OF assms(1) v] Cons.prems(3) by (auto simp: kv entry_ok_def)
  have "chain_block E c (blk_id b) = Some b"
    using b v Cons.prems(3) by (simp add: chain_block_def kv)
  moreover have "range_item E (Inr kv) = Inr b"
    using b by (simp add: range_item_def kv)
  moreover obtain bs where "map (\<lambda>kv. range_item E (Inr kv)) L = map Inr bs"
      "map blk_id bs = map (\<lambda>kv. BlockId (fst kv)) L"
      "\<forall>b \<in> set bs. chain_block E c (blk_id b) = Some b"
    by (rule Cons.IH) (use Cons.prems(2,3) in auto)
  ultimately show ?case
    using Cons.prems(1) [of "b # bs"] b(2) kv by simp
qed simp

text \<open>
  A range that does not reach the commit entry yields, in ascending order and without a panic,
  the stored blocks within the bounds.
\<close>

lemma chain_range_blocks:
  assumes "chain_ok E c" and "range_clear E c lo hi"
  obtains bs where "chain_range E c lo hi = map Inr bs"
    "sorted_wrt (<) (map blk_id bs)"
    "\<forall>b. b \<in> set bs \<longleftrightarrow> chain_block E c (blk_id b) = Some b \<and> in_bounds lo hi (bid_bytes (blk_id b))"
proof -
  note S = ext_okD(1) [OF chain_okD(1) [OF assms(1)]]
  let ?L = "filter (\<lambda>kv. in_bounds lo hi (fst kv)) (db_entries (sled E) (ch_db c))"
  obtain bs where bs: "map (\<lambda>kv. range_item E (Inr kv)) ?L = map Inr bs"
      "map blk_id bs = map (\<lambda>kv. BlockId (fst kv)) ?L"
      "\<forall>b \<in> set bs. chain_block E c (blk_id b) = Some b"
    by (rule range_items_blocks [OF assms(1), of ?L])
      (use assms(2) db_entries_mem [OF S] in \<open>auto simp: range_clear_def\<close>)
  have sorted: "sorted_wrt (<) (map blk_id bs)"
    using sled_okD(1) [OF S, of "ch_db c"]
    by (auto simp: bs(2) sorted_wrt_map less_block_id_def intro: sorted_wrt_filter)
  have mem: "b \<in> set bs \<longleftrightarrow>
      chain_block E c (blk_id b) = Some b \<and> in_bounds lo hi (bid_bytes (blk_id b))" for b
  proof
    assume b: "b \<in> set bs"
    then have "blk_id b \<in> set (map blk_id bs)" by simp
    then show "chain_block E c (blk_id b) = Some b \<and> in_bounds lo hi (bid_bytes (blk_id b))"
      unfolding bs(2) using b bs(3) by auto
  next
    assume b: "chain_block E c (blk_id b) = Some b \<and> in_bounds lo hi (bid_bytes (blk_id b))"
    then obtain v where "db_lookup (sled E) (ch_db c) (bid_bytes (blk_id b)) = Some v"
      using chain_block_lookup [OF assms(1)] by blast
    then have "(bid_bytes (blk_id b), v) \<in> set ?L"
      using b db_entries_mem [OF S] by simp
    then have "blk_id b \<in> set (map blk_id bs)"
      unfolding bs(2) by force
    then obtain b' where "b' \<in> set bs" "blk_id b' = blk_id b" by auto
    with bs(3) b show "b \<in> set bs" by (metis option.inject)
  qed
  have "chain_range E c lo hi = map Inr bs"
    using bs(1) by (simp add: chain_range_def sled_okD(2) [OF S] o_def)
  then show ?thesis
    using sorted allI [OF mem] by (rule that)
qed

text \<open>
  A range that does reach the commit entry panics there: the entry is eight bytes long and no
  block is.  The items before it are the blocks with smaller identifiers.
\<close>

lemma chain_range_hits_commit:
  assumes "chain_ok E c" and "in_bounds lo hi commit_key"
    and "db_lookup (sled E) (ch_db c) commit_key \<noteq> None"
  obtains rest where "chain_range E c lo hi =
    chain_range E c lo (Excluded commit_key) @ Inl (Panic ''couldn't deserialize'') # rest"
proof -
  note S = ext_okD(1) [OF chain_okD(1) [OF assms(1)]]
  let ?D = "db_entries (sled E) (ch_db c)"
  let ?L = "filter (\<lambda>kv. in_bounds lo hi (fst kv)) ?D"
  obtain v where v: "db_lookup (sled E) (ch_db c) commit_key = Some v"
    using assms(3) by blast
  have "length v = 8"
    using chain_okD(2) [OF assms(1) v] chain_commit_id_ok [OF assms(1)]
    by (simp add: entry_ok_def id_ok_def)
  then have item: "range_item E (Inr (commit_key, v)) = Inl (Panic ''couldn't deserialize'')"
    using bincode_short [OF chain_okD(1) [OF assms(1)], of v] by (simp add: range_item_def)
  have "sorted_wrt (<) (map fst ?L)"
    using sled_okD(1) [OF S, of "ch_db c"] by (auto simp: sorted_wrt_map intro: sorted_wrt_filter)
  moreover have "(commit_key, v) \<in> set ?L"
    using v db_entries_mem [OF S] assms(2) by simp
  ultimately obtain ys where ys: "?L = filter (\<lambda>p. fst p < commit_key) ?L @ (commit_key, v) # ys"
    by (rule sorted_split_at)
  have "below hi k" if "k < commit_key" for k
    using that assms(2) by (cases hi) (auto simp: in_bounds_def)
  then have "filter (\<lambda>p. fst p < commit_key) ?L =
      filter (\<lambda>kv. in_bounds lo (Excluded commit_key) (fst kv)) ?D"
    by (auto simp: in_bounds_def intro: filter_cong)
  with ys have "?L = filter (\<lambda>kv. in_bounds lo (Excluded commit_key) (fst kv)) ?D
      @ (commit_key, v) # ys" by (simp only:)
  then have "map (\<lambda>kv. range_item E (Inr kv)) ?L =
      map (\<lambda>kv. range_item E (Inr kv))
        (filter (\<lambda>kv. in_bounds lo (Excluded commit_key) (fst kv)) ?D)
      @ Inl (Panic ''couldn't deserialize'') # map (\<lambda>kv. range_item E (Inr kv)) ys"
    using item by simp
  then show ?thesis
    by (intro that) (simp add: chain_range_def sled_okD(2) [OF S] o_def)
qed

section \<open>The chain: opening\<close>

definition genesis_block :: block where
  "genesis_block = \<lparr>blk_id = genesis, blk_next = genesis, blk_data = []\<rparr>"

text \<open>A fresh directory.\<close>

lemma chain_new_fresh:
  assumes "ext_ok E" and "db_lookup (sled E) d = Map.empty"
  obtains c where "chain_new E (Inr d) = Inr c" "chain_ok E c"
    "chain_block E c = [genesis \<mapsto> genesis_block]"
    "ch_head c = genesis" "ch_commit c = genesis" "ch_id_gen c = 1"
    "db_lookup (sled E) (ch_db c) commit_key = None"
proof -
  note S = ext_okD(1) [OF assms(1)]
  obtain v where v: "ser_block E genesis_block = Some v" "de_block E v = Some genesis_block"
    using bincode_serE [OF assms(1)] by blast
  obtain d' where d': "db_insert (sled E) d (bid_bytes genesis) v = Inr d'"
      "db_lookup (sled E) d' = [bid_bytes genesis \<mapsto> v]"
    using sled_insertE [OF S, of d "bid_bytes genesis" v] assms(2) by metis
  let ?c = "\<lparr>ch_db = d', ch_id_gen = 1, ch_commit = genesis, ch_head = genesis\<rparr>"
  have g: "id_ok genesis" by (simp add: genesis_def)
  have blocks: "chain_block E ?c = [genesis \<mapsto> genesis_block]"
    using v(2) g by (auto simp: chain_block_def d'(2) fun_eq_iff block_id.expand)
  show ?thesis
  proof (rule that)
    show "chain_new E (Inr d) = Inr ?c"
      using v(1) d'(1) by (simp add: chain_new_def sled_okD(3) [OF S] assms(2) chain_init_def
          id_gen_next_def genesis_block_def genesis_def Let_def)
    show "chain_ok E ?c"
      using assms(1) g v(2) by (auto simp: chain_ok_def blocks d'(2) entry_ok_def id_ok_def
          genesis_block_def split: if_splits)
  qed (use id_ok_commit_key [OF g] in \<open>auto simp: blocks d'(2)\<close>)
qed

text \<open>A directory that holds the chain \<open>c\<close> of an earlier run.\<close>

lemma chain_new_reopen:
  assumes "chain_ok E c" and "ch_commit c \<noteq> genesis"
  obtains c' where "chain_new E (Inr (ch_db c)) = Inr c'" "chain_ok E c'"
    "chain_block E c' = chain_block E c"
    "ch_head c' = ch_commit c" "ch_commit c' = ch_commit c"
    "BlockId_new (ch_id_gen c') = ch_commit c"
proof -
  note S = ext_okD(1) [OF chain_okD(1) [OF assms(1)]]
  obtain w where w: "ch_commit c = BlockId_new w"
    using chain_commit_id_ok [OF assms(1)] BlockId_new_exhaust by (auto simp: id_ok_def)
  then have "w \<noteq> 0" using assms(2) by (auto simp: genesis_def)
  obtain v where v: "db_lookup (sled E) (ch_db c) commit_key = Some v"
    using chain_okD(5) [OF assms(1)] assms(2) by blast
  then have "v = to_be_bytes w"
    using chain_okD(2) [OF assms(1) v] w by (simp add: entry_ok_def)
  let ?c = "\<lparr>ch_db = ch_db c, ch_id_gen = w, ch_commit = ch_commit c, ch_head = ch_commit c\<rparr>"
  have blocks: "chain_block E ?c = chain_block E c"
    by (rule chain_block_cong) simp
  show ?thesis
  proof (rule that)
    show "chain_new E (Inr (ch_db c)) = Inr ?c"
      using \<open>w \<noteq> 0\<close> by (simp add: chain_new_def sled_okD(3) [OF S] v \<open>v = _\<close> u64_of_bytes_def w)
    show "chain_ok E ?c"
      using chain_okD [OF assms(1)] by (auto simp: chain_ok_def blocks entry_ok_def)
  qed (rule blocks, simp_all add: w)
qed

section \<open>The chain: compaction\<close>

fun linked :: "block list \<Rightarrow> bool" where
  "linked (a # b # bs) \<longleftrightarrow> blk_next b = blk_id a \<and> linked (b # bs)"
| "linked bs \<longleftrightarrow> True"

lemma linked_snoc:
  "linked (bs @ [b]) \<longleftrightarrow> linked bs \<and> (bs = [] \<or> blk_next b = blk_id (last bs))"
  by (induction bs rule: linked.induct) auto

lemma compact_linked:
  assumes "linked bs" and "n = None \<or> bs = [] \<or> n = Some (blk_id (last bs))"
  shows "\<exists>n'. foldE (compact_visit E) (rev (map Inr bs)) (c, n) = Inr (c, n')"
  using assms
proof (induction bs arbitrary: n rule: rev_induct)
  case (snoc b bs)
  have "compact_visit E (Inr b) (c, n) = Inr (c, Some (blk_next b))"
    using snoc.prems(2) by (auto simp: compact_visit_def)
  moreover have "\<exists>n'. foldE (compact_visit E) (rev (map Inr bs)) (c, Some (blk_next b)) = Inr (c, n')"
    using snoc.prems(1) by (intro snoc.IH) (auto simp: linked_snoc)
  ultimately show ?case by simp
qed simp

text \<open>
  No dead branch below \<open>i\<close>: the parent of every stored block is the stored block just before it.
\<close>

definition linear_below :: "'db ext \<Rightarrow> 'db chain \<Rightarrow> block_id \<Rightarrow> bool" where
  "linear_below E c i \<longleftrightarrow> parents_ok (chain_block E c) \<and>
     (\<forall>j b k. chain_block E c j = Some b \<longrightarrow> j < i \<longrightarrow> chain_block E c k \<noteq> None \<longrightarrow> k < j \<longrightarrow>
        k \<le> blk_next b)"

lemma linear_linked:
  assumes "chain_ok E c" and lin: "linear_below E c i"
    and "sorted_wrt (<) (map blk_id bs)"
    and "\<And>b. b \<in> set bs \<longleftrightarrow> chain_block E c (blk_id b) = Some b \<and> genesis \<le> blk_id b \<and> blk_id b < h"
    and "h \<le> i"
  shows "linked bs"
  using assms(3-5)
proof (induction bs arbitrary: h rule: rev_induct)
  case (snoc b bs)
  have b: "chain_block E c (blk_id b) = Some b" "blk_id b < h"
    using snoc.prems(2) [of b] by auto
  have mem: "x \<in> set bs \<longleftrightarrow>
      chain_block E c (blk_id x) = Some x \<and> genesis \<le> blk_id x \<and> blk_id x < blk_id b" for x
    using snoc.prems(2) [of x] snoc.prems(1) b
    by (auto simp: sorted_wrt_append)
  have "linked bs"
    using snoc.prems(1,3) b mem by (intro snoc.IH [of "blk_id b"]) (auto simp: sorted_wrt_append)
  moreover have "blk_next b = blk_id (last bs)" if "bs \<noteq> []"
  proof (rule antisym)
    have p: "parents_ok (chain_block E c)" using lin by (simp add: linear_below_def)
    have l: "last bs \<in> set bs" using that by simp
    then show "blk_id (last bs) \<le> blk_next b"
      using lin b snoc.prems(3) mem [of "last bs"] by (auto simp: linear_below_def)
    have "blk_id b \<noteq> genesis" using l mem [of "last bs"] by auto
    then have lt: "blk_next b < blk_id b" using parents_okD(3) [OF p b(1)] by blast
    obtain x where x: "chain_block E c (blk_next b) = Some x"
      using parents_okD(2) [OF p b(1)] by blast
    note xid = chain_block_id [OF assms(1) x]
    have "x \<in> set bs"
      using mem [of x] lt x xid(1) genesis_least [OF xid(2)] by simp
    moreover have "sorted_wrt (<) (map blk_id bs)"
      using snoc.prems(1) by (simp add: sorted_wrt_append)
    ultimately show "blk_next b \<le> blk_id (last bs)"
      using sorted_le_last [of blk_id bs x] xid(1) by simp
  qed
  ultimately show ?case by (auto simp: linked_snoc)
qed simp

section \<open>A concrete chain\<close>

definition tree_chain :: "tree chain" where
  "tree_chain = projr (chain_new tree_ext (Inr RBT.empty))"

lemma tree_empty_lookup: "db_lookup (sled tree_ext) RBT.empty = Map.empty"
  by (simp add: tree_ext_def tree_sled_lookup)

lemma tree_chain_facts:
  "chain_ok tree_ext tree_chain"
  "chain_block tree_ext tree_chain = [genesis \<mapsto> genesis_block]"
  "ch_head tree_chain = genesis" "ch_commit tree_chain = genesis" "ch_id_gen tree_chain = 1"
  "db_lookup (sled tree_ext) (ch_db tree_chain) commit_key = None"
  "parents_ok (chain_block tree_ext tree_chain)"
proof -
  obtain c where c: "chain_new tree_ext (Inr RBT.empty) = Inr c" "chain_ok tree_ext c"
    "chain_block tree_ext c = [genesis \<mapsto> genesis_block]"
    "ch_head c = genesis" "ch_commit c = genesis" "ch_id_gen c = 1"
    "db_lookup (sled tree_ext) (ch_db c) commit_key = None"
    by (rule chain_new_fresh [OF tree_ext_ok tree_empty_lookup])
  have "tree_chain = c" using c(1) by (simp add: tree_chain_def)
  then show "chain_ok tree_ext tree_chain"
    "chain_block tree_ext tree_chain = [genesis \<mapsto> genesis_block]"
    "ch_head tree_chain = genesis" "ch_commit tree_chain = genesis" "ch_id_gen tree_chain = 1"
    "db_lookup (sled tree_ext) (ch_db tree_chain) commit_key = None"
    using c by simp_all
  then show "parents_ok (chain_block tree_ext tree_chain)"
    by (auto simp: parents_ok_def genesis_block_def genesis_def split: if_splits)
qed

text \<open>The chain after one append, and after committing the appended block.\<close>

definition one_block :: block where
  "one_block = \<lparr>blk_id = BlockId_new 1, blk_next = genesis, blk_data = [7]\<rparr>"

definition one_chain :: "tree chain" where
  "one_chain = fst (projr (chain_append tree_ext tree_chain \<lparr>ub_data = [7]\<rparr>))"

definition one_committed :: "tree chain" where
  "one_committed = fst (projr (chain_commit tree_ext one_chain (BlockId_new 1)))"

lemma one_chain_facts:
  "chain_append tree_ext tree_chain \<lparr>ub_data = [7]\<rparr> = Inr (one_chain, BlockId_new 1)"
  "chain_ok tree_ext one_chain"
  "chain_block tree_ext one_chain = [genesis \<mapsto> genesis_block, BlockId_new 1 \<mapsto> one_block]"
  "ch_head one_chain = BlockId_new 1" "ch_commit one_chain = genesis" "ch_id_gen one_chain = 2"
proof -
  have lt: "ch_head tree_chain < BlockId_new (ch_id_gen tree_chain)"
    by (simp add: tree_chain_facts genesis_def)
  obtain c where c: "chain_append tree_ext tree_chain \<lparr>ub_data = [7]\<rparr> =
      Inr (c, BlockId_new (ch_id_gen tree_chain))" "chain_ok tree_ext c"
    "chain_block tree_ext c = (chain_block tree_ext tree_chain)(BlockId_new (ch_id_gen tree_chain) \<mapsto>
       \<lparr>blk_id = BlockId_new (ch_id_gen tree_chain), blk_next = ch_head tree_chain,
        blk_data = ub_data \<lparr>ub_data = [7]\<rparr>\<rparr>)"
    "ch_head c = BlockId_new (ch_id_gen tree_chain)" "ch_commit c = ch_commit tree_chain"
    "ch_id_gen c = ch_id_gen tree_chain + 1"
    by (rule chain_append_ok [OF tree_chain_facts(1) lt])
  have "one_chain = c" using c(1) by (simp add: one_chain_def)
  then show "chain_append tree_ext tree_chain \<lparr>ub_data = [7]\<rparr> = Inr (one_chain, BlockId_new 1)"
    "chain_ok tree_ext one_chain"
    "chain_block tree_ext one_chain = [genesis \<mapsto> genesis_block, BlockId_new 1 \<mapsto> one_block]"
    "ch_head one_chain = BlockId_new 1" "ch_commit one_chain = genesis" "ch_id_gen one_chain = 2"
    using c by (simp_all add: tree_chain_facts one_block_def)
qed

lemma one_chain_uncommitted: "db_lookup (sled tree_ext) (ch_db one_chain) commit_key = None"
  by code_simp

lemma one_committed_facts:
  "chain_commit tree_ext one_chain (BlockId_new 1) = Inr (one_committed, BlockId_new 1)"
  "chain_ok tree_ext one_committed"
  "chain_block tree_ext one_committed = [genesis \<mapsto> genesis_block, BlockId_new 1 \<mapsto> one_block]"
  "ch_head one_committed = BlockId_new 1" "ch_commit one_committed = BlockId_new 1"
  "ch_id_gen one_committed = 2"
  "db_lookup (sled tree_ext) (ch_db one_committed) commit_key = Some (bid_bytes (BlockId_new 1))"
proof -
  have "chain_block tree_ext one_chain (BlockId_new 1) \<noteq> None"
    by (simp add: one_chain_facts)
  then obtain c where c: "chain_commit tree_ext one_chain (BlockId_new 1) = Inr (c, BlockId_new 1)"
    "chain_ok tree_ext c" "chain_block tree_ext c = chain_block tree_ext one_chain"
    "ch_head c = ch_head one_chain" "ch_commit c = BlockId_new 1"
    "ch_id_gen c = ch_id_gen one_chain"
    "db_lookup (sled tree_ext) (ch_db c) =
       (db_lookup (sled tree_ext) (ch_db one_chain))(commit_key \<mapsto> bid_bytes (BlockId_new 1))"
    by (rule chain_commit_ok [OF one_chain_facts(2) id_ok_new])
  have "one_committed = c" using c(1) by (simp add: one_committed_def)
  then show "chain_commit tree_ext one_chain (BlockId_new 1) = Inr (one_committed, BlockId_new 1)"
    "chain_ok tree_ext one_committed"
    "chain_block tree_ext one_committed = [genesis \<mapsto> genesis_block, BlockId_new 1 \<mapsto> one_block]"
    "ch_head one_committed = BlockId_new 1" "ch_commit one_committed = BlockId_new 1"
    "ch_id_gen one_committed = 2"
    "db_lookup (sled tree_ext) (ch_db one_committed) commit_key = Some (bid_bytes (BlockId_new 1))"
    using c by (simp_all add: one_chain_facts)
qed

text \<open>
  A chain with a dead branch: 1, 2 and 4 lead to the commit, 3 is a stale sibling of 2.
\<close>

definition mk_block :: "u64 \<Rightarrow> u64 \<Rightarrow> block" where
  "mk_block i n = \<lparr>blk_id = BlockId_new i, blk_next = BlockId_new n, blk_data = []\<rparr>"

definition forked_chain :: "tree chain res" where
  "forked_chain =
     bindE (chain_new tree_ext (Inr RBT.empty)) (\<lambda>c.
     bindE (foldE (\<lambda>b c. chain_extend tree_ext c b)
       [mk_block 1 0, mk_block 2 1, mk_block 3 1, mk_block 4 2] c) (\<lambda>c.
     bindE (chain_commit tree_ext c (BlockId_new 4)) (\<lambda>r. Inr (fst r))))"

section \<open>Properties of the chain\<close>

text \<open>
  Appending.  When the generated identifier is above the head, a block with that identifier,
  the given data and the old head as parent is stored, becomes the head, and every other block and
  the commit stay as they were; otherwise the assertion panics.
\<close>

lemma append_branches:
  assumes "chain_ok E c"
  defines "i \<equiv> BlockId_new (ch_id_gen c)"
  shows "if get_head c < i
    then \<exists>c'. chain_append E c u = Inr (c', i) \<and> chain_ok E c' \<and> get_head c' = i
      \<and> get_commit c' = get_commit c
      \<and> chain_block E c' =
          (chain_block E c)(i \<mapsto> \<lparr>blk_id = i, blk_next = get_head c, blk_data = ub_data u\<rparr>)
    else chain_append E c u = Inl (Panic ''assert id > head'')"
proof (cases "ch_head c < i")
  case True
  with chain_append_ok [OF assms(1), of u] show ?thesis
    unfolding i_def get_head_def get_commit_def by auto
next
  case False
  then show ?thesis
    using chain_append_panics [of c E u] by (simp add: i_def get_head_def)
qed

text \<open>
  Extending.  A block whose parent is stored is stored and becomes the head, and nothing else
  changes; a block whose parent is not stored is refused with an error.
\<close>

lemma extend_branches:
  assumes "chain_ok E c" and "id_ok (blk_id b)" and "id_ok (blk_next b)"
  shows "if chain_block E c (blk_next b) \<noteq> None
    then \<exists>c'. chain_extend E c b = Inr c' \<and> chain_ok E c' \<and> get_head c' = blk_id b
      \<and> get_commit c' = get_commit c \<and> ch_id_gen c' = ch_id_gen c
      \<and> chain_block E c' = (chain_block E c)(blk_id b \<mapsto> b)
    else chain_extend E c b = Inl (Error ''block not found in chain'')"
proof (cases "chain_block E c (blk_next b) = None")
  case True
  then show ?thesis using chain_extend_missing [OF assms(1,3)] by simp
next
  case False
  with chain_extend_ok [OF assms] show ?thesis
    unfolding get_head_def get_commit_def by auto
qed

text \<open>
  Committing.  A stored block becomes the commit, in memory and in the commit entry, and no
  block changes; committing a block that is not stored panics.
\<close>

lemma commit_branches:
  assumes "chain_ok E c" and "id_ok i"
  shows "if chain_block E c i \<noteq> None
    then \<exists>c'. chain_commit E c i = Inr (c', i) \<and> chain_ok E c' \<and> get_commit c' = i
      \<and> get_head c' = get_head c \<and> chain_block E c' = chain_block E c
      \<and> db_lookup (sled E) (ch_db c') commit_key = Some (bid_bytes i)
    else chain_commit E c i = Inl (Panic '''')"
proof (cases "chain_block E c i = None")
  case True
  then show ?thesis using chain_commit_missing [OF assms] by simp
next
  case False
  show ?thesis
    by (rule chain_commit_ok [OF assms False])
      (use False in \<open>simp add: get_head_def get_commit_def\<close>)
qed

text \<open>
  Reading a range.  A range that does not come across the commit entry yields every stored
  block within its bounds, each once, in ascending order of identifiers; one that does panics
  there, since the entry is not a block.
\<close>

lemma range_exact:
  assumes "chain_ok E c"
  shows "if range_clear E c lo hi
    then \<exists>bs. forceE (chain_range E c lo hi) = Inr bs
      \<and> sorted_wrt (<) (map blk_id bs)
      \<and> set bs = {b. \<exists>i. chain_block E c i = Some b \<and> in_bounds lo hi (bid_bytes i)}
    else forceE (chain_range E c lo hi) = Inl (Panic ''couldn't deserialize'')"
proof (cases "range_clear E c lo hi")
  case False
  then obtain rest where "chain_range E c lo hi =
      chain_range E c lo (Excluded commit_key) @ Inl (Panic ''couldn't deserialize'') # rest"
    by (auto simp: range_clear_def intro: chain_range_hits_commit [OF assms])
  moreover have "range_clear E c lo (Excluded commit_key)"
    by (simp add: range_clear_def in_bounds_def)
  then obtain bs where "chain_range E c lo (Excluded commit_key) = map Inr bs"
    by (rule chain_range_blocks [OF assms])
  ultimately show ?thesis
    using False by (simp add: forceE_prefix)
next
  case True
  obtain bs where bs: "chain_range E c lo hi = map Inr bs" "sorted_wrt (<) (map blk_id bs)"
      "\<forall>b. b \<in> set bs \<longleftrightarrow> chain_block E c (blk_id b) = Some b \<and> in_bounds lo hi (bid_bytes (blk_id b))"
    by (rule chain_range_blocks [OF assms True])
  have "set bs = {b. \<exists>i. chain_block E c i = Some b \<and> in_bounds lo hi (bid_bytes i)}"
    using bs(3) chain_block_id(1) [OF assms(1)] by blast
  with bs(1,2) True show ?thesis by auto
qed

text \<open>
  The head can always be walked back, parent by parent, to the genesis, before and after an
  append, and what the commit pointed to below the head is still below the new head.
\<close>

lemma append_keeps_history:
  assumes "chain_ok E c" and "parents_ok (chain_block E c)" and "chain_append E c u = Inr (c', i)"
    and "ancestor (chain_block E c) (get_head c) (get_commit c)"
  shows "ancestor (chain_block E c') (get_head c') genesis
    \<and> ancestor (chain_block E c') (get_head c') (get_commit c')
    \<and> parents_ok (chain_block E c')"
proof -
  have ok: "chain_ok E c'" and same: "get_commit c' = get_commit c"
    using chain_store.append_law [OF assms(1,3)] by simp_all
  have par: "parents_ok (chain_block E c')"
    by (rule chain_store.append_parents_ok [OF assms(1-3)])
  show ?thesis
    using par chain_store.head_reaches_genesis [OF ok par]
      chain_store.append_keeps_ancestor [OF assms] same by simp
qed

text \<open>
  (C32) A node that is restarted on a directory with a commit other than the genesis opens its chain
  at the commit, and from then on every append panics: the identifier generator is started at the
  identifier of the commit, which is also the head.
\<close>

theorem reopen_append_panics:
  assumes "chain_ok E c" and "get_commit c \<noteq> genesis"
  shows "\<exists>c'. chain_new E (Inr (ch_db c)) = Inr c' \<and> get_commit c' = get_commit c
    \<and> get_head c' = get_commit c
    \<and> chain_append E c' u = Inl (Panic ''assert id > head'')"
proof -
  have "ch_commit c \<noteq> genesis" using assms(2) by (simp add: get_commit_def)
  then obtain c' where c': "chain_new E (Inr (ch_db c)) = Inr c'" "ch_head c' = ch_commit c"
      "ch_commit c' = ch_commit c" "BlockId_new (ch_id_gen c') = ch_commit c"
    by (rule chain_new_reopen [OF assms(1)])
  then have "\<not> ch_head c' < BlockId_new (ch_id_gen c')" by simp
  with c' show ?thesis
    using chain_append_panics [of c' E u] by (auto simp: get_head_def get_commit_def)
qed

theorem reopen_append_panics_witness:
  "\<exists>c'. chain_new tree_ext (Inr (ch_db one_committed)) = Inr c'
    \<and> chain_append tree_ext c' \<lparr>ub_data = []\<rparr> = Inl (Panic ''assert id > head'')"
  using reopen_append_panics [OF one_committed_facts(2), of "\<lparr>ub_data = []\<rparr>"]
  by (auto simp: get_commit_def one_committed_facts genesis_def)

text \<open>
  Compaction leaves a chain without dead branches as it is: a committed block is never removed
  from it.
\<close>

lemma compact_linear:
  assumes "chain_ok E c" and "linear_below E c (get_commit c)"
    and "bid_bytes (get_commit c) \<le> commit_key"
  shows "chain_compact E c = Inr c"
proof -
  have "range_clear E c (incl genesis) (excl (get_commit c))"
    using assms(3) by (simp add: range_clear_def in_bounds_def not_less)
  then obtain bs where bs: "chain_range E c (incl genesis) (excl (get_commit c)) = map Inr bs"
      "sorted_wrt (<) (map blk_id bs)"
      "\<forall>b. b \<in> set bs \<longleftrightarrow> chain_block E c (blk_id b) = Some b
        \<and> in_bounds (incl genesis) (excl (get_commit c)) (bid_bytes (blk_id b))"
    by (rule chain_range_blocks [OF assms(1)])
  have "linked bs"
    by (rule linear_linked [OF assms(1,2) bs(2) _ order_refl])
      (use bs(3) in \<open>simp add: in_bounds_def less_block_id_def less_eq_block_id_def\<close>)
  then show ?thesis
    using compact_linked [of bs None E c] bs(1) by (auto simp: chain_compact_def genesis_def)
qed


end
