(* ===== verification/Election.thy ===== *)
theory Election
  imports Prelude
begin

text \<open>
  \<^verbatim>\<open>raft/election.rs\<close>: the votes a candidate has received and the status they give it.  The
  \<^verbatim>\<open>HashMap\<close> of votes is an association list with distinct keys; what the code computes from it
  does not depend on the order.
\<close>

section \<open>The election\<close>

record election =
  el_voter_ids :: "node_id list"
  el_votes :: "(node_id \<times> bool) list"

datatype ElectionStatus = Elected | Voting | Defeated

definition election_reset :: "election \<Rightarrow> election" where
  "election_reset e = e\<lparr>el_votes := []\<rparr>"

definition election_new :: "node_id list \<Rightarrow> election" where
  "election_new voter_ids = election_reset \<lparr>el_voter_ids = voter_ids, el_votes = []\<rparr>"

definition election_vote :: "election \<Rightarrow> node_id \<Rightarrow> bool \<Rightarrow> election" where
  "election_vote e i v = e\<lparr>el_votes := AList.update i v (el_votes e)\<rparr>"

definition voters_size :: "election \<Rightarrow> nat" where
  "voters_size e = length (el_voter_ids e)"

definition quorum_size :: "election \<Rightarrow> nat" where
  "quorum_size e =
     (if length (el_voter_ids e) = 1 then 0 else length (el_voter_ids e) div 2 + 1)"

definition count_votes :: "(node_id \<times> bool) list \<Rightarrow> nat \<times> nat" where
  "count_votes vs =
     fold (\<lambda>(_, v) (votes, total). (if v then votes + 1 else votes, total + 1)) vs (0, 0)"

definition election_status :: "election \<Rightarrow> ElectionStatus" where
  "election_status e =
     (let (votes, total) = count_votes (el_votes e)
      in if votes \<ge> quorum_size e then Elected
         else if total - votes = quorum_size e then Defeated
         else Voting)"

section \<open>Abstract view\<close>

definition granted_by :: "election \<Rightarrow> node_id set" where
  "granted_by e = {i. map_of (el_votes e) i = Some True}"

definition denied_by :: "election \<Rightarrow> node_id set" where
  "denied_by e = {i. map_of (el_votes e) i = Some False}"

definition election_ok :: "election \<Rightarrow> bool" where
  "election_ok e \<longleftrightarrow> distinct (map fst (el_votes e))"

text \<open>The sets of voters whose votes elect.\<close>

definition elects :: "node_id list \<Rightarrow> node_id set \<Rightarrow> bool" where
  "elects ids Q \<longleftrightarrow> distinct ids \<and> 1 < length ids \<and> Q \<subseteq> set ids
     \<and> quorum_size (election_new ids) \<le> card Q"

section \<open>Interface: a system of quorums\<close>

locale quorum_system =
  fixes quorum :: "'a set \<Rightarrow> bool"
  assumes intersect: "quorum P \<Longrightarrow> quorum Q \<Longrightarrow> P \<inter> Q \<noteq> {}"
begin

lemma quorum_nonempty: "quorum Q \<Longrightarrow> Q \<noteq> {}"
  using intersect by blast

text \<open>Two quorums whose members agree on one choice each made the same choice.\<close>

lemma unique_choice:
  assumes "quorum P" and "quorum Q"
    and "\<And>v. v \<in> P \<Longrightarrow> chose v a" and "\<And>v. v \<in> Q \<Longrightarrow> chose v b"
    and "\<And>v x y. chose v x \<Longrightarrow> chose v y \<Longrightarrow> x = y"
  shows "a = b"
  using intersect [OF assms(1,2)] assms(3-5) by blast

end

section \<open>Counting votes\<close>

lemma election_new_simps [simp]:
  "el_voter_ids (election_new ids) = ids" "el_votes (election_new ids) = []"
  by (simp_all add: election_new_def election_reset_def)

lemma count_votes_fold:
  "fold (\<lambda>(_, v) (votes, total). (if v then votes + 1 else votes, total + 1)) vs (a, t) =
     (a + length (filter snd vs), t + length vs)"
  by (induction vs arbitrary: a t) auto

lemma count_votes_eq: "count_votes vs = (length (filter snd vs), length vs)"
  by (simp only: count_votes_def count_votes_fold add_0)

lemma card_votes:
  assumes "distinct (map fst vs)"
  shows "card {i. map_of vs i = Some v} = length (filter (\<lambda>p. snd p = v) vs)"
proof -
  have "{i. map_of vs i = Some v} = set (map fst (filter (\<lambda>p. snd p = v) vs))"
    using assms by (auto simp: image_iff)
  moreover have "distinct (map fst (filter (\<lambda>p. snd p = v) vs))"
    using assms by (rule distinct_map_filter)
  ultimately show ?thesis
    by (metis distinct_card length_map)
qed

lemma length_votes: "length vs = length (filter snd vs) + length (filter (\<lambda>p. \<not> snd p) vs)"
  by (simp add: sum_length_filter_compl)

lemma election_status_eq:
  assumes "election_ok e"
  shows "election_status e =
    (if quorum_size e \<le> card (granted_by e) then Elected
     else if card (denied_by e) = quorum_size e then Defeated
     else Voting)"
  using assms card_votes [of "el_votes e" True] card_votes [of "el_votes e" False]
    length_votes [of "el_votes e"]
  by (simp add: election_status_def count_votes_eq election_ok_def granted_by_def denied_by_def)

lemma election_ok_new [simp]: "election_ok (election_new ids)"
  by (simp add: election_ok_def)

lemma election_ok_vote [simp]: "election_ok e \<Longrightarrow> election_ok (election_vote e i v)"
  by (simp add: election_ok_def election_vote_def distinct_update)

lemma granted_by_vote:
  "granted_by (election_vote e i v) =
     (if v then insert i (granted_by e) else granted_by e - {i})"
  by (auto simp: granted_by_def election_vote_def update_conv)

lemma denied_by_vote:
  "denied_by (election_vote e i v) =
     (if v then denied_by e - {i} else insert i (denied_by e))"
  by (auto simp: denied_by_def election_vote_def update_conv)

lemma voter_ids_vote [simp]: "el_voter_ids (election_vote e i v) = el_voter_ids e"
  by (simp add: election_vote_def)

lemma granted_by_new [simp]: "granted_by (election_new ids) = {}"
  by (simp add: granted_by_def)

lemma quorum_size_new: "quorum_size e = quorum_size (election_new (el_voter_ids e))"
  by (simp add: quorum_size_def)

lemma quorum_size_pos: "length (el_voter_ids e) \<noteq> 1 \<Longrightarrow> 0 < quorum_size e"
  by (simp add: quorum_size_def)

section \<open>Majorities intersect\<close>

lemma majorities_meet:
  assumes "finite U" and "P \<subseteq> U" and "Q \<subseteq> U" and "card U < card P + card Q"
  shows "P \<inter> Q \<noteq> {}"
proof
  assume "P \<inter> Q = {}"
  then have "card P + card Q = card (P \<union> Q)"
    using assms(1-3) by (metis card_Un_disjoint finite_subset)
  also have "\<dots> \<le> card U"
    using assms(1-3) by (intro card_mono) auto
  finally show False using assms(4) by simp
qed

interpretation voters: quorum_system "elects ids" for ids
proof
  fix P Q
  assume P: "elects ids P" and Q: "elects ids Q"
  then have "card (set ids) = length ids"
    by (simp add: elects_def distinct_card)
  moreover have "length ids < 2 * (length ids div 2 + 1)" by simp
  moreover have "length ids div 2 + 1 \<le> card P" and "length ids div 2 + 1 \<le> card Q"
    using P Q by (auto simp: elects_def quorum_size_def split: if_splits)
  ultimately show "P \<inter> Q \<noteq> {}"
    using P Q by (intro majorities_meet [of "set ids"]) (auto simp: elects_def)
qed

section \<open>Properties of the election\<close>

text \<open>
  (C31) The status counts voters, not messages: whatever the order and repetition of the vote
  responses, the candidate is elected exactly when the nodes whose last response granted the vote
  reach the quorum, and defeated when it is not elected and the nodes whose last response denied it
  are as many as the quorum.
\<close>

theorem status_counts_last_responses:
  fixes rs :: "(node_id \<times> bool) list" and ids
  defines "e \<equiv> fold (\<lambda>(i, v) e. election_vote e i v) rs (election_new ids)"
  shows "election_status e =
    (if quorum_size e \<le> card {i. map_of (rev rs) i = Some True} then Elected
     else if card {i. map_of (rev rs) i = Some False} = quorum_size e then Defeated
     else Voting)"
proof -
  have "election_ok (fold (\<lambda>(i, v) e. election_vote e i v) rs e0)" if "election_ok e0" for e0
    using that by (induction rs arbitrary: e0) auto
  then have ok: "election_ok e"
    by (simp add: e_def)
  have "map_of (el_votes (fold (\<lambda>(i, v) e. election_vote e i v) rs e0)) =
      map_of (el_votes e0) ++ map_of (rev rs)" for e0
    by (induction rs arbitrary: e0)
      (auto simp: election_vote_def update_conv' map_add_def fun_eq_iff split: option.splits)
  then have "map_of (el_votes e) = map_of (rev rs)"
    by (simp add: e_def)
  then show ?thesis
    using election_status_eq [OF ok] by (simp add: granted_by_def denied_by_def)
qed

text \<open>
  Two candidates that are both elected by voters of the same cluster, of at least two nodes,
  have a voter in common.
\<close>

lemma elected_share_voter:
  assumes "election_ok e" and "election_ok f"
    and "el_voter_ids e = ids" and "set (el_voter_ids f) = set ids" and "distinct (el_voter_ids f)"
    and "distinct ids" and "1 < length ids"
    and "granted_by e \<subseteq> set ids" and "granted_by f \<subseteq> set ids"
    and "election_status e = Elected" and "election_status f = Elected"
  shows "granted_by e \<inter> granted_by f \<noteq> {}"
proof (rule voters.intersect [of ids])
  have len: "length (el_voter_ids f) = length ids"
    using assms(4-6) by (metis distinct_card)
  have "quorum_size e \<le> card (granted_by e)" and "quorum_size f \<le> card (granted_by f)"
    using assms(10,11) election_status_eq [OF assms(1)] election_status_eq [OF assms(2)]
    by (auto split: if_splits)
  then show "elects ids (granted_by e)" and "elects ids (granted_by f)"
    using assms(3,6-9) len by (auto simp: elects_def quorum_size_def)
qed

end
