(* ===== verification/Progress.thy ===== *)
theory Progress
  imports External
begin

text \<open>
  \<^verbatim>\<open>raft/progress.rs\<close>: what the leader knows of the head of every node.  The \<^verbatim>\<open>HashMap\<close> is an
  association list with distinct keys.
\<close>

section \<open>The progress of one node\<close>

record 'st progress =
  pr_node_id :: node_id
  pr_state :: 'st
  pr_active :: bool
  pr_head :: block_id

record probe =
  paused :: bool

record replicate =
  inflight :: "log_index list"
  inflight_capacity :: nat

record snapshot =
  pending :: "log_index option"

datatype node_progress =
    Probe "probe progress"
  | Replicate "replicate progress"
  | Snapshot "snapshot progress"

definition MAX_INFLIGHT :: nat where
  "MAX_INFLIGHT = 5"

definition probe_reset :: "probe \<Rightarrow> probe" where
  "probe_reset s = s\<lparr>paused := False\<rparr>"

definition snapshot_reset :: "snapshot \<Rightarrow> snapshot" where
  "snapshot_reset s = s\<lparr>pending := None\<rparr>"

definition replicate_reset :: "replicate \<Rightarrow> replicate" where
  "replicate_reset s = s"

definition progress_reset :: "('st \<Rightarrow> 'st) \<Rightarrow> 'st progress \<Rightarrow> 'st progress" where
  "progress_reset reset p = p\<lparr>pr_active := False, pr_state := reset (pr_state p)\<rparr>"

definition increment :: "'st progress \<Rightarrow> block_id \<Rightarrow> 'st progress \<times> bool" where
  "increment p i = (if pr_head p < i then (p\<lparr>pr_head := i\<rparr>, True) else (p, False))"

definition progress_new :: "node_id \<Rightarrow> probe progress" where
  "progress_new n =
     \<lparr>pr_node_id = n, pr_state = \<lparr>paused = False\<rparr>, pr_active = False, pr_head = BlockId_new 0\<rparr>"

definition probe_is_active :: "probe progress \<Rightarrow> bool" where
  "probe_is_active p \<longleftrightarrow> \<not> paused (pr_state p)"

definition replicate_is_active :: "replicate progress \<Rightarrow> bool" where
  "replicate_is_active p \<longleftrightarrow> inflight_capacity (pr_state p) > length (inflight (pr_state p))"

definition snapshot_is_active :: "snapshot progress \<Rightarrow> bool" where
  "snapshot_is_active p \<longleftrightarrow> pr_active p"

definition probe_from_replicate :: "replicate progress \<Rightarrow> probe progress" where
  "probe_from_replicate p =
     \<lparr>pr_node_id = pr_node_id p, pr_state = \<lparr>paused = False\<rparr>,
      pr_active = pr_active p, pr_head = pr_head p\<rparr>"

definition replicate_from_probe :: "probe progress \<Rightarrow> replicate progress" where
  "replicate_from_probe p =
     \<lparr>pr_node_id = pr_node_id p,
      pr_state = \<lparr>inflight = [], inflight_capacity = MAX_INFLIGHT\<rparr>,
      pr_active = pr_active p, pr_head = pr_head p\<rparr>"

definition node_progress_new :: "node_id \<Rightarrow> node_progress" where
  "node_progress_new n = Probe (progress_new n)"

fun node_progress_advance :: "node_progress \<Rightarrow> block_id \<Rightarrow> node_progress res" where
  "node_progress_advance (Probe p) i =
     (case increment p i of
        (p', True) \<Rightarrow> Inr (Replicate (replicate_from_probe p'))
      | (p', False) \<Rightarrow> Inr (Probe p'))"
| "node_progress_advance (Replicate p) i =
     (case increment p i of
        (p', True) \<Rightarrow> Inr (Replicate p')
      | (p', False) \<Rightarrow> Inr (Probe (probe_from_replicate p')))"
| "node_progress_advance (Snapshot p) i = Inl (Panic ''explicit panic'')"

fun node_progress_is_active :: "node_progress \<Rightarrow> bool" where
  "node_progress_is_active (Probe p) = probe_is_active p"
| "node_progress_is_active (Replicate p) = replicate_is_active p"
| "node_progress_is_active (Snapshot p) = snapshot_is_active p"

fun node_progress_head :: "node_progress \<Rightarrow> block_id" where
  "node_progress_head (Probe p) = pr_head p"
| "node_progress_head (Replicate p) = pr_head p"
| "node_progress_head (Snapshot p) = pr_head p"

section \<open>The progress of the cluster\<close>

type_synonym replication_progress = "(node_id \<times> node_progress) list"

definition rp_insert :: "replication_progress \<Rightarrow> node_id \<Rightarrow> replication_progress" where
  "rp_insert P n = AList.update n (Probe (progress_new n)) P"

definition rp_new :: "node_id list \<Rightarrow> replication_progress res" where
  "rp_new nodes =
     bindE (assertE (nodes \<noteq> []) ''assertion failed: !nodes.is_empty()'') (\<lambda>_.
     Inr (fold (\<lambda>n P. AList.update n (Probe (progress_new n)) P) nodes []))"

definition rp_get :: "replication_progress \<Rightarrow> node_id \<Rightarrow> node_progress option" where
  "rp_get P n = map_of P n"

definition rp_remove :: "replication_progress \<Rightarrow> node_id \<Rightarrow> replication_progress \<times> node_progress option" where
  "rp_remove P n = (AList.delete n P, map_of P n)"

definition rp_advance :: "replication_progress \<Rightarrow> node_id \<Rightarrow> block_id \<Rightarrow> replication_progress res" where
  "rp_advance P n i =
     (let (P', node) = rp_remove P n
      in bindE (expectE node ''the node does not exist'') (\<lambda>p.
         bindE (node_progress_advance p i) (\<lambda>p'.
         Inr (AList.update n p' P'))))"

text \<open>The loop that collects the heads, which panics on a snapshot.\<close>

fun collect_heads :: "node_progress list \<Rightarrow> block_id list res" where
  "collect_heads [] = Inr []"
| "collect_heads (Probe p # ps) = bindE (collect_heads ps) (\<lambda>hs. Inr (pr_head p # hs))"
| "collect_heads (Replicate p # ps) = bindE (collect_heads ps) (\<lambda>hs. Inr (pr_head p # hs))"
| "collect_heads (Snapshot p # ps) = Inl (Panic ''explicit panic'')"

definition committed_index :: "replication_progress \<Rightarrow> block_id res" where
  "committed_index P =
     bindE (collect_heads (map snd P)) (\<lambda>hs.
     let indices = rev (sort hs)
     in if length indices div 2 < length indices then Inr (indices ! (length indices div 2))
        else Inl (Panic ''index out of bounds''))"

section \<open>Abstract view\<close>

fun is_snapshot :: "node_progress \<Rightarrow> bool" where
  "is_snapshot (Snapshot p) = True"
| "is_snapshot p = False"

definition rp_ok :: "replication_progress \<Rightarrow> bool" where
  "rp_ok P \<longleftrightarrow> distinct (map fst P) \<and> P \<noteq> [] \<and> (\<forall>p \<in> set P. \<not> is_snapshot (snd p))"

definition head_of :: "replication_progress \<Rightarrow> node_id \<Rightarrow> block_id option" where
  "head_of P n = map_option node_progress_head (map_of P n)"

text \<open>The nodes known to have reached block \<open>i\<close>.\<close>

definition reached :: "replication_progress \<Rightarrow> block_id \<Rightarrow> node_id set" where
  "reached P i = {n. \<exists>h. head_of P n = Some h \<and> i \<le> h}"

section \<open>The element in the middle of a descending list\<close>

lemma filter_ge_nth:
  assumes "sorted_wrt (\<ge>) ys" and "m < length ys"
  shows "m + 1 \<le> length (filter (\<lambda>x. ys ! m \<le> x) (ys :: 'a :: linorder list))"
proof -
  have "filter (\<lambda>x. ys ! m \<le> x) (take (Suc m) ys) = take (Suc m) ys"
    using sorted_wrt_nth_less [OF assms(1)] assms(2)
    by (auto simp: filter_id_conv in_set_conv_nth less_Suc_eq)
  then have "m + 1 \<le> length (filter (\<lambda>x. ys ! m \<le> x) (take (Suc m) ys))"
    using assms(2) by simp
  also have "\<dots> \<le> length (filter (\<lambda>x. ys ! m \<le> x) (take (Suc m) ys @ drop (Suc m) ys))"
    unfolding filter_append by simp
  finally show ?thesis by simp
qed

lemma filter_gt_nth:
  assumes "sorted_wrt (\<ge>) ys" and "m < length ys" and "ys ! m < j"
  shows "length (filter (\<lambda>x. j \<le> x) (ys :: 'a :: linorder list)) \<le> m"
proof -
  have "\<forall>x \<in> set (drop m ys). x \<le> ys ! m"
  proof
    fix x
    assume "x \<in> set (drop m ys)"
    then obtain k where "k < length ys - m" "x = ys ! (m + k)"
      by (auto simp: in_set_conv_nth)
    then show "x \<le> ys ! m"
      using sorted_wrt_nth_less [OF assms(1), of m "m + k"] by (cases "k = 0") auto
  qed
  then have "filter (\<lambda>x. j \<le> x) (drop m ys) = []"
    using assms(3) by (auto simp: filter_empty_conv)
  then have "length (filter (\<lambda>x. j \<le> x) (take m ys @ drop m ys)) =
      length (filter (\<lambda>x. j \<le> x) (take m ys))"
    unfolding filter_append by simp
  also have "\<dots> \<le> m"
    using length_filter_le [of _ "take m ys"] by (auto intro: order_trans)
  finally show ?thesis by simp
qed

lemma length_filter_rev_sort: "length (filter p (rev (sort xs))) = length (filter p xs)"
  by (simp add: rev_filter [symmetric] filter_sort)

section \<open>Reading and advancing the progress\<close>

lemma collect_heads_ok:
  "\<forall>p \<in> set ps. \<not> is_snapshot p \<Longrightarrow> collect_heads ps = Inr (map node_progress_head ps)"
  by (induction ps rule: collect_heads.induct) auto

lemma collect_heads_snapshot:
  "\<exists>p \<in> set ps. is_snapshot p \<Longrightarrow> collect_heads ps = Inl (Panic ''explicit panic'')"
  by (induction ps rule: collect_heads.induct) auto

lemma committed_index_ok:
  assumes "rp_ok P"
  defines "ys \<equiv> rev (sort (map (\<lambda>p. node_progress_head (snd p)) P))"
  shows "committed_index P = Inr (ys ! (length P div 2))"
proof -
  have "collect_heads (map snd P) = Inr (map (\<lambda>p. node_progress_head (snd p)) P)"
    using assms(1) by (simp add: collect_heads_ok rp_ok_def o_def)
  moreover have "length P div 2 < length P"
    using assms(1) by (simp add: rp_ok_def)
  ultimately show ?thesis
    by (simp add: committed_index_def ys_def Let_def)
qed

lemma card_reached:
  assumes "rp_ok P"
  shows "card (reached P i) =
    length (filter (\<lambda>h. i \<le> h) (map (\<lambda>p. node_progress_head (snd p)) P))"
proof -
  have d: "distinct (map fst P)" using assms by (simp add: rp_ok_def)
  have "reached P i = fst ` set (filter (\<lambda>p. i \<le> node_progress_head (snd p)) P)"
    by (force simp: reached_def head_of_def map_of_eq_Some_iff [OF d])
  then have "reached P i = set (map fst (filter (\<lambda>p. i \<le> node_progress_head (snd p)) P))"
    by simp
  moreover have "distinct (map fst (filter (\<lambda>p. i \<le> node_progress_head (snd p)) P))"
    using d by (rule distinct_map_filter)
  ultimately have "card (reached P i) = length (filter (\<lambda>p. i \<le> node_progress_head (snd p)) P)"
    by (simp only: distinct_card length_map)
  then show ?thesis
    by (simp add: filter_map o_def)
qed

lemma node_progress_advance_ok:
  assumes "\<not> is_snapshot p"
  shows "\<exists>p'. node_progress_advance p i = Inr p' \<and> \<not> is_snapshot p'
    \<and> node_progress_head p' = max (node_progress_head p) i"
  using assms
  by (cases p; cases "node_progress_head p < i")
    (auto simp: increment_def replicate_from_probe_def probe_from_replicate_def)

lemma rp_advance_ok:
  assumes "rp_ok P" and "head_of P n = Some h"
  obtains P' where "rp_advance P n i = Inr P'" "rp_ok P'" "length P' = length P"
    "head_of P' = (head_of P)(n \<mapsto> max h i)"
proof -
  obtain p where p: "map_of P n = Some p" "node_progress_head p = h"
    using assms(2) by (auto simp: head_of_def)
  have "\<not> is_snapshot p"
    using assms(1) map_of_SomeD [OF p(1)] by (auto simp: rp_ok_def)
  then obtain p' where p': "node_progress_advance p i = Inr p'" "\<not> is_snapshot p'"
      "node_progress_head p' = max (node_progress_head p) i"
    using node_progress_advance_ok by blast
  let ?P = "AList.update n p' (AList.delete n P)"
  have d: "distinct (map fst ?P)"
    using assms(1) by (simp add: rp_ok_def distinct_update distinct_delete)
  have m: "map_of ?P = (map_of P)(n \<mapsto> p')"
    by (simp add: update_conv' delete_conv')
  show ?thesis
  proof (rule that)
    show "rp_advance P n i = Inr ?P"
      using p p' by (simp add: rp_advance_def rp_remove_def)
    have "\<not> is_snapshot q" if "(k, q) \<in> set ?P" for k q
    proof -
      have "map_of ?P k = Some q" using d that by simp
      then show ?thesis
        using assms(1) p'(2) by (auto simp: m rp_ok_def dest: map_of_SomeD split: if_splits)
    qed
    moreover have "?P \<noteq> []" by (cases "AList.delete n P") auto
    ultimately show "rp_ok ?P"
      using d by (auto simp: rp_ok_def)
    have "set (map fst ?P) = set (map fst P)"
      using domI [of "map_of P" n, OF p(1)] arg_cong [OF m, of dom]
      by (auto simp: dom_map_of_conv_image_fst)
    then show "length ?P = length P"
      using d assms(1) distinct_card [of "map fst ?P"] distinct_card [of "map fst P"]
      by (simp add: rp_ok_def)
    show "head_of ?P = (head_of P)(n \<mapsto> max h i)"
      using p(2) p'(3) by (auto simp: head_of_def m fun_eq_iff)
  qed
qed

lemma rp_advance_unknown:
  "head_of P n = None \<Longrightarrow> rp_advance P n i = Inl (Panic ''the node does not exist'')"
  by (simp add: rp_advance_def rp_remove_def head_of_def)

lemma committed_index_counts:
  assumes "rp_ok P" and "committed_index P = Inr i"
  shows "length P div 2 + 1 \<le> card (reached P i)"
    and "i < j \<Longrightarrow> card (reached P j) \<le> length P div 2"
    and "\<exists>n. head_of P n = Some i"
proof -
  let ?hs = "map (\<lambda>p. node_progress_head (snd p)) P"
  let ?ys = "rev (sort ?hs)"
  have m: "length P div 2 < length ?ys" using assms(1) by (simp add: rp_ok_def)
  have i: "i = ?ys ! (length P div 2)"
    using committed_index_ok [OF assms(1)] assms(2) by simp
  have desc: "sorted_wrt (\<ge>) ?ys"
    by (simp add: sorted_wrt_rev)
  show "length P div 2 + 1 \<le> card (reached P i)"
    using filter_ge_nth [OF desc m] length_filter_rev_sort [of "\<lambda>h. i \<le> h" ?hs]
    by (simp add: card_reached [OF assms(1)] i)
  show "card (reached P j) \<le> length P div 2" if "i < j"
    using filter_gt_nth [OF desc m, of j] that length_filter_rev_sort [of "\<lambda>h. j \<le> h" ?hs]
    by (simp add: card_reached [OF assms(1)] i)
  have "i \<in> set ?ys" using m by (simp only: i nth_mem)
  then obtain n p where "(n, p) \<in> set P" "i = node_progress_head p" by auto
  then show "\<exists>n. head_of P n = Some i"
    using assms(1) by (auto simp: head_of_def rp_ok_def map_of_eq_Some_iff)
qed

lemma reached_mono:
  assumes "head_of P' = (head_of P)(n \<mapsto> max h i)" and "head_of P n = Some h"
  shows "reached P j \<subseteq> reached P' j"
  using assms by (auto simp: reached_def max_def)

lemma finite_reached: "finite (reached P i)"
proof -
  have "reached P i \<subseteq> fst ` set P"
    by (auto simp: reached_def head_of_def dest!: map_of_SomeD) force
  then show ?thesis by (rule finite_subset) simp
qed

lemma pr_head_new [simp]: "pr_head (progress_new n) = BlockId_new 0"
  by (simp add: progress_new_def)

lemma rp_new_ok:
  assumes "nodes \<noteq> []"
  obtains P where "rp_new nodes = Inr P" "rp_ok P"
    "\<And>n. head_of P n = (if n \<in> set nodes then Some (BlockId_new 0) else None)"
proof -
  let ?f = "\<lambda>n. AList.update n (Probe (progress_new n))"
  have ok: "distinct (map fst (fold ?f ns P)) \<and> (\<forall>n. map_of (fold ?f ns P) n =
      (if n \<in> set ns then Some (Probe (progress_new n)) else map_of P n))"
    if "distinct (map fst P)" for ns P
    using that by (induction ns arbitrary: P) (auto simp: distinct_update update_conv')
  let ?P = "fold ?f nodes []"
  have d: "distinct (map fst ?P)" and m: "map_of ?P n =
      (if n \<in> set nodes then Some (Probe (progress_new n)) else None)" for n
    using ok [of "[]" nodes] by simp_all
  have "\<not> is_snapshot (snd p)" if "p \<in> set ?P" for p
  proof -
    have "map_of ?P (fst p) = Some (snd p)"
      using that map_of_eq_Some_iff [OF d, of "fst p" "snd p"] by simp
    then have "snd p = Probe (progress_new (fst p))"
      using m [of "fst p"] by (simp split: if_splits)
    then show ?thesis by simp
  qed
  moreover have "?P \<noteq> []"
    using m [of "hd nodes"] assms by auto
  ultimately have "rp_ok ?P"
    using d by (auto simp: rp_ok_def)
  moreover have "rp_new nodes = Inr ?P"
    using assms by (simp add: rp_new_def)
  ultimately show ?thesis
    by (intro that [of ?P]) (simp_all add: head_of_def m)
qed

section \<open>Properties of the progress\<close>

text \<open>
  (C8) The committed index is on a majority: more than half of the nodes have reached it, and it is
  the largest such block, since no block above it has been reached by more than half of them.
\<close>

theorem committed_index_majority:
  assumes "rp_ok P"
  shows "\<exists>i. committed_index P = Inr i \<and> length P < 2 * card (reached P i)
    \<and> (\<forall>j > i. 2 * card (reached P j) \<le> length P)"
proof -
  obtain i where i: "committed_index P = Inr i"
    using committed_index_ok [OF assms] by blast
  have "2 * card (reached P j) \<le> length P" if "i < j" for j
    using committed_index_counts(2) [OF assms i that] by simp
  then show ?thesis
    using committed_index_counts(1) [OF assms i] i by auto
qed

theorem committed_index_majority_witness:
  "\<exists>i. committed_index [(1, Probe (progress_new 1)),
       (2, Replicate (replicate_from_probe ((progress_new 2)\<lparr>pr_head := BlockId_new 4\<rparr>))),
       (3, Replicate (replicate_from_probe ((progress_new 3)\<lparr>pr_head := BlockId_new 7\<rparr>)))] = Inr i
    \<and> i = BlockId_new 4"
proof -
  let ?P = "[(1, Probe (progress_new 1)),
       (2, Replicate (replicate_from_probe ((progress_new 2)\<lparr>pr_head := BlockId_new 4\<rparr>))),
       (3, Replicate (replicate_from_probe ((progress_new 3)\<lparr>pr_head := BlockId_new 7\<rparr>)))]
    :: replication_progress"
  have "rp_ok ?P" by (simp add: rp_ok_def)
  from committed_index_majority [OF this] obtain i where i: "committed_index ?P = Inr i" by blast
  have "committed_index ?P = Inr (BlockId_new 4)" by code_simp
  with i show ?thesis by simp
qed

text \<open>
  Acknowledging a block for a known node moves only that node, to the larger of its old head
  and the block, and the committed index never goes back; an unknown node panics.
\<close>

lemma advance_monotone:
  assumes "rp_ok P"
  shows "case head_of P n of
      None \<Rightarrow> rp_advance P n i = Inl (Panic ''the node does not exist'')
    | Some h \<Rightarrow> (\<exists>P' k k'. rp_advance P n i = Inr P' \<and> rp_ok P'
        \<and> head_of P' = (head_of P)(n \<mapsto> max h i)
        \<and> committed_index P = Inr k \<and> committed_index P' = Inr k' \<and> k \<le> k')"
proof (cases "head_of P n")
  case None
  then show ?thesis by (simp add: rp_advance_unknown)
next
  case (Some h)
  then obtain P' where P': "rp_advance P n i = Inr P'" "rp_ok P'" "length P' = length P"
      "head_of P' = (head_of P)(n \<mapsto> max h i)"
    by (rule rp_advance_ok [OF assms])
  obtain k where k: "committed_index P = Inr k"
    using committed_index_ok [OF assms] by blast
  obtain k' where k': "committed_index P' = Inr k'"
    using committed_index_ok [OF P'(2)] by blast
  have "\<not> k' < k"
  proof
    assume "k' < k"
    then have "card (reached P' k) \<le> length P div 2"
      using committed_index_counts(2) [OF P'(2) k'] P'(3) by simp
    moreover have "card (reached P k) \<le> card (reached P' k)"
      by (rule card_mono [OF finite_reached reached_mono [OF P'(4) Some]])
    ultimately show False
      using committed_index_counts(1) [OF assms k] by simp
  qed
  with P' k k' Some show ?thesis by auto
qed

end
