(* ===== verification/Rpc.thy ===== *)
theory Rpc
  imports External
begin

text \<open>
  The data the raft nodes exchange and are configured with: \<^verbatim>\<open>raft/rpc.rs\<close>, the command type of
  \<^verbatim>\<open>raft/mod.rs\<close>, the instructions of \<^verbatim>\<open>raft/fsm.rs\<close> and the configuration of
  \<^verbatim>\<open>raft/config.rs\<close>.  Durations are in nanoseconds.
\<close>

section \<open>Messages\<close>

type_synonym duration = nat
type_synonym instant = nat
type_synonym uuid = "128 word"
type_synonym client_request_id = uuid

definition from_millis :: "nat \<Rightarrow> duration" where
  "from_millis ms = ms * 1000000"

definition from_secs :: "nat \<Rightarrow> duration" where
  "from_secs s = s * 1000000000"

datatype address = Peers | Peer node_id | Local | Client

datatype proposal = Proposal (proposal_get: bytes)

datatype response = Response (response_get: bytes)

datatype response_error = ResponseError

record client_request =
  cr_id :: client_request_id
  cr_address :: address
  cr_proposal :: proposal

record client_response =
  cs_id :: client_request_id
  cs_res :: "response_error + response"

datatype command =
    Tick
  | Propose
  | VoteRequest (vq_term: term_id) (vq_candidate_id: node_id) (vq_last_term: term_id)
      (vq_head: block_id)
  | VoteResponse (vr_term: term_id) (vr_from: node_id) (vr_granted: bool)
  | AppendEntries (ae_term: term_id) (ae_leader_id: node_id) (ae_blocks: "block list")
  | AppendResponse (ar_node_id: node_id) (ar_term: term_id) (ar_head: block_id) (ar_success: bool)
  | Heartbeat (hb_term: term_id) (hb_commit: block_id) (hb_leader_id: node_id)
  | HeartbeatResponse (hr_commit: block_id) (hr_has_committed: bool)
  | Timeout
  | Noop
  | ClientRequest client_request
  | ClientResponse client_response

record message =
  msg_from :: address
  msg_to :: address
  msg_command :: command

definition message_new :: "address \<Rightarrow> address \<Rightarrow> command \<Rightarrow> message" where
  "message_new src dst cmd = \<lparr>msg_from = src, msg_to = dst, msg_command = cmd\<rparr>"

datatype instruction =
    Apply block
  | Notify client_request_id address block_id

section \<open>Configuration\<close>

datatype ip_addr = V4 u32 | V6 "128 word"

record socket_addr =
  sa_ip :: ip_addr
  sa_port :: u16

record raft_node =
  nd_id :: node_id
  nd_addr :: socket_addr

record raft_config =
  rc_data_directory :: string
  rc_run_for :: "duration option"
  rc_id :: node_id
  rc_ip :: ip_addr
  rc_port :: u16
  rc_nodes :: "raft_node list"
  rc_protocol_version :: u32
  rc_heartbeat_timeout :: duration
  rc_election_timeout :: duration
  rc_commit_timeout :: duration
  rc_max_append_entries :: u64
  rc_snapshot_interval :: duration
  rc_snapshot_threshold :: u64

definition MAX_PROTOCOL_VERSION :: u32 where
  "MAX_PROTOCOL_VERSION = 0"

definition config_validate :: "raft_config \<Rightarrow> unit res" where
  "config_validate c =
     (if rc_protocol_version c > MAX_PROTOCOL_VERSION then Inl (Error ''invalid protocol version'')
      else if rc_id c = 0 then Inl (Error ''id cannot be 0'')
      else if rc_port c < 1023 then Inl (Error ''port value too low'')
      else if rc_heartbeat_timeout c < from_millis 5
        then Inl (Error ''heartbeat timeout is too low'')
      else if rc_election_timeout c < from_millis 5
        then Inl (Error ''election timeout is too low'')
      else if rc_commit_timeout c < from_millis 1 then Inl (Error ''commit timeout is too low'')
      else if rc_snapshot_interval c < from_millis 5
        then Inl (Error ''snapshot interval is too low'')
      else Inr ())"

text \<open>
  \<^verbatim>\<open>Ipv6Addr::to_ipv4\<close>: the address is IPv4-compatible (96 zero bits in front) or IPv4-mapped
  (80 zero bits and 16 one bits in front).
\<close>

definition to_ipv4 :: "128 word \<Rightarrow> u32 option" where
  "to_ipv4 a =
     (if drop_bit 32 a = 0 \<or> drop_bit 32 a = 0xFFFF then Some (ucast a) else None)"

text \<open>
  \<open>resolved\<close> is what \<^verbatim>\<open>resolve("localhost")\<close> returned, \<open>tmp\<close> the temporary directory.
\<close>

definition config_default :: "ip_addr option \<Rightarrow> string \<Rightarrow> raft_config res" where
  "config_default resolved tmp =
     (let ip = (case resolved of None \<Rightarrow> V4 0 | Some a \<Rightarrow> a)
      in bindE (case ip of V4 a \<Rightarrow> Inr a | V6 a \<Rightarrow> expectE (to_ipv4 a) ''unwrap'') (\<lambda>i.
         Inr \<lparr>rc_data_directory = tmp, rc_run_for = None, rc_id = i, rc_ip = ip, rc_port = 6669,
              rc_nodes = [], rc_protocol_version = 0,
              rc_heartbeat_timeout = from_millis 100, rc_election_timeout = from_millis 1000,
              rc_commit_timeout = from_millis 50, rc_max_append_entries = 64,
              rc_snapshot_interval = from_secs 120, rc_snapshot_threshold = 8192\<rparr>))"

section \<open>Properties of the configuration\<close>

text \<open>
  Validation accepts exactly the configurations all of whose values are in range.
\<close>

lemma validate_exact:
  "config_validate c = Inr () \<longleftrightarrow>
     rc_protocol_version c = 0 \<and> rc_id c \<noteq> 0 \<and> 1023 \<le> rc_port c
   \<and> 5000000 \<le> rc_heartbeat_timeout c \<and> 5000000 \<le> rc_election_timeout c
   \<and> 1000000 \<le> rc_commit_timeout c \<and> 5000000 \<le> rc_snapshot_interval c"
  by (auto simp: config_validate_def MAX_PROTOCOL_VERSION_def from_millis_def word_gt_0 not_less)

text \<open>
  The default configuration is valid for every IPv4 address \<open>localhost\<close> resolves to other than
  0.0.0.0; when the name does not resolve, the fallback address gives the identifier 0, which the
  validation refuses.
\<close>

lemma default_validates:
  "bindE (config_default (Some (V4 a)) tmp) config_validate =
     (if a = 0 then Inl (Error ''id cannot be 0'') else Inr ())
   \<and> bindE (config_default None tmp) config_validate = Inl (Error ''id cannot be 0'')"
  by (auto simp: config_default_def config_validate_def MAX_PROTOCOL_VERSION_def from_millis_def
      from_secs_def)

end
