(* ===== verification/Raft.thy ===== *)
theory Raft
  imports Chain Election Progress Rpc
begin

text \<open>
  \<^verbatim>\<open>raft/mod.rs\<close>: the state common to all roles, the roles themselves and the base methods.  A
  node is driven by commands; what it reads from its surroundings while it handles one (the clock,
  the random number generator, whether the debug file can be written) is the \<open>input\<close> of the step,
  and what it sends is appended to its two channels.  A failed step consumes the node, as the
  source's methods take \<^verbatim>\<open>self\<close> by value, so a failure carries no state.
\<close>

section \<open>Surroundings\<close>

text \<open>
  The sending half of an unbounded channel: what was sent so far, and whether the receiver is
  still there.
\<close>

record 'a sender =
  sent :: "'a list"
  rx_alive :: bool

definition unbounded_channel :: "'a sender" where
  "unbounded_channel = \<lparr>sent = [], rx_alive = True\<rparr>"

definition chan_send :: "'a sender \<Rightarrow> 'a \<Rightarrow> 'a sender res" where
  "chan_send ch x =
     (if rx_alive ch then Inr (ch\<lparr>sent := sent ch @ [x]\<rparr>) else Inl (Error ''channel closed''))"

definition chan_send_unwrap :: "'a sender \<Rightarrow> 'a \<Rightarrow> 'a sender res" where
  "chan_send_unwrap ch x =
     (if rx_alive ch then Inr (ch\<lparr>sent := sent ch @ [x]\<rparr>) else Inl (Panic ''channel closed''))"

text \<open>
  \<open>rng lo hi\<close> is what \<^verbatim>\<open>gen_range(lo..hi)\<close> returns during the step and \<open>now\<close> what the clock
  shows; \<open>state_file_ok\<close> says whether the debug file can be created and written.
\<close>

record input =
  now :: instant
  rng :: "nat \<Rightarrow> nat \<Rightarrow> nat"
  state_file_ok :: bool

definition input_ok :: "input \<Rightarrow> bool" where
  "input_ok I \<longleftrightarrow> (\<forall>lo hi. lo < hi \<longrightarrow> lo \<le> rng I lo hi \<and> rng I lo hi < hi)"

section \<open>The node\<close>

record raft_state =
  current_term :: term_id
  voted_for :: "node_id option"
  election_time :: "instant option"
  election_timeout :: "duration option"
  min_election_timeout :: nat
  max_election_timeout :: nat

definition state_default :: raft_state where
  "state_default =
     \<lparr>current_term = 0, voted_for = None, election_time = None, election_timeout = None,
      min_election_timeout = 500, max_election_timeout = 1000\<rparr>"

record ('db, 'role) raft =
  rf_id :: node_id
  rf_config :: raft_config
  rf_state :: raft_state
  rf_role :: 'role
  rf_chain :: "'db chain"
  rpc_tx :: "message sender"
  fsm_tx :: "instruction sender"

record follower =
  fl_leader_id :: "node_id option"
  fl_proxied_reqs :: "client_request_id set"
  fl_queued_reqs :: "client_request list"

record candidate =
  cd_election :: election
  cd_queued_reqs :: "client_request list"

record leader =
  ld_progress :: replication_progress
  ld_heartbeat_time :: instant
  ld_heartbeat_timeout :: duration

datatype 'db raft_handle =
    Follower "('db, follower) raft"
  | Candidate "('db, candidate) raft"
  | Leader "('db, leader) raft"

datatype raft_role = RoleFollower | RoleCandidate | RoleLeader

section \<open>Base methods\<close>

definition needs_election :: "input \<Rightarrow> ('db, 'r) raft \<Rightarrow> bool" where
  "needs_election I r =
     (case (election_time (rf_state r), election_timeout (rf_state r)) of
        (Some time, Some timeout) \<Rightarrow> now I - time > timeout
      | _ \<Rightarrow> False)"

text \<open>
  \<^verbatim>\<open>Raft::term\<close>, over the \<^verbatim>\<open>term\<close> method of the role.
\<close>

definition raft_term ::
  "('r \<Rightarrow> term_id \<Rightarrow> 'r res) \<Rightarrow> ('db, 'r) raft \<Rightarrow> term_id \<Rightarrow> ('db, 'r) raft res" where
  "raft_term role_term r t =
     bindE (role_term (rf_role r) t) (\<lambda>role.
     Inr (r\<lparr>rf_state := (rf_state r)\<lparr>voted_for := None, current_term := t\<rparr>, rf_role := role\<rparr>))"

definition raft_send :: "('db, 'r) raft \<Rightarrow> address \<Rightarrow> command \<Rightarrow> ('db, 'r) raft res" where
  "raft_send r dst cmd =
     bindE (chan_send (rpc_tx r) (message_new (Peer (rf_id r)) dst cmd)) (\<lambda>ch.
     Inr (r\<lparr>rpc_tx := ch\<rparr>))"

definition raft_send_all :: "('db, 'r) raft \<Rightarrow> command \<Rightarrow> ('db, 'r) raft res" where
  "raft_send_all r cmd =
     bindE (chan_send (rpc_tx r) (message_new (Peer (rf_id r)) Peers cmd)) (\<lambda>ch.
     Inr (r\<lparr>rpc_tx := ch\<rparr>))"

text \<open>\<^verbatim>\<open>self.fsm_tx.send(Instruction::Apply { block }).unwrap()\<close> for each item of an iterator.\<close>

definition apply_blocks ::
  "block res list \<Rightarrow> ('db, 'r) raft \<Rightarrow> ('db, 'r) raft res" where
  "apply_blocks items r =
     foldE (\<lambda>item r. bindE item (\<lambda>b.
       bindE (chan_send_unwrap (fsm_tx r) (Apply b)) (\<lambda>ch. Inr (r\<lparr>fsm_tx := ch\<rparr>)))) items r"

section \<open>The roles' own methods\<close>

definition follower_term :: "follower \<Rightarrow> term_id \<Rightarrow> follower res" where
  "follower_term f t = Inr (f\<lparr>fl_leader_id := None\<rparr>)"

definition candidate_term :: "candidate \<Rightarrow> term_id \<Rightarrow> candidate res" where
  "candidate_term c t = Inr (c\<lparr>cd_election := election_reset (cd_election c)\<rparr>)"

definition leader_term :: "leader \<Rightarrow> term_id \<Rightarrow> leader res" where
  "leader_term l t = Inl (Panic ''not implemented'')"

fun role_of :: "'db raft_handle \<Rightarrow> raft_role" where
  "role_of (Follower r) = RoleFollower"
| "role_of (Candidate r) = RoleCandidate"
| "role_of (Leader r) = RoleLeader"

section \<open>Moving between roles\<close>

text \<open>\<^verbatim>\<open>Raft { id: val.id, state: val.state, .. }\<close> with another role.\<close>

definition with_role :: "('db, 'r) raft \<Rightarrow> 's \<Rightarrow> ('db, 's) raft" where
  "with_role r s =
     \<lparr>rf_id = rf_id r, rf_config = rf_config r, rf_state = rf_state r, rf_role = s,
      rf_chain = rf_chain r, rpc_tx = rpc_tx r, fsm_tx = fsm_tx r\<rparr>"

definition candidate_from_follower :: "('db, follower) raft \<Rightarrow> ('db, candidate) raft" where
  "candidate_from_follower r =
     with_role r
       \<lparr>cd_election = election_new (map nd_id (rc_nodes (rf_config r)) @ [rf_id r]),
        cd_queued_reqs = []\<rparr>"

definition follower_from_candidate :: "('db, candidate) raft \<Rightarrow> ('db, follower) raft" where
  "follower_from_candidate r =
     with_role r
       \<lparr>fl_leader_id = None, fl_proxied_reqs = {},
        fl_queued_reqs = cd_queued_reqs (rf_role r)\<rparr>"

definition follower_from_leader :: "('db, leader) raft \<Rightarrow> ('db, follower) raft" where
  "follower_from_leader r =
     with_role r \<lparr>fl_leader_id = None, fl_proxied_reqs = {}, fl_queued_reqs = []\<rparr>"

definition leader_on_transition :: "('db, leader) raft \<Rightarrow> ('db, leader) raft res" where
  "leader_on_transition r = Inr r"

definition leader_from_candidate ::
  "input \<Rightarrow> ('db, candidate) raft \<Rightarrow> ('db, leader) raft res" where
  "leader_from_candidate I r =
     bindE (rp_new (map nd_id (rc_nodes (rf_config r)) @ [rf_id r])) (\<lambda>P.
     leader_on_transition (with_role r
       \<lparr>ld_progress = P, ld_heartbeat_time = now I,
        ld_heartbeat_timeout = rc_heartbeat_timeout (rf_config r)\<rparr>))"

section \<open>Frame lemmas\<close>

lemma chan_send_Inr [outcome]:
  "chan_send ch x = Inr ch' \<longleftrightarrow> rx_alive ch \<and> ch' = ch\<lparr>sent := sent ch @ [x]\<rparr>"
  by (auto simp: chan_send_def)

lemma chan_send_unwrap_Inr [outcome]:
  "chan_send_unwrap ch x = Inr ch' \<longleftrightarrow> rx_alive ch \<and> ch' = ch\<lparr>sent := sent ch @ [x]\<rparr>"
  by (auto simp: chan_send_unwrap_def)

text \<open>A message put on the channel to the other nodes.\<close>

definition push_rpc :: "('db, 'r) raft \<Rightarrow> address \<Rightarrow> command \<Rightarrow> ('db, 'r) raft" where
  "push_rpc r dst cmd = r\<lparr>rpc_tx := (rpc_tx r)\<lparr>sent :=
     sent (rpc_tx r) @ [message_new (Peer (rf_id r)) dst cmd]\<rparr>\<rparr>"

definition push_fsm :: "('db, 'r) raft \<Rightarrow> instruction list \<Rightarrow> ('db, 'r) raft" where
  "push_fsm r is = r\<lparr>fsm_tx := (fsm_tx r)\<lparr>sent := sent (fsm_tx r) @ is\<rparr>\<rparr>"

lemma raft_send_eq:
  "raft_send r dst cmd =
     (if rx_alive (rpc_tx r) then Inr (push_rpc r dst cmd) else Inl (Error ''channel closed''))"
  by (simp add: raft_send_def chan_send_def push_rpc_def)

lemma raft_send_all_eq:
  "raft_send_all r cmd =
     (if rx_alive (rpc_tx r) then Inr (push_rpc r Peers cmd) else Inl (Error ''channel closed''))"
  by (simp add: raft_send_all_def chan_send_def push_rpc_def)

lemma raft_send_Inr [outcome]:
  "raft_send r dst cmd = Inr r' \<longleftrightarrow> rx_alive (rpc_tx r) \<and> r' = push_rpc r dst cmd"
  by (auto simp: raft_send_eq)

lemma raft_send_all_Inr [outcome]:
  "raft_send_all r cmd = Inr r' \<longleftrightarrow> rx_alive (rpc_tx r) \<and> r' = push_rpc r Peers cmd"
  by (auto simp: raft_send_all_eq)

lemma push_rpc_frame [simp]:
  "rf_id (push_rpc r dst cmd) = rf_id r" "rf_config (push_rpc r dst cmd) = rf_config r"
  "rf_state (push_rpc r dst cmd) = rf_state r" "rf_role (push_rpc r dst cmd) = rf_role r"
  "rf_chain (push_rpc r dst cmd) = rf_chain r" "fsm_tx (push_rpc r dst cmd) = fsm_tx r"
  "rx_alive (rpc_tx (push_rpc r dst cmd)) = rx_alive (rpc_tx r)"
  "sent (rpc_tx (push_rpc r dst cmd)) =
     sent (rpc_tx r) @ [message_new (Peer (rf_id r)) dst cmd]"
  by (simp_all add: push_rpc_def)

lemma push_fsm_frame [simp]:
  "rf_id (push_fsm r is) = rf_id r" "rf_config (push_fsm r is) = rf_config r"
  "rf_state (push_fsm r is) = rf_state r" "rf_role (push_fsm r is) = rf_role r"
  "rf_chain (push_fsm r is) = rf_chain r" "rpc_tx (push_fsm r is) = rpc_tx r"
  "rx_alive (fsm_tx (push_fsm r is)) = rx_alive (fsm_tx r)"
  "sent (fsm_tx (push_fsm r is)) = sent (fsm_tx r) @ is"
  by (simp_all add: push_fsm_def)

lemma push_fsm_push_fsm [simp]: "push_fsm (push_fsm r is) js = push_fsm r (is @ js)"
  by (simp add: push_fsm_def)

lemma push_fsm_Nil [simp]: "push_fsm r [] = r"
  by (simp add: push_fsm_def)

lemma with_role_frame [simp]:
  "rf_id (with_role r s) = rf_id r" "rf_config (with_role r s) = rf_config r"
  "rf_state (with_role r s) = rf_state r" "rf_role (with_role r s) = s"
  "rf_chain (with_role r s) = rf_chain r" "rpc_tx (with_role r s) = rpc_tx r"
  "fsm_tx (with_role r s) = fsm_tx r"
  by (simp_all add: with_role_def)

lemma apply_blocks_Inr:
  "apply_blocks (map Inr bs) r =
     (if rx_alive (fsm_tx r) \<or> bs = [] then Inr (push_fsm r (map Apply bs))
      else Inl (Panic ''channel closed''))"
  unfolding apply_blocks_def
  by (induction bs arbitrary: r) (auto simp: chan_send_unwrap_def push_fsm_def)

lemma apply_blocks_frame:
  assumes "apply_blocks items r = Inr r'"
  obtains bs where "items = map Inr bs" "r' = push_fsm r (map Apply bs)"
proof -
  have "\<exists>bs. items = map Inr bs \<and> r' = push_fsm r (map Apply bs)"
    using assms unfolding apply_blocks_def
  proof (induction items arbitrary: r)
    case (Cons x xs)
    obtain b where b: "x = Inr b" and "foldE (\<lambda>item r. bindE item (\<lambda>b.
        bindE (chan_send_unwrap (fsm_tx r) (Apply b)) (\<lambda>ch. Inr (r\<lparr>fsm_tx := ch\<rparr>))))
        xs (push_fsm r [Apply b]) = Inr r'"
      using Cons.prems by (auto simp: bindE_Inr chan_send_unwrap_Inr push_fsm_def)
    from Cons.IH [OF this(2)] obtain bs where
      "xs = map Inr bs" "r' = push_fsm (push_fsm r [Apply b]) (map Apply bs)" by blast
    with b show ?case by (intro exI [of _ "b # bs"]) simp
  qed simp
  then show ?thesis using that by blast
qed

lemma raft_term_follower:
  "raft_term follower_term r t =
     Inr (r\<lparr>rf_state := (rf_state r)\<lparr>voted_for := None, current_term := t\<rparr>,
            rf_role := (rf_role r)\<lparr>fl_leader_id := None\<rparr>\<rparr>)"
  by (simp add: raft_term_def follower_term_def)

lemma raft_term_candidate:
  "raft_term candidate_term r t =
     Inr (r\<lparr>rf_state := (rf_state r)\<lparr>voted_for := None, current_term := t\<rparr>,
            rf_role := (rf_role r)\<lparr>cd_election := election_reset (cd_election (rf_role r))\<rparr>\<rparr>)"
  by (simp add: raft_term_def candidate_term_def)

lemma raft_term_leader: "raft_term leader_term r t = Inl (Panic ''not implemented'')"
  by (simp add: raft_term_def leader_term_def)


section \<open>Steps that grant no vote\<close>

fun is_grant :: "command \<Rightarrow> bool" where
  "is_grant (VoteResponse t n granted) = granted"
| "is_grant cmd = False"

text \<open>The node keeps its identity and configuration and sends messages other than granted votes.\<close>

definition quiet :: "('db, 'r) raft \<Rightarrow> ('db, 's) raft \<Rightarrow> bool" where
  "quiet r r' \<longleftrightarrow> rf_id r' = rf_id r \<and> rf_config r' = rf_config r
     \<and> (\<exists>ms. sent (rpc_tx r') = sent (rpc_tx r) @ ms \<and> (\<forall>m \<in> set ms. \<not> is_grant (msg_command m)))"

lemma quiet_same [intro]:
  "rf_id r' = rf_id r \<Longrightarrow> rf_config r' = rf_config r \<Longrightarrow> rpc_tx r' = rpc_tx r \<Longrightarrow> quiet r r'"
  by (simp add: quiet_def)

lemma quiet_refl [simp]: "quiet r r"
  by (simp add: quiet_def)

lemma quiet_trans [trans]: "quiet r r' \<Longrightarrow> quiet r' r'' \<Longrightarrow> quiet r r''"
  by (auto simp: quiet_def)

lemma quiet_push_rpc [simp]: "\<not> is_grant cmd \<Longrightarrow> quiet r (push_rpc r dst cmd)"
  by (simp add: quiet_def message_new_def)

lemma quiet_push_fsm [simp]: "quiet r (push_fsm r is)"
  by (simp add: quiet_def)

lemma quiet_with_role [simp]: "quiet r (with_role r s)"
  by (simp add: quiet_def)

lemma quiet_foldE:
  assumes "foldE f xs r = Inr r'" and "\<And>x t t'. f x t = Inr t' \<Longrightarrow> quiet t t'"
  shows "quiet r r'"
  by (rule foldE_invariant [OF assms(1), of "quiet r"]) (auto intro: quiet_trans assms(2))


section \<open>What the roles have in common\<close>

fun h_id :: "'db raft_handle \<Rightarrow> node_id" where
  "h_id (Follower r) = rf_id r"
| "h_id (Candidate r) = rf_id r"
| "h_id (Leader r) = rf_id r"

fun h_config :: "'db raft_handle \<Rightarrow> raft_config" where
  "h_config (Follower r) = rf_config r"
| "h_config (Candidate r) = rf_config r"
| "h_config (Leader r) = rf_config r"

fun h_chain :: "'db raft_handle \<Rightarrow> 'db chain" where
  "h_chain (Follower r) = rf_chain r"
| "h_chain (Candidate r) = rf_chain r"
| "h_chain (Leader r) = rf_chain r"

fun h_rpc :: "'db raft_handle \<Rightarrow> message sender" where
  "h_rpc (Follower r) = rpc_tx r"
| "h_rpc (Candidate r) = rpc_tx r"
| "h_rpc (Leader r) = rpc_tx r"

fun h_fsm :: "'db raft_handle \<Rightarrow> instruction sender" where
  "h_fsm (Follower r) = fsm_tx r"
| "h_fsm (Candidate r) = fsm_tx r"
| "h_fsm (Leader r) = fsm_tx r"

text \<open>The step from \<open>r\<close> to \<open>h\<close> grants no vote.\<close>

fun quiet_to :: "('db, 'r) raft \<Rightarrow> 'db raft_handle \<Rightarrow> bool" where
  "quiet_to r (Follower r') = quiet r r'"
| "quiet_to r (Candidate r') = quiet r r'"
| "quiet_to r (Leader r') = quiet r r'"

lemma quiet_to_trans: "quiet r r' \<Longrightarrow> quiet_to r' h \<Longrightarrow> quiet_to r h"
  by (cases h) (auto intro: quiet_trans)

section \<open>Well-formed commands\<close>

text \<open>Every block identifier in the command is eight bytes long.\<close>

fun cmd_ok :: "command \<Rightarrow> bool" where
  "cmd_ok (VoteRequest t c lt h) \<longleftrightarrow> id_ok h"
| "cmd_ok (AppendEntries t l bs) \<longleftrightarrow> (\<forall>b \<in> set bs. id_ok (blk_id b) \<and> id_ok (blk_next b))"
| "cmd_ok (AppendResponse n t h s) \<longleftrightarrow> id_ok h"
| "cmd_ok (Heartbeat t c l) \<longleftrightarrow> id_ok c"
| "cmd_ok (HeartbeatResponse c h) \<longleftrightarrow> id_ok c"
| "cmd_ok cmd \<longleftrightarrow> True"


section \<open>A concrete node\<close>

definition demo_input :: "instant \<Rightarrow> input" where
  "demo_input t = \<lparr>now = t, rng = (\<lambda>lo hi. lo), state_file_ok = True\<rparr>"

definition demo_config :: "node_id \<Rightarrow> node_id list \<Rightarrow> raft_config" where
  "demo_config i peers =
     \<lparr>rc_data_directory = '''', rc_run_for = None, rc_id = i, rc_ip = V4 0, rc_port = 6669,
      rc_nodes = map (\<lambda>n. \<lparr>nd_id = n, nd_addr = \<lparr>sa_ip = V4 0, sa_port = 6669\<rparr>\<rparr>) peers,
      rc_protocol_version = 0, rc_heartbeat_timeout = from_millis 100,
      rc_election_timeout = from_millis 1000, rc_commit_timeout = from_millis 50,
      rc_max_append_entries = 64, rc_snapshot_interval = from_secs 120,
      rc_snapshot_threshold = 8192\<rparr>"

definition demo_raft :: "node_id \<Rightarrow> node_id list \<Rightarrow> 'r \<Rightarrow> tree chain \<Rightarrow> (tree, 'r) raft" where
  "demo_raft i peers role c =
     \<lparr>rf_id = i, rf_config = demo_config i peers, rf_state = state_default, rf_role = role,
      rf_chain = c, rpc_tx = \<lparr>sent = [], rx_alive = True\<rparr>, fsm_tx = \<lparr>sent = [], rx_alive = True\<rparr>\<rparr>"

lemma demo_raft_simps [simp]:
  "rf_id (demo_raft i peers role c) = i" "rf_config (demo_raft i peers role c) = demo_config i peers"
  "rf_state (demo_raft i peers role c) = state_default" "rf_role (demo_raft i peers role c) = role"
  "rf_chain (demo_raft i peers role c) = c"
  "rx_alive (rpc_tx (demo_raft i peers role c))" "rx_alive (fsm_tx (demo_raft i peers role c))"
  "sent (rpc_tx (demo_raft i peers role c)) = []" "sent (fsm_tx (demo_raft i peers role c)) = []"
  by (simp_all add: demo_raft_def)

lemma demo_config_simps [simp]:
  "rc_id (demo_config i peers) = i" "map nd_id (rc_nodes (demo_config i peers)) = peers"
  "nd_id ` set (rc_nodes (demo_config i peers)) = set peers"
  by (simp_all add: demo_config_def o_def image_image)

end
