(* ===== verification/Leader_Role.thy ===== *)
theory Leader_Role
  imports Raft
begin

text \<open>
  \<^verbatim>\<open>raft/leader.rs\<close>: heartbeats, committing what a majority has reached, replication to the other
  nodes and the commands a leader answers to.
\<close>

section \<open>Operations\<close>

definition leader_heartbeat :: "('db, leader) raft \<Rightarrow> ('db, leader) raft res" where
  "leader_heartbeat r =
     raft_send_all r (Heartbeat (current_term (rf_state r)) (get_commit (rf_chain r)) (rf_id r))"

definition needs_heartbeat :: "input \<Rightarrow> ('db, leader) raft \<Rightarrow> bool" where
  "needs_heartbeat I r \<longleftrightarrow>
     now I - ld_heartbeat_time (rf_role r) > ld_heartbeat_timeout (rf_role r)"

definition reset_heartbeat_timer :: "input \<Rightarrow> ('db, leader) raft \<Rightarrow> ('db, leader) raft" where
  "reset_heartbeat_timer I r = r\<lparr>rf_role := (rf_role r)\<lparr>ld_heartbeat_time := now I\<rparr>\<rparr>"

text \<open>
  \<^verbatim>\<open>range(prev..=new).skip(1).for_each(..)\<close>: the first item is produced and dropped.
\<close>

definition leader_commit ::
  "'db ext \<Rightarrow> ('db, leader) raft \<Rightarrow> (('db, leader) raft \<times> block_id) res" where
  "leader_commit E r =
     bindE (committed_index (ld_progress (rf_role r))) (\<lambda>quorum_idx.
     if quorum_idx > get_commit (rf_chain r) then
       let prev = get_commit (rf_chain r)
       in bindE (chain_commit E (rf_chain r) quorum_idx) (\<lambda>(c, new).
          let r' = r\<lparr>rf_chain := c\<rparr>
          in bindE (case chain_range E c (incl prev) (incl new) of
                [] \<Rightarrow> Inr r'
              | first # items \<Rightarrow> bindE first (\<lambda>_. apply_blocks items r')) (\<lambda>r''.
             Inr (r'', quorum_idx)))
     else Inr (r, quorum_idx))"

record raft_debug_state =
  ds_leader_id :: node_id
  ds_commit :: block_id
  ds_term :: term_id

definition write_state :: "input \<Rightarrow> ('db, leader) raft \<Rightarrow> raft_debug_state res" where
  "write_state I r =
     (if state_file_ok I then
        Inr \<lparr>ds_leader_id = rf_id r, ds_commit = get_commit (rf_chain r),
             ds_term = current_term (rf_state r)\<rparr>
      else Inl (Panic ''couldn't create state file''))"

text \<open>\<^verbatim>\<open>nth(1)\<close> and \<^verbatim>\<open>skip(1).take(n).collect()\<close> on a lazy iterator.\<close>

fun iter_nth1 :: "'a res list \<Rightarrow> 'a option res" where
  "iter_nth1 [] = Inr None"
| "iter_nth1 [x] = bindE x (\<lambda>_. Inr None)"
| "iter_nth1 (x # y # zs) = bindE x (\<lambda>_. bindE y (\<lambda>v. Inr (Some v)))"

definition iter_skip1_take :: "nat \<Rightarrow> 'a res list \<Rightarrow> 'a list res" where
  "iter_skip1_take n items = bindE (forceE (take (n + 1) items)) (\<lambda>vs. Inr (drop 1 vs))"

definition replicate_blocks :: "'db ext \<Rightarrow> 'db chain \<Rightarrow> node_progress \<Rightarrow> block list option res" where
  "replicate_blocks E c p =
     (if \<not> node_progress_is_active p then Inr None
      else case p of
        Probe pr \<Rightarrow>
          bindE (iter_nth1 (chain_range E c (incl (pr_head pr)) Unbounded)) (\<lambda>b.
          Inr (Some (case b of Some block \<Rightarrow> [block] | None \<Rightarrow> [])))
      | Replicate pr \<Rightarrow>
          bindE (iter_skip1_take MAX_INFLIGHT
            (chain_range E c (incl (pr_head pr)) Unbounded)) (\<lambda>bs. Inr (Some bs))
      | Snapshot pr \<Rightarrow> Inr None)"

definition replicate_node ::
  "'db ext \<Rightarrow> raft_node \<Rightarrow> ('db, leader) raft \<Rightarrow> ('db, leader) raft res" where
  "replicate_node E node r =
     (case rp_get (ld_progress (rf_role r)) (nd_id node) of
        None \<Rightarrow> Inr r
      | Some p \<Rightarrow>
          bindE (replicate_blocks E (rf_chain r) p) (\<lambda>bs.
          case bs of
            None \<Rightarrow> Inr r
          | Some blocks \<Rightarrow>
              raft_send r (Peer (nd_id node))
                (AppendEntries (current_term (rf_state r)) (rf_id r) blocks)))"

definition leader_replicate :: "'db ext \<Rightarrow> ('db, leader) raft \<Rightarrow> ('db, leader) raft res" where
  "leader_replicate E r = foldE (replicate_node E) (rc_nodes (rf_config r)) r"

section \<open>Commands\<close>

definition leader_apply_append_response ::
  "'db ext \<Rightarrow> ('db, leader) raft \<Rightarrow> node_id \<Rightarrow> block_id \<Rightarrow> 'db raft_handle res" where
  "leader_apply_append_response E r n h =
     bindE (rp_advance (ld_progress (rf_role r)) n h) (\<lambda>P.
     bindE (leader_commit E (r\<lparr>rf_role := (rf_role r)\<lparr>ld_progress := P\<rparr>\<rparr>)) (\<lambda>(r', _).
     Inr (Leader r')))"

text \<open>
  The source ends with \<^verbatim>\<open>self.apply(Command::AppendResponse { .. })\<close>, which is the call below
  (\<open>leader_client_request_applies\<close> states it with \<open>leader_apply\<close>).
\<close>

definition leader_client_append ::
  "'db ext \<Rightarrow> ('db, leader) raft \<Rightarrow> client_request \<Rightarrow> ('db, leader) raft res" where
  "leader_client_append E r req =
     bindE (chain_append E (rf_chain r) \<lparr>ub_data = proposal_get (cr_proposal req)\<rparr>)
       (\<lambda>(c, block_id).
     bindE (chan_send (fsm_tx r) (Notify (cr_id req) (cr_address req) block_id)) (\<lambda>ch.
     Inr (r\<lparr>rf_chain := c, fsm_tx := ch\<rparr>)))"

definition leader_apply_client_request ::
  "'db ext \<Rightarrow> ('db, leader) raft \<Rightarrow> client_request \<Rightarrow> 'db raft_handle res" where
  "leader_apply_client_request E r req =
     bindE (leader_client_append E r req) (\<lambda>r'.
     leader_apply_append_response E r' (rf_id r) (get_head (rf_chain r')))"

definition leader_apply_append_entries ::
  "('db, leader) raft \<Rightarrow> term_id \<Rightarrow> 'db raft_handle res" where
  "leader_apply_append_entries r t =
     (if t > current_term (rf_state r) then
        bindE (raft_term leader_term r t) (\<lambda>r'. Inr (Follower (follower_from_leader r')))
      else Inr (Leader r))"

definition leader_apply_heartbeat_response ::
  "'db ext \<Rightarrow> ('db, leader) raft \<Rightarrow> block_id \<Rightarrow> bool \<Rightarrow> 'db raft_handle res" where
  "leader_apply_heartbeat_response E r commit has_committed =
     (if \<not> has_committed \<and> commit > BlockId_new 0 then
        bindE (leader_replicate E r) (\<lambda>r'. Inr (Leader r'))
      else Inr (Leader r))"

definition leader_apply_tick ::
  "'db ext \<Rightarrow> input \<Rightarrow> ('db, leader) raft \<Rightarrow> 'db raft_handle res" where
  "leader_apply_tick E I r =
     bindE (write_state I r) (\<lambda>_.
     bindE (if needs_heartbeat I r
            then bindE (leader_heartbeat r) (\<lambda>r'. Inr (reset_heartbeat_timer I r'))
            else Inr r) (\<lambda>r'.
     bindE (leader_replicate E r') (\<lambda>r''.
     Inr (Leader r''))))"

fun leader_apply ::
  "'db ext \<Rightarrow> input \<Rightarrow> ('db, leader) raft \<Rightarrow> command \<Rightarrow> 'db raft_handle res" where
  "leader_apply E I r Tick = leader_apply_tick E I r"
| "leader_apply E I r (HeartbeatResponse commit has_committed) =
     leader_apply_heartbeat_response E r commit has_committed"
| "leader_apply E I r (AppendResponse n t h s) = leader_apply_append_response E r n h"
| "leader_apply E I r (AppendEntries t l bs) = leader_apply_append_entries r t"
| "leader_apply E I r (ClientRequest req) = leader_apply_client_request E r req"
| "leader_apply E I r cmd = Inr (Leader r)"

lemma leader_client_request_applies:
  "leader_apply_client_request E r req =
     bindE (leader_client_append E r req) (\<lambda>r'.
     leader_apply E I r' (AppendResponse (rf_id r) (current_term (rf_state r))
       (get_head (rf_chain r')) True))"
  by (simp add: leader_apply_client_request_def)

section \<open>Invariant\<close>

definition cluster_ids :: "('db, 'r) raft \<Rightarrow> node_id set" where
  "cluster_ids r = insert (rf_id r) (nd_id ` set (rc_nodes (rf_config r)))"

text \<open>The chain is well formed and the progress covers the nodes of the cluster.\<close>

definition leader_ok :: "'db ext \<Rightarrow> ('db, leader) raft \<Rightarrow> bool" where
  "leader_ok E r \<longleftrightarrow>
     chain_ok E (rf_chain r)
   \<and> rp_ok (ld_progress (rf_role r))
   \<and> dom (head_of (ld_progress (rf_role r))) = cluster_ids r
   \<and> (\<forall>n h. head_of (ld_progress (rf_role r)) n = Some h \<longrightarrow> id_ok h)"

text \<open>
  Every head the leader has been told of is a block of its own chain, with an identifier below the
  key of the commit entry (the first 2^62 identifiers are).
\<close>

definition heads_stored :: "'db ext \<Rightarrow> ('db, leader) raft \<Rightarrow> bool" where
  "heads_stored E r \<longleftrightarrow>
     (\<forall>n h. head_of (ld_progress (rf_role r)) n = Some h \<longrightarrow>
        chain_block E (rf_chain r) h \<noteq> None \<and> bid_bytes h < commit_key)"

section \<open>Committing\<close>

lemma leader_okD:
  assumes "leader_ok E r"
  shows "chain_ok E (rf_chain r)" and "rp_ok (ld_progress (rf_role r))"
    and "dom (head_of (ld_progress (rf_role r))) = cluster_ids r"
    and "head_of (ld_progress (rf_role r)) n = Some h \<Longrightarrow> id_ok h"
  using assms unfolding leader_ok_def by blast+

lemma committed_index_head:
  assumes "leader_ok E r" and "committed_index (ld_progress (rf_role r)) = Inr q"
  obtains n where "head_of (ld_progress (rf_role r)) n = Some q"
  using committed_index_counts(3) [OF leader_okD(2) [OF assms(1)] assms(2)] by blast

text \<open>The items between two stored blocks, without the first, are the blocks above the lower one.\<close>

lemma range_after:
  assumes "chain_ok E c" and "chain_block E c lo \<noteq> None"
    and "below hi (bid_bytes lo)" and "range_clear E c (incl lo) hi"
  obtains b bs where "chain_range E c (incl lo) hi = Inr b # map Inr bs" "blk_id b = lo"
    "sorted_wrt (<) (map blk_id bs)"
    "set bs = {b. \<exists>i. chain_block E c i = Some b \<and> lo < i \<and> below hi (bid_bytes i)}"
proof -
  obtain bs where bs: "chain_range E c (incl lo) hi = map Inr bs"
      "sorted_wrt (<) (map blk_id bs)"
      "\<forall>b. b \<in> set bs \<longleftrightarrow> chain_block E c (blk_id b) = Some b
        \<and> in_bounds (incl lo) hi (bid_bytes (blk_id b))"
    by (rule chain_range_blocks [OF assms(1,4)])
  obtain g where g: "chain_block E c lo = Some g" using assms(2) by blast
  have "blk_id g = lo" using chain_block_id(1) [OF assms(1) g] .
  then have "g \<in> set bs"
    using bs(3) g assms(3) by (simp add: in_bounds_def)
  then obtain b rest where cons: "bs = b # rest" by (cases bs) auto
  have least: "lo \<le> blk_id x" if "x \<in> set bs" for x
    using that bs(3) by (simp add: in_bounds_def less_eq_block_id_def)
  have b: "blk_id b = lo"
    using least [of b] \<open>g \<in> set bs\<close> \<open>blk_id g = lo\<close> bs(2) cons by fastforce
  have "x \<in> set rest \<longleftrightarrow> (\<exists>i. chain_block E c i = Some x \<and> lo < i \<and> below hi (bid_bytes i))" for x
  proof
    assume "x \<in> set rest"
    then show "\<exists>i. chain_block E c i = Some x \<and> lo < i \<and> below hi (bid_bytes i)"
      using bs(2) spec [OF bs(3), of x] cons b
      by (intro exI [of _ "blk_id x"]) (simp add: in_bounds_def)
  next
    assume "\<exists>i. chain_block E c i = Some x \<and> lo < i \<and> below hi (bid_bytes i)"
    then obtain i where i: "chain_block E c i = Some x" "lo < i" "below hi (bid_bytes i)" by blast
    have "blk_id x = i" using chain_block_id(1) [OF assms(1) i(1)] .
    with i have "x \<in> set bs"
      using bs(3) by (simp add: in_bounds_def less_block_id_def)
    with i(2) \<open>blk_id x = i\<close> b cons show "x \<in> set rest" by auto
  qed
  then have "set rest = {b. \<exists>i. chain_block E c i = Some b \<and> lo < i \<and> below hi (bid_bytes i)}"
    by blast
  with bs(1,2) cons b show ?thesis by (intro that [of b rest]) simp_all
qed

lemma leader_commit_advances:
  assumes "leader_ok E r" and "heads_stored E r" and "rx_alive (fsm_tx r)"
    and "committed_index (ld_progress (rf_role r)) = Inr q" and "get_commit (rf_chain r) < q"
  obtains c bs where
    "leader_commit E r = Inr (push_fsm (r\<lparr>rf_chain := c\<rparr>) (map Apply bs), q)"
    "chain_ok E c" "chain_block E c = chain_block E (rf_chain r)" "get_commit c = q"
    "get_head c = get_head (rf_chain r)" "ch_id_gen c = ch_id_gen (rf_chain r)"
    "sorted_wrt (<) (map blk_id bs)"
    "set bs = {b. \<exists>i. chain_block E (rf_chain r) i = Some b \<and> get_commit (rf_chain r) < i \<and> i \<le> q}"
proof -
  let ?c = "rf_chain r" and ?prev = "get_commit (rf_chain r)"
  note ok = leader_okD(1) [OF assms(1)]
  obtain n where n: "head_of (ld_progress (rf_role r)) n = Some q"
    by (rule committed_index_head [OF assms(1,4)])
  have q: "id_ok q" "chain_block E ?c q \<noteq> None" "bid_bytes q < commit_key"
    using leader_okD(4) [OF assms(1) n] assms(2) n by (auto simp: heads_stored_def)
  obtain c where c: "chain_commit E ?c q = Inr (c, q)" "chain_ok E c"
      "chain_block E c = chain_block E ?c" "ch_head c = ch_head ?c" "ch_commit c = q"
      "ch_id_gen c = ch_id_gen ?c"
    by (rule chain_commit_ok [OF ok q(1,2)])
  have "chain_block E c ?prev \<noteq> None"
    using chain_okD(3) [OF ok] c(3) by (simp add: get_commit_def)
  moreover have "below (incl q) (bid_bytes ?prev)"
    using assms(5) by (simp add: less_block_id_def)
  moreover have "range_clear E c (incl ?prev) (incl q)"
    using q(3) by (simp add: range_clear_def in_bounds_def not_le)
  ultimately obtain b bs where bs: "chain_range E c (incl ?prev) (incl q) = Inr b # map Inr bs"
      "sorted_wrt (<) (map blk_id bs)"
      "set bs = {b. \<exists>i. chain_block E c i = Some b \<and> ?prev < i \<and> below (incl q) (bid_bytes i)}"
    by (rule range_after [OF c(2)])
  show ?thesis
  proof (rule that)
    show "leader_commit E r = Inr (push_fsm (r\<lparr>rf_chain := c\<rparr>) (map Apply bs), q)"
      using assms(3,4,5) c(1) bs(1) by (simp add: leader_commit_def apply_blocks_Inr)
    show "set bs = {b. \<exists>i. chain_block E ?c i = Some b \<and> ?prev < i \<and> i \<le> q}"
      unfolding bs(3) c(3) by (simp add: less_eq_block_id_def)
  qed (simp_all add: c bs(2) get_commit_def get_head_def)
qed

lemma leader_commit_stays:
  assumes "committed_index (ld_progress (rf_role r)) = Inr q" and "\<not> get_commit (rf_chain r) < q"
  shows "leader_commit E r = Inr (r, q)"
  using assms by (simp add: leader_commit_def)


section \<open>What a leader does to the rest of its node\<close>

lemma leader_commit_cases:
  assumes "leader_commit E r = Inr (r', q)"
  obtains (stays) "r' = r"
    | (moves) c i bs where "committed_index (ld_progress (rf_role r)) = Inr q"
        "chain_commit E (rf_chain r) q = Inr (c, i)"
        "r' = push_fsm (r\<lparr>rf_chain := c\<rparr>) (map Apply bs)"
proof -
  have "r' = r \<or> (committed_index (ld_progress (rf_role r)) = Inr q
      \<and> (\<exists>c i. chain_commit E (rf_chain r) q = Inr (c, i)
        \<and> (r' = r\<lparr>rf_chain := c\<rparr> \<or> (\<exists>items. apply_blocks items (r\<lparr>rf_chain := c\<rparr>) = Inr r'))))"
    using assms
    by (auto simp: leader_commit_def Let_def bindE_Inr neq_Nil_conv split: if_splits list.splits)
  then consider "r' = r"
    | c i where "committed_index (ld_progress (rf_role r)) = Inr q"
        "chain_commit E (rf_chain r) q = Inr (c, i)" "r' = r\<lparr>rf_chain := c\<rparr>"
    | c i items where "committed_index (ld_progress (rf_role r)) = Inr q"
        "chain_commit E (rf_chain r) q = Inr (c, i)"
        "apply_blocks items (r\<lparr>rf_chain := c\<rparr>) = Inr r'"
    by blast
  then show ?thesis
  proof cases
    case 2
    then show ?thesis using moves [of c i "[]"] by simp
  next
    case 3
    from 3(3) show ?thesis
      by (rule apply_blocks_frame) (rule moves [OF 3(1,2)])
  qed (rule stays)
qed

lemma leader_commit_quiet:
  assumes "leader_commit E r = Inr (r', q)"
  shows "quiet r r'"
  by (rule leader_commit_cases [OF assms]) (auto simp: quiet_def)

lemma replicate_node_frame:
  assumes "replicate_node E node r = Inr r'"
  shows "quiet r r' \<and> rf_chain r' = rf_chain r \<and> rf_role r' = rf_role r"
  using assms
  by (auto simp: replicate_node_def bindE_Inr raft_send_Inr split: option.splits)

lemma leader_replicate_frame:
  assumes "leader_replicate E r = Inr r'"
  shows "quiet r r'" and "rf_chain r' = rf_chain r" and "rf_role r' = rf_role r"
proof -
  have "quiet r r' \<and> rf_chain r' = rf_chain r \<and> rf_role r' = rf_role r"
    using assms unfolding leader_replicate_def
    by (rule foldE_invariant) (auto dest: replicate_node_frame intro: quiet_trans)
  then show "quiet r r'" and "rf_chain r' = rf_chain r" and "rf_role r' = rf_role r" by simp_all
qed

lemma append_response_quiet:
  assumes "leader_apply_append_response E r n h = Inr s"
  shows "\<exists>r'. s = Leader r' \<and> quiet r r'"
proof -
  obtain P r' q where "leader_commit E (r\<lparr>rf_role := (rf_role r)\<lparr>ld_progress := P\<rparr>\<rparr>) = Inr (r', q)"
    and "s = Leader r'"
    using assms by (auto simp: leader_apply_append_response_def bindE_Inr)
  then show ?thesis
    using leader_commit_quiet [of E "r\<lparr>rf_role := (rf_role r)\<lparr>ld_progress := P\<rparr>\<rparr>" r' q]
    by (simp add: quiet_def)
qed

lemma client_append_quiet:
  assumes "leader_client_append E r req = Inr r'"
  shows "quiet r r'"
  using assms by (auto simp: leader_client_append_def bindE_Inr)

lemma leader_tick_quiet:
  assumes "leader_apply_tick E I r = Inr s"
  shows "\<exists>r'. s = Leader r' \<and> quiet r r'"
proof -
  obtain r1 r2 where r1: "r1 = r \<or> r1 = reset_heartbeat_timer I (push_rpc r Peers
      (Heartbeat (current_term (rf_state r)) (get_commit (rf_chain r)) (rf_id r)))"
    and r2: "leader_replicate E r1 = Inr r2" and s: "s = Leader r2"
    using assms
    by (auto simp: leader_apply_tick_def leader_heartbeat_def bindE_Inr raft_send_all_Inr
        split: if_splits)
  have "quiet r r1"
    using r1 by (auto simp: reset_heartbeat_timer_def quiet_def message_new_def)
  also have "quiet r1 r2" using r2 by (rule leader_replicate_frame(1))
  finally show ?thesis using s by simp
qed

text \<open>A leader stays leader as long as it does not fail, and grants no vote.\<close>

lemma leader_apply_quiet:
  assumes "leader_apply E I r cmd = Inr s"
  shows "\<exists>r'. s = Leader r' \<and> quiet r r'"
proof (cases cmd)
  case (ClientRequest req)
  with assms obtain r1 where "leader_client_append E r req = Inr r1"
      "leader_apply_append_response E r1 (rf_id r) (get_head (rf_chain r1)) = Inr s"
    by (auto simp: leader_apply_client_request_def bindE_Inr)
  then show ?thesis
    using append_response_quiet client_append_quiet by (blast intro: quiet_trans)
next
  case (HeartbeatResponse commit has)
  with assms show ?thesis
    by (auto simp: leader_apply_heartbeat_response_def bindE_Inr split: if_splits
        dest: leader_replicate_frame(1))
qed (use assms in \<open>auto simp: leader_apply_append_entries_def raft_term_leader
    dest: append_response_quiet leader_tick_quiet split: if_splits\<close>)


section \<open>The invariant is kept\<close>

lemma leader_ok_chain:
  assumes "leader_ok E r" and "chain_ok E (rf_chain r')"
    and "rf_id r' = rf_id r" and "rf_config r' = rf_config r"
    and "ld_progress (rf_role r') = ld_progress (rf_role r)"
  shows "leader_ok E r'"
  using assms by (simp add: leader_ok_def cluster_ids_def)

lemma leader_commit_inv:
  assumes "leader_ok E r" and "leader_commit E r = Inr (r', q)"
  shows "leader_ok E r'"
  using assms(2)
proof (cases rule: leader_commit_cases)
  case (moves c i bs)
  obtain n where "head_of (ld_progress (rf_role r)) n = Some q"
    by (rule committed_index_head [OF assms(1) moves(1)])
  then have "chain_ok E c"
    using chain_store.commit_law [OF leader_okD(1) [OF assms(1)] _ moves(2)]
      leader_okD(4) [OF assms(1)] by blast
  then show ?thesis
    using moves(3) by (intro leader_ok_chain [OF assms(1)]) simp_all
qed (simp add: assms(1))

lemma advance_leader_ok:
  assumes "leader_ok E r" and "id_ok h" and "rp_advance (ld_progress (rf_role r)) n h = Inr P"
  shows "leader_ok E (r\<lparr>rf_role := (rf_role r)\<lparr>ld_progress := P\<rparr>\<rparr>)"
proof -
  let ?P = "ld_progress (rf_role r)"
  obtain k where k: "head_of ?P n = Some k"
    using assms(3) rp_advance_unknown [of ?P n h] by (cases "head_of ?P n") auto
  obtain P' where P': "rp_advance ?P n h = Inr P'" "rp_ok P'"
      "head_of P' = (head_of ?P)(n \<mapsto> max k h)"
    by (rule rp_advance_ok [OF leader_okD(2) [OF assms(1)] k])
  have "P = P'" using assms(3) P'(1) by simp
  have "n \<in> cluster_ids r" using k leader_okD(3) [OF assms(1)] by auto
  then show ?thesis
    using leader_okD [OF assms(1)] P'(2,3) k assms(2) \<open>P = P'\<close>
    by (auto simp: leader_ok_def cluster_ids_def max_def split: if_splits)
qed

lemma append_response_inv:
  assumes "leader_ok E r" and "id_ok h" and "leader_apply_append_response E r n h = Inr (Leader r')"
  shows "leader_ok E r'"
proof -
  obtain P q where P: "rp_advance (ld_progress (rf_role r)) n h = Inr P"
    and c: "leader_commit E (r\<lparr>rf_role := (rf_role r)\<lparr>ld_progress := P\<rparr>\<rparr>) = Inr (r', q)"
    using assms(3) by (auto simp: leader_apply_append_response_def bindE_Inr)
  from advance_leader_ok [OF assms(1,2) P] c show ?thesis by (rule leader_commit_inv)
qed

lemma client_append_inv:
  assumes "leader_ok E r" and "leader_client_append E r req = Inr r'"
  shows "leader_ok E r'" and "id_ok (get_head (rf_chain r'))"
proof -
  obtain c i where c: "chain_append E (rf_chain r) \<lparr>ub_data = proposal_get (cr_proposal req)\<rparr> = Inr (c, i)"
    and r': "rf_chain r' = c" "rf_id r' = rf_id r" "rf_config r' = rf_config r"
      "rf_role r' = rf_role r"
    using assms(2) by (auto simp: leader_client_append_def bindE_Inr)
  note law = chain_store.append_law [OF leader_okD(1) [OF assms(1)] c]
  show "leader_ok E r'" using law r' by (intro leader_ok_chain [OF assms(1)]) simp_all
  show "id_ok (get_head (rf_chain r'))" using law r' by simp
qed


lemma leader_apply_inv:
  assumes "leader_ok E r" and "cmd_ok cmd" and "leader_apply E I r cmd = Inr (Leader r')"
  shows "leader_ok E r'"
proof -
  have rep: "leader_ok E s'" if "leader_replicate E s = Inr s'" "leader_ok E s" for s s'
    using leader_replicate_frame [OF that(1)] leader_okD(1) [OF that(2)]
    by (intro leader_ok_chain [OF that(2)]) (simp_all add: quiet_def)
  show ?thesis
  proof (cases cmd)
    case Tick
    then obtain s where "s = r \<or> s = reset_heartbeat_timer I (push_rpc r Peers
        (Heartbeat (current_term (rf_state r)) (get_commit (rf_chain r)) (rf_id r)))"
      and "leader_replicate E s = Inr r'"
      using assms(3) by (auto simp: leader_apply_tick_def leader_heartbeat_def bindE_Inr
          raft_send_all_Inr split: if_splits)
    moreover from this(1) have "leader_ok E s"
      using assms(1) leader_okD(1) [OF assms(1)]
      by (auto simp: reset_heartbeat_timer_def intro!: leader_ok_chain [OF assms(1)])
    ultimately show ?thesis by (blast intro: rep)
  next
    case (ClientRequest req)
    then obtain r1 where "leader_client_append E r req = Inr r1"
        "leader_apply_append_response E r1 (rf_id r) (get_head (rf_chain r1)) = Inr (Leader r')"
      using assms(3) by (auto simp: leader_apply_client_request_def bindE_Inr)
    then show ?thesis
      using client_append_inv [OF assms(1)] append_response_inv by blast
  next
    case (HeartbeatResponse commit has)
    then show ?thesis
      using assms(1,3) by (auto simp: leader_apply_heartbeat_response_def bindE_Inr
          split: if_splits intro: rep)
  qed (use assms in \<open>auto simp: leader_apply_append_entries_def raft_term_leader
      intro: append_response_inv split: if_splits\<close>)
qed

section \<open>Replication\<close>

text \<open>How many blocks a node is sent at most.\<close>

fun window :: "node_progress \<Rightarrow> nat" where
  "window (Probe p) = 1"
| "window (Replicate p) = MAX_INFLIGHT"
| "window (Snapshot p) = 0"

text \<open>The items of the range after the first one, up to the window.\<close>

lemma replicate_blocks_eq:
  assumes "node_progress_is_active p" and "\<not> is_snapshot p"
    and "chain_range E c (incl (node_progress_head p)) Unbounded = Inr b # items"
  shows "replicate_blocks E c p =
    bindE (forceE (take (window p) items)) (\<lambda>bs. Inr (Some bs))"
  using assms
  by (cases p; cases items)
    (auto simp: replicate_blocks_def iter_skip1_take_def bindE_assoc bindE_def split: sum.splits)

lemma range_item_fails:
  assumes "chain_ok E c" and "Inl e \<in> set (chain_range E c lo hi)"
  shows "e = Panic ''couldn't deserialize''"
  using assms(2) sled_okD(2) [OF ext_okD(1) [OF chain_okD(1) [OF assms(1)]]]
  by (auto simp: chain_range_def range_item_def expectE_def split: option.splits)

lemma iter_nth1_fails: "iter_nth1 items = Inl e \<Longrightarrow> Inl e \<in> set items"
  by (induction items rule: iter_nth1.induct) (auto simp: bindE_Inl)

lemma replicate_blocks_fails:
  assumes "chain_ok E c" and "replicate_blocks E c p = Inl e"
  shows "e = Panic ''couldn't deserialize''"
  using assms(2)
  by (auto simp: replicate_blocks_def iter_skip1_take_def bindE_Inl split: if_splits node_progress.splits
      intro!: range_item_fails [OF assms(1)] dest!: iter_nth1_fails forceE_Inl_mem in_set_takeD)


lemma range_after_length:
  assumes "chain_ok E c" and "range_clear E c (excl lo) hi" and "sorted_wrt (<) (map blk_id bs)"
    and "set bs = {b. \<exists>i. chain_block E c i = Some b \<and> lo < i \<and> below hi (bid_bytes i)}"
  shows "length (chain_range E c (excl lo) hi) = length bs"
proof -
  obtain bs' where bs': "chain_range E c (excl lo) hi = map Inr bs'"
      "sorted_wrt (<) (map blk_id bs')"
      "\<forall>b. b \<in> set bs' \<longleftrightarrow> chain_block E c (blk_id b) = Some b
        \<and> in_bounds (excl lo) hi (bid_bytes (blk_id b))"
    by (rule chain_range_blocks [OF assms(1,2)])
  have "set bs' = set bs"
    using bs'(3) chain_block_id(1) [OF assms(1)]
    by (auto simp: assms(4) in_bounds_def less_block_id_def)
  then have "map blk_id bs' = map blk_id bs"
    using bs'(2) assms(3) by (intro strict_sorted_equal) simp_all
  then have "length (map blk_id bs') = length (map blk_id bs)" by (rule arg_cong)
  then show ?thesis by (simp add: bs'(1))
qed

lemma replicate_blocks_clear:
  assumes "chain_ok E c" and "db_lookup (sled E) (ch_db c) commit_key = None"
    and "node_progress_is_active p" and "\<not> is_snapshot p"
    and "chain_block E c (node_progress_head p) \<noteq> None"
  obtains bs where "replicate_blocks E c p = Inr (Some (take (window p) bs))"
    "sorted_wrt (<) (map blk_id bs)"
    "set bs = {b. \<exists>i. chain_block E c i = Some b \<and> node_progress_head p < i}"
proof -
  have clear: "range_clear E c (incl (node_progress_head p)) Unbounded"
    using assms(2) by (simp add: range_clear_def)
  have "below Unbounded (bid_bytes (node_progress_head p))" by simp
  then obtain b bs where bs:
      "chain_range E c (incl (node_progress_head p)) Unbounded = Inr b # map Inr bs"
      "sorted_wrt (<) (map blk_id bs)"
      "set bs = {b. \<exists>i. chain_block E c i = Some b \<and> node_progress_head p < i
        \<and> below Unbounded (bid_bytes i)}"
    by (rule range_after [OF assms(1,5) _ clear])
  then show ?thesis
    using replicate_blocks_eq [OF assms(3,4) bs(1)] by (intro that [of bs]) (simp_all add: take_map)
qed

lemma replicate_blocks_panics:
  assumes "chain_ok E c" and "db_lookup (sled E) (ch_db c) commit_key \<noteq> None"
    and "node_progress_is_active p" and "\<not> is_snapshot p"
    and "chain_block E c (node_progress_head p) \<noteq> None"
    and "bid_bytes (node_progress_head p) < commit_key"
    and "length (chain_range E c (excl (node_progress_head p)) (Excluded commit_key)) < window p"
  shows "replicate_blocks E c p = Inl (Panic ''couldn't deserialize'')"
proof -
  let ?h = "node_progress_head p"
  have clear: "range_clear E c lo (Excluded commit_key)" for lo
    by (simp add: range_clear_def in_bounds_def)
  have "below (Excluded commit_key) (bid_bytes ?h)" using assms(6) by simp
  then obtain b bs where bs:
      "chain_range E c (incl ?h) (Excluded commit_key) = Inr b # map Inr bs"
      "sorted_wrt (<) (map blk_id bs)"
      "set bs = {b. \<exists>i. chain_block E c i = Some b \<and> ?h < i
        \<and> below (Excluded commit_key) (bid_bytes i)}"
    by (rule range_after [OF assms(1,5) _ clear])
  have short: "length bs < window p"
    using range_after_length [OF assms(1) clear bs(2,3)] assms(7) by simp
  have "in_bounds (incl ?h) Unbounded commit_key"
    using assms(6) by (simp add: in_bounds_def)
  then obtain rest where "chain_range E c (incl ?h) Unbounded =
      Inr b # map Inr bs @ Inl (Panic ''couldn't deserialize'') # rest"
    using chain_range_hits_commit [OF assms(1) _ assms(2)] bs(1) by (metis append_Cons)
  from replicate_blocks_eq [OF assms(3,4) this] show ?thesis
    using short by (simp add: take_Cons' forceE_prefix)
qed

section \<open>Acknowledged blocks\<close>

text \<open>Noting that a node of the cluster has reached a stored block keeps both invariants.\<close>

lemma acknowledge_ok:
  assumes "leader_ok E r" and "heads_stored E r" and "n \<in> cluster_ids r"
    and "chain_block E (rf_chain r) h \<noteq> None" and "bid_bytes h < commit_key"
  obtains P where "rp_advance (ld_progress (rf_role r)) n h = Inr P"
    "head_of P = (head_of (ld_progress (rf_role r)))(n \<mapsto>
       max (the (head_of (ld_progress (rf_role r)) n)) h)"
    "leader_ok E (r\<lparr>rf_role := (rf_role r)\<lparr>ld_progress := P\<rparr>\<rparr>)"
    "heads_stored E (r\<lparr>rf_role := (rf_role r)\<lparr>ld_progress := P\<rparr>\<rparr>)"
proof -
  let ?P = "ld_progress (rf_role r)"
  obtain k where k: "head_of ?P n = Some k"
    using assms(3) leader_okD(3) [OF assms(1)] by blast
  obtain P where P: "rp_advance ?P n h = Inr P" "rp_ok P" "head_of P = (head_of ?P)(n \<mapsto> max k h)"
    by (rule rp_advance_ok [OF leader_okD(2) [OF assms(1)] k])
  obtain b where "chain_block E (rf_chain r) h = Some b" using assms(4) by blast
  then have "id_ok h" by (rule chain_block_id(2) [OF leader_okD(1) [OF assms(1)]])
  show ?thesis
  proof (rule that [OF P(1)])
    show "head_of P = (head_of ?P)(n \<mapsto> max (the (head_of ?P n)) h)" by (simp add: P(3) k)
    show "leader_ok E (r\<lparr>rf_role := (rf_role r)\<lparr>ld_progress := P\<rparr>\<rparr>)"
      using leader_okD [OF assms(1)] P(2,3) k \<open>id_ok h\<close> assms(3)
      by (auto simp: leader_ok_def cluster_ids_def max_def split: if_splits)
    show "heads_stored E (r\<lparr>rf_role := (rf_role r)\<lparr>ld_progress := P\<rparr>\<rparr>)"
      using assms(2,4,5) P(3) k by (auto simp: heads_stored_def max_def split: if_splits)
  qed
qed

lemma append_response_ok:
  assumes "leader_ok E r" and "heads_stored E r" and "n \<in> cluster_ids r"
    and "chain_block E (rf_chain r) h \<noteq> None" and "bid_bytes h < commit_key"
    and "rx_alive (fsm_tx r)"
  obtains r' q bs where "leader_apply_append_response E r n h = Inr (Leader r')"
    "leader_ok E r'" "heads_stored E r'"
    "head_of (ld_progress (rf_role r')) = (head_of (ld_progress (rf_role r)))(n \<mapsto>
       max (the (head_of (ld_progress (rf_role r)) n)) h)"
    "chain_block E (rf_chain r') = chain_block E (rf_chain r)"
    "get_head (rf_chain r') = get_head (rf_chain r)"
    "committed_index (ld_progress (rf_role r')) = Inr q"
    "get_commit (rf_chain r') = max (get_commit (rf_chain r)) q"
    "sent (fsm_tx r') = sent (fsm_tx r) @ map Apply bs" "sorted_wrt (<) (map blk_id bs)"
    "set bs = {b. \<exists>i. chain_block E (rf_chain r) i = Some b
       \<and> get_commit (rf_chain r) < i \<and> i \<le> get_commit (rf_chain r')}"
proof -
  obtain P where P: "rp_advance (ld_progress (rf_role r)) n h = Inr P"
    "head_of P = (head_of (ld_progress (rf_role r)))(n \<mapsto>
       max (the (head_of (ld_progress (rf_role r)) n)) h)"
    and ok: "leader_ok E (r\<lparr>rf_role := (rf_role r)\<lparr>ld_progress := P\<rparr>\<rparr>)"
      "heads_stored E (r\<lparr>rf_role := (rf_role r)\<lparr>ld_progress := P\<rparr>\<rparr>)"
    by (rule acknowledge_ok [OF assms(1-5)]) blast
  let ?r = "r\<lparr>rf_role := (rf_role r)\<lparr>ld_progress := P\<rparr>\<rparr>"
  obtain q where q: "committed_index (ld_progress (rf_role ?r)) = Inr q"
    using committed_index_ok [OF leader_okD(2) [OF ok(1)]] by blast
  have alive: "rx_alive (fsm_tx ?r)" using assms(6) by simp
  show ?thesis
  proof (cases "get_commit (rf_chain ?r) < q")
    case True
    obtain c bs where c:
      "leader_commit E ?r = Inr (push_fsm (?r\<lparr>rf_chain := c\<rparr>) (map Apply bs), q)"
      "chain_ok E c" "chain_block E c = chain_block E (rf_chain ?r)" "get_commit c = q"
      "get_head c = get_head (rf_chain ?r)" "sorted_wrt (<) (map blk_id bs)"
      "set bs = {b. \<exists>i. chain_block E (rf_chain ?r) i = Some b \<and> get_commit (rf_chain ?r) < i \<and> i \<le> q}"
      by (rule leader_commit_advances [OF ok alive q True])
    let ?r' = "push_fsm (?r\<lparr>rf_chain := c\<rparr>) (map Apply bs)"
    show ?thesis
    proof (rule that [of ?r' q bs])
      show "leader_apply_append_response E r n h = Inr (Leader ?r')"
        using P(1) c(1) by (simp add: leader_apply_append_response_def)
      show "leader_ok E ?r'" using c(2) by (intro leader_ok_chain [OF ok(1)]) simp_all
      show "heads_stored E ?r'" using ok(2) c(3) by (simp add: heads_stored_def)
    qed (use True P(2) c q in \<open>simp_all add: max_def less_imp_le\<close>)
  next
    case False
    then have "leader_apply_append_response E r n h = Inr (Leader ?r)"
      using P(1) leader_commit_stays [OF q] by (simp add: leader_apply_append_response_def)
    with False P(2) ok q show ?thesis
      by (intro that [of ?r q "[]"]) (auto simp: max_def)
  qed
qed

lemma client_append_ok:
  assumes "leader_ok E r" and "heads_stored E r" and "rx_alive (fsm_tx r)"
    and "get_head (rf_chain r) < i" and "i = BlockId_new (ch_id_gen (rf_chain r))"
  obtains r' where "leader_client_append E r req = Inr r'" "leader_ok E r'" "heads_stored E r'"
    "rf_role r' = rf_role r" "rf_id r' = rf_id r" "rf_config r' = rf_config r"
    "get_head (rf_chain r') = i" "get_commit (rf_chain r') = get_commit (rf_chain r)"
    "chain_block E (rf_chain r') = (chain_block E (rf_chain r))(i \<mapsto>
       \<lparr>blk_id = i, blk_next = get_head (rf_chain r), blk_data = proposal_get (cr_proposal req)\<rparr>)"
    "sent (fsm_tx r') = sent (fsm_tx r) @ [Notify (cr_id req) (cr_address req) i]"
    "rx_alive (fsm_tx r')"
proof -
  let ?u = "\<lparr>ub_data = proposal_get (cr_proposal req)\<rparr>"
  have "ch_head (rf_chain r) < BlockId_new (ch_id_gen (rf_chain r))"
    using assms(4,5) by (simp add: get_head_def)
  then obtain c where "chain_append E (rf_chain r) ?u = Inr (c, BlockId_new (ch_id_gen (rf_chain r)))"
    by (rule chain_append_ok [OF leader_okD(1) [OF assms(1)], where u = ?u])
  then have c: "chain_append E (rf_chain r) ?u = Inr (c, i)" by (simp add: assms(5))
  note law = chain_store.append_law [OF leader_okD(1) [OF assms(1)] c]
  let ?r = "r\<lparr>rf_chain := c, fsm_tx := (fsm_tx r)\<lparr>sent := sent (fsm_tx r)
    @ [Notify (cr_id req) (cr_address req) i]\<rparr>\<rparr>"
  show ?thesis
  proof (rule that [of ?r])
    show "leader_client_append E r req = Inr ?r"
      using c assms(3) by (simp add: leader_client_append_def chan_send_def)
    show "leader_ok E ?r" using law by (intro leader_ok_chain [OF assms(1)]) simp_all
    show "heads_stored E ?r" using law assms(2) by (simp add: heads_stored_def)
  qed (use law assms(3) in simp_all)
qed

lemma client_request_ok:
  assumes "leader_ok E r" and "heads_stored E r" and "rx_alive (fsm_tx r)"
    and "get_head (rf_chain r) < i" and "i = BlockId_new (ch_id_gen (rf_chain r))"
    and "bid_bytes i < commit_key"
  obtains r' q bs where "leader_apply E I r (ClientRequest req) = Inr (Leader r')"
    "leader_ok E r'" "heads_stored E r'"
    "chain_block E (rf_chain r') = (chain_block E (rf_chain r))(i \<mapsto>
        \<lparr>blk_id = i, blk_next = get_head (rf_chain r), blk_data = proposal_get (cr_proposal req)\<rparr>)"
    "get_head (rf_chain r') = i"
    "head_of (ld_progress (rf_role r')) = (head_of (ld_progress (rf_role r)))(rf_id r \<mapsto>
       max (the (head_of (ld_progress (rf_role r)) (rf_id r))) i)"
    "committed_index (ld_progress (rf_role r')) = Inr q"
    "get_commit (rf_chain r') = max (get_commit (rf_chain r)) q"
    "sent (fsm_tx r') = sent (fsm_tx r) @ Notify (cr_id req) (cr_address req) i # map Apply bs"
    "sorted_wrt (<) (map blk_id bs)"
    "set bs = {b. \<exists>j. chain_block E (rf_chain r') j = Some b
        \<and> get_commit (rf_chain r) < j \<and> j \<le> get_commit (rf_chain r')}"
proof -
  obtain r1 where r1: "leader_client_append E r req = Inr r1" "leader_ok E r1" "heads_stored E r1"
    "rf_role r1 = rf_role r" "rf_id r1 = rf_id r" "rf_config r1 = rf_config r"
    "get_head (rf_chain r1) = i" "get_commit (rf_chain r1) = get_commit (rf_chain r)"
    "chain_block E (rf_chain r1) = (chain_block E (rf_chain r))(i \<mapsto>
       \<lparr>blk_id = i, blk_next = get_head (rf_chain r), blk_data = proposal_get (cr_proposal req)\<rparr>)"
    "sent (fsm_tx r1) = sent (fsm_tx r) @ [Notify (cr_id req) (cr_address req) i]"
    "rx_alive (fsm_tx r1)"
    by (rule client_append_ok [OF assms(1-5)])
  have "rf_id r \<in> cluster_ids r1" and "chain_block E (rf_chain r1) i \<noteq> None"
    using r1(5,9) by (simp_all add: cluster_ids_def)
  then obtain r' q bs where "leader_apply_append_response E r1 (rf_id r) i = Inr (Leader r')"
    "leader_ok E r'" "heads_stored E r'"
    "head_of (ld_progress (rf_role r')) = (head_of (ld_progress (rf_role r1)))(rf_id r \<mapsto>
       max (the (head_of (ld_progress (rf_role r1)) (rf_id r))) i)"
    "chain_block E (rf_chain r') = chain_block E (rf_chain r1)"
    "get_head (rf_chain r') = get_head (rf_chain r1)"
    "committed_index (ld_progress (rf_role r')) = Inr q"
    "get_commit (rf_chain r') = max (get_commit (rf_chain r1)) q"
    "sent (fsm_tx r') = sent (fsm_tx r1) @ map Apply bs" "sorted_wrt (<) (map blk_id bs)"
    "set bs = {b. \<exists>i. chain_block E (rf_chain r1) i = Some b
       \<and> get_commit (rf_chain r1) < i \<and> i \<le> get_commit (rf_chain r')}"
    by (rule append_response_ok [OF r1(2,3) _ _ assms(6) r1(11)])
  with r1 show ?thesis
    by (intro that [of r' q bs]) (simp_all add: leader_apply_client_request_def del: fun_upd_apply)
qed

section \<open>A concrete leader\<close>

text \<open>A leader of three nodes; it and node 2 have reached block 1, node 3 is still at the genesis.\<close>

definition demo_progress :: replication_progress where
  "demo_progress =
     [(1, Replicate (replicate_from_probe ((progress_new 1)\<lparr>pr_head := BlockId_new 1\<rparr>))),
      (2, Replicate (replicate_from_probe ((progress_new 2)\<lparr>pr_head := BlockId_new 1\<rparr>))),
      (3, Probe (progress_new 3))]"

definition demo_leader :: "tree chain \<Rightarrow> (tree, leader) raft" where
  "demo_leader c = demo_raft 1 [2, 3]
     \<lparr>ld_progress = demo_progress, ld_heartbeat_time = 0, ld_heartbeat_timeout = from_millis 100\<rparr> c"

lemma demo_leader_simps [simp]:
  "rf_id (demo_leader c) = 1" "rf_config (demo_leader c) = demo_config 1 [2, 3]"
  "rf_state (demo_leader c) = state_default" "rf_chain (demo_leader c) = c"
  "ld_progress (rf_role (demo_leader c)) = demo_progress"
  "rx_alive (rpc_tx (demo_leader c))" "rx_alive (fsm_tx (demo_leader c))"
  "sent (rpc_tx (demo_leader c)) = []" "sent (fsm_tx (demo_leader c)) = []"
  by (simp_all add: demo_leader_def)

lemma demo_progress_heads:
  "head_of demo_progress n =
     (if n = 1 \<or> n = 2 then Some (BlockId_new 1) else if n = 3 then Some genesis else None)"
  by (simp add: demo_progress_def head_of_def replicate_from_probe_def genesis_def)

lemma demo_progress_committed: "committed_index demo_progress = Inr (BlockId_new 1)"
  by code_simp

lemma small_ids: "bid_bytes (BlockId_new 1) < commit_key" "bid_bytes genesis < commit_key"
  by code_simp+

lemma demo_leader_ok:
  assumes "chain_ok tree_ext c"
    and "chain_block tree_ext c = [genesis \<mapsto> genesis_block, BlockId_new 1 \<mapsto> one_block]"
  shows "leader_ok tree_ext (demo_leader c)" and "heads_stored tree_ext (demo_leader c)"
proof -
  have "dom (head_of demo_progress) = {1, 2, 3}"
    by (auto simp: dom_def demo_progress_heads split: if_splits)
  moreover have "id_ok k" if "head_of demo_progress n = Some k" for n k
    using that by (auto simp: demo_progress_heads genesis_def split: if_splits)
  moreover have "rp_ok demo_progress" by (simp add: demo_progress_def rp_ok_def)
  moreover have "cluster_ids (demo_leader c) = {1, 2, 3}" by (simp add: cluster_ids_def)
  ultimately show "leader_ok tree_ext (demo_leader c)"
    using assms(1) by (auto simp: leader_ok_def)
  show "heads_stored tree_ext (demo_leader c)"
    using small_ids by (simp add: heads_stored_def demo_progress_heads assms(2) split: if_splits)
qed

section \<open>Properties of the leader\<close>

text \<open>
  (C15) Committing.  When a majority has reached a block above the commit, that block becomes the
  commit and exactly the stored blocks above the old commit, up to and including the new one, are
  handed to the state machine, in ascending order; otherwise nothing changes.  The commit never
  goes back.
\<close>

theorem leader_commit_applies:
  assumes "leader_ok E r" and "heads_stored E r" and "rx_alive (fsm_tx r)"
  shows "\<exists>q r'. committed_index (ld_progress (rf_role r)) = Inr q \<and> leader_commit E r = Inr (r', q)
    \<and> (if get_commit (rf_chain r) < q
       then \<exists>bs. get_commit (rf_chain r') = q
          \<and> sent (fsm_tx r') = sent (fsm_tx r) @ map Apply bs
          \<and> sorted_wrt (<) (map blk_id bs)
          \<and> set bs = {b. \<exists>i. chain_block E (rf_chain r) i = Some b
                \<and> get_commit (rf_chain r) < i \<and> i \<le> q}
       else r' = r)"
proof -
  obtain q where q: "committed_index (ld_progress (rf_role r)) = Inr q"
    using committed_index_ok [OF leader_okD(2) [OF assms(1)]] by blast
  show ?thesis
  proof (cases "get_commit (rf_chain r) < q")
    case True
    obtain c bs where "leader_commit E r = Inr (push_fsm (r\<lparr>rf_chain := c\<rparr>) (map Apply bs), q)"
      "get_commit c = q" "sorted_wrt (<) (map blk_id bs)"
      "set bs = {b. \<exists>i. chain_block E (rf_chain r) i = Some b \<and> get_commit (rf_chain r) < i \<and> i \<le> q}"
      by (rule leader_commit_advances [OF assms q True])
    with q True show ?thesis
      by (intro exI [of _ q] exI [of _ "push_fsm (r\<lparr>rf_chain := c\<rparr>) (map Apply bs)"]) auto
  next
    case False
    with leader_commit_stays [OF q False] q show ?thesis by auto
  qed
qed

theorem leader_commit_applies_witness:
  "\<exists>r'. leader_commit tree_ext (demo_leader one_chain) = Inr (r', BlockId_new 1)
    \<and> get_commit (rf_chain r') = BlockId_new 1 \<and> sent (fsm_tx r') = [Apply one_block]"
proof -
  let ?r = "demo_leader one_chain"
  have commit: "get_commit one_chain = genesis" by (simp add: get_commit_def one_chain_facts)
  have genesis_less: "genesis < BlockId_new 1" by (simp add: genesis_def)
  have one: "{b. \<exists>i. chain_block tree_ext one_chain i = Some b \<and> genesis < i \<and> i \<le> BlockId_new 1}
      = {one_block}"
    by (auto simp: one_chain_facts genesis_def split: if_splits intro!: exI [of _ "BlockId_new 1"])
  obtain r' bs where r': "leader_commit tree_ext ?r = Inr (r', BlockId_new 1)"
    "get_commit (rf_chain r') = BlockId_new 1" "sent (fsm_tx r') = map Apply bs"
    "sorted_wrt (<) (map blk_id bs)" "set bs = {one_block}"
    using leader_commit_applies [OF demo_leader_ok [OF one_chain_facts(2,3)]] one
    by (auto simp: commit demo_progress_committed genesis_less)
  then have "bs = [one_block]" by (intro sorted_singleton)
  with r' show ?thesis by auto
qed

text \<open>
  (C14) A client request at the leader appends a block with the proposed data on top of the leader's
  head, registers the client for that block, counts it as reached by the leader itself, and then
  commits what a majority has reached: the blocks handed to the state machine are exactly those above
  the old commit up to the new one, after the registration.
\<close>

theorem client_request_appends:
  assumes "leader_ok E r" and "heads_stored E r" and "rx_alive (fsm_tx r)"
    and "get_head (rf_chain r) < i" and "i = BlockId_new (ch_id_gen (rf_chain r))"
    and "bid_bytes i < commit_key"
  shows "\<exists>r' q bs. leader_apply E I r (ClientRequest req) = Inr (Leader r')
    \<and> leader_ok E r' \<and> heads_stored E r'
    \<and> chain_block E (rf_chain r') = (chain_block E (rf_chain r))(i \<mapsto>
        \<lparr>blk_id = i, blk_next = get_head (rf_chain r), blk_data = proposal_get (cr_proposal req)\<rparr>)
    \<and> get_head (rf_chain r') = i \<and> rf_id r \<in> reached (ld_progress (rf_role r')) i
    \<and> committed_index (ld_progress (rf_role r')) = Inr q
    \<and> get_commit (rf_chain r') = max (get_commit (rf_chain r)) q
    \<and> sent (fsm_tx r') = sent (fsm_tx r) @ Notify (cr_id req) (cr_address req) i # map Apply bs
    \<and> sorted_wrt (<) (map blk_id bs)
    \<and> set bs = {b. \<exists>j. chain_block E (rf_chain r') j = Some b
        \<and> get_commit (rf_chain r) < j \<and> j \<le> get_commit (rf_chain r')}"
proof (rule client_request_ok [OF assms, of I req])
  fix r' q bs
  assume step: "leader_apply E I r (ClientRequest req) = Inr (Leader r')"
    and "head_of (ld_progress (rf_role r')) = (head_of (ld_progress (rf_role r)))(rf_id r \<mapsto>
      max (the (head_of (ld_progress (rf_role r)) (rf_id r))) i)"
  from this(2) have "rf_id r \<in> reached (ld_progress (rf_role r')) i" by (simp add: reached_def)
  moreover assume "leader_ok E r'" "heads_stored E r'"
    "chain_block E (rf_chain r') = (chain_block E (rf_chain r))(i \<mapsto>
        \<lparr>blk_id = i, blk_next = get_head (rf_chain r), blk_data = proposal_get (cr_proposal req)\<rparr>)"
    "get_head (rf_chain r') = i" "committed_index (ld_progress (rf_role r')) = Inr q"
    "get_commit (rf_chain r') = max (get_commit (rf_chain r)) q"
    "sent (fsm_tx r') = sent (fsm_tx r) @ Notify (cr_id req) (cr_address req) i # map Apply bs"
    "sorted_wrt (<) (map blk_id bs)"
    "set bs = {b. \<exists>j. chain_block E (rf_chain r') j = Some b
        \<and> get_commit (rf_chain r) < j \<and> j \<le> get_commit (rf_chain r')}"
  moreover note step
  ultimately show ?thesis by (intro exI conjI)
qed

theorem client_request_appends_witness:
  "\<exists>r'. leader_apply tree_ext (demo_input 7) (demo_leader one_chain)
      (ClientRequest \<lparr>cr_id = 9, cr_address = Client, cr_proposal = Proposal [3]\<rparr>) = Inr (Leader r')
    \<and> get_head (rf_chain r') = BlockId_new 2"
proof -
  let ?r = "demo_leader one_chain"
  have lt: "get_head (rf_chain ?r) < BlockId_new 2"
    by (simp add: get_head_def one_chain_facts)
  have i: "BlockId_new 2 = BlockId_new (ch_id_gen (rf_chain ?r))"
    by (simp add: one_chain_facts)
  have small: "bid_bytes (BlockId_new 2) < commit_key"
    by code_simp
  show ?thesis
    using client_request_appends [OF demo_leader_ok [OF one_chain_facts(2,3)]
        demo_leader_simps(7) lt i small, of "demo_input 7"
        "\<lparr>cr_id = 9, cr_address = Client, cr_proposal = Proposal [3]\<rparr>"]
    by (elim exE conjE) (intro exI conjI)
qed

text \<open>
  Replication before the first commit.  A node whose probing or replicating progress is active
  is sent one message with the next blocks of the leader's chain above the head it has acknowledged:
  the stored blocks above that head in ascending order, one for a probe and at most five otherwise.
\<close>

lemma replicate_sends_next_blocks:
  assumes "chain_ok E (rf_chain r)"
    and "db_lookup (sled E) (ch_db (rf_chain r)) commit_key = None"
    and "rp_get (ld_progress (rf_role r)) (nd_id node) = Some p"
    and "node_progress_is_active p" and "\<not> is_snapshot p"
    and "chain_block E (rf_chain r) (node_progress_head p) \<noteq> None" and "rx_alive (rpc_tx r)"
  shows "\<exists>bs. replicate_node E node r = Inr (push_rpc r (Peer (nd_id node))
        (AppendEntries (current_term (rf_state r)) (rf_id r) (take (window p) bs)))
    \<and> sorted_wrt (<) (map blk_id bs)
    \<and> set bs = {b. \<exists>i. chain_block E (rf_chain r) i = Some b \<and> node_progress_head p < i}"
proof -
  obtain bs where "replicate_blocks E (rf_chain r) p = Inr (Some (take (window p) bs))"
    "sorted_wrt (<) (map blk_id bs)"
    "set bs = {b. \<exists>i. chain_block E (rf_chain r) i = Some b \<and> node_progress_head p < i}"
    by (rule replicate_blocks_clear [OF assms(1,2,4-6)])
  then show ?thesis
    using assms(3,7) by (auto simp: replicate_node_def raft_send_eq)
qed

text \<open>
  (C26) Replication after the first commit.  The open-ended range the leader reads for a node comes
  across the commit entry, which is not a block: as soon as one active node is so close to the
  leader's head that fewer blocks than its window follow the head it has acknowledged, the next
  tick of the leader panics.
\<close>

theorem tick_panics_near_head:
  assumes "chain_ok E (rf_chain r)"
    and "db_lookup (sled E) (ch_db (rf_chain r)) commit_key \<noteq> None"
    and "node \<in> set (rc_nodes (rf_config r))"
    and "rp_get (ld_progress (rf_role r)) (nd_id node) = Some p"
    and "node_progress_is_active p" and "\<not> is_snapshot p"
    and "chain_block E (rf_chain r) (node_progress_head p) \<noteq> None"
    and "bid_bytes (node_progress_head p) < commit_key"
    and "length (chain_range E (rf_chain r) (excl (node_progress_head p)) (Excluded commit_key))
      < window p"
    and "rx_alive (rpc_tx r)" and "state_file_ok I"
  shows "leader_apply E I r Tick = Inl (Panic ''couldn't deserialize'')"
proof -
  let ?P = "\<lambda>s. rf_chain s = rf_chain r \<and> ld_progress (rf_role s) = ld_progress (rf_role r)
    \<and> rx_alive (rpc_tx s) \<and> rf_config s = rf_config r"
  have panics: "replicate_blocks E (rf_chain r) p = Inl (Panic ''couldn't deserialize'')"
    by (rule replicate_blocks_panics [OF assms(1,2,5-9)])
  have "foldE (replicate_node E) (rc_nodes (rf_config r)) s =
      Inl (Panic ''couldn't deserialize'')" if "?P s" for s
  proof (rule foldE_panics [where P = ?P, OF assms(3) that])
    show "replicate_node E node t = Inl (Panic ''couldn't deserialize'')" if "?P t" for t
      using that assms(4) panics by (simp add: replicate_node_def)
    show "replicate_node E y t = Inl (Panic ''couldn't deserialize'')
        \<or> (\<exists>t'. replicate_node E y t = Inr t' \<and> ?P t')" if "?P t" for y t
      using that
      by (auto simp: replicate_node_def raft_send_eq bindE_def split: option.splits sum.splits
          dest!: replicate_blocks_fails [OF assms(1)])
  qed
  then have "leader_replicate E s = Inl (Panic ''couldn't deserialize'')" if "?P s" for s
    using that by (simp add: leader_replicate_def)
  then show ?thesis
    using assms(10,11) by (simp add: leader_apply_tick_def write_state_def leader_heartbeat_def
        raft_send_all_eq reset_heartbeat_timer_def)
qed

theorem tick_panics_near_head_witness:
  "leader_apply tree_ext (demo_input 7) (demo_leader one_committed) Tick =
     Inl (Panic ''couldn't deserialize'')"
proof -
  let ?p = "Replicate (replicate_from_probe ((progress_new 2)\<lparr>pr_head := BlockId_new 1\<rparr>))"
  let ?n = "\<lparr>nd_id = 2, nd_addr = \<lparr>sa_ip = V4 0, sa_port = 6669\<rparr>\<rparr> :: raft_node"
  have "?n \<in> set (rc_nodes (demo_config 1 [2, 3]))"
    by (simp add: demo_config_def)
  moreover have "rp_get demo_progress (nd_id ?n) = Some ?p"
    by (simp add: demo_progress_def rp_get_def)
  moreover have "node_progress_is_active ?p" and "node_progress_head ?p = BlockId_new 1"
    by (simp_all add: replicate_is_active_def replicate_from_probe_def MAX_INFLIGHT_def)
  moreover have "chain_range tree_ext one_committed (excl (BlockId_new 1)) (Excluded commit_key) = []"
    by code_simp
  ultimately show ?thesis
    using small_ids
    by (intro tick_panics_near_head [where node = ?n and p = ?p])
      (simp_all add: one_committed_facts MAX_INFLIGHT_def demo_input_def)
qed

text \<open>
  A leader cannot step down: entries from a leader with a higher term make it panic, where the
  handler means to turn it into a follower.
\<close>

lemma leader_step_down_panics:
  assumes "current_term (rf_state r) < t"
  shows "leader_apply E I r (AppendEntries t l bs) = Inl (Panic ''not implemented'')"
  using assms by (simp add: leader_apply_append_entries_def raft_term_leader)

end
