(* ===== verification/Campaign.thy ===== *)
theory Campaign
  imports Leader_Role
begin

text \<open>
  The part of \<^verbatim>\<open>raft/candidate.rs\<close> that follower and candidate share: asking for votes, counting
  them, winning and losing.  It comes before the two roles because a follower that times out and a
  candidate whose election times out both end up in \<^verbatim>\<open>seek_election\<close>.
\<close>

section \<open>Winning and losing\<close>

definition candidate_elect ::
  "input \<Rightarrow> ('db, candidate) raft \<Rightarrow> 'db raft_handle res" where
  "candidate_elect I r =
     bindE (leader_from_candidate I r) (\<lambda>l.
     bindE (leader_heartbeat l) (\<lambda>l'. Inr (Leader l')))"

definition candidate_defeat :: "('db, candidate) raft \<Rightarrow> 'db raft_handle res" where
  "candidate_defeat r =
     Inr (Follower (follower_from_candidate (r\<lparr>rf_state := (rf_state r)\<lparr>voted_for := None\<rparr>\<rparr>)))"

definition candidate_apply_vote_response ::
  "input \<Rightarrow> ('db, candidate) raft \<Rightarrow> bool \<Rightarrow> node_id \<Rightarrow> 'db raft_handle res" where
  "candidate_apply_vote_response I r granted from_id =
     (let r' = r\<lparr>rf_role := (rf_role r)\<lparr>cd_election :=
            election_vote (cd_election (rf_role r)) from_id granted\<rparr>\<rparr>
      in case election_status (cd_election (rf_role r')) of
           Elected \<Rightarrow> candidate_elect I r'
         | Voting \<Rightarrow> Inr (Candidate r')
         | Defeated \<Rightarrow> candidate_defeat r')"

section \<open>Asking for votes\<close>

text \<open>
  The request is broadcast once for every other node of the configuration.  The source ends with
  \<^verbatim>\<open>self.apply(Command::VoteResponse { .. })\<close>, the candidate's vote for itself.
\<close>

definition seek_election ::
  "'db ext \<Rightarrow> input \<Rightarrow> ('db, candidate) raft \<Rightarrow> 'db raft_handle res" where
  "seek_election E I r =
     bindE (add_u64 (overflow_checks E) (current_term (rf_state r)) 1) (\<lambda>t.
     let r' = r\<lparr>rf_state := (rf_state r)\<lparr>voted_for := Some (rf_id r), current_term := t\<rparr>\<rparr>
     in bindE (foldE (\<lambda>_ r. raft_send_all r (VoteRequest t (rf_id r) t (get_head (rf_chain r))))
          (rc_nodes (rf_config r')) r') (\<lambda>r''.
        candidate_apply_vote_response I r'' True (rf_id r')))"


section \<open>Who stands behind a candidate or a leader\<close>

definition voter_list :: "('db, 'r) raft \<Rightarrow> node_id list" where
  "voter_list r = map nd_id (rc_nodes (rf_config r)) @ [rf_id r]"

text \<open>
  The votes a candidate has counted come from nodes in \<open>S\<close>, and a leader was elected by a quorum
  of nodes in \<open>S\<close>.
\<close>

fun backed :: "node_id set \<Rightarrow> 'db raft_handle \<Rightarrow> bool" where
  "backed S (Follower r) \<longleftrightarrow> True"
| "backed S (Candidate r) \<longleftrightarrow>
     election_ok (cd_election (rf_role r)) \<and> el_voter_ids (cd_election (rf_role r)) = voter_list r
   \<and> granted_by (cd_election (rf_role r)) \<subseteq> S"
| "backed S (Leader r) \<longleftrightarrow>
     (\<exists>Q. Q \<subseteq> S \<and> quorum_size (election_new (voter_list r)) \<le> card Q)"

lemma backed_mono: "backed S h \<Longrightarrow> S \<subseteq> T \<Longrightarrow> backed T h"
  by (cases h) (auto intro: order_trans)

lemma quiet_voter_list: "quiet r r' \<Longrightarrow> voter_list r' = voter_list r"
  by (simp add: quiet_def voter_list_def)

text \<open>The votes a command brings.\<close>

fun cmd_votes :: "command \<Rightarrow> node_id set" where
  "cmd_votes (VoteResponse t n True) = {n}"
| "cmd_votes cmd = {}"

section \<open>Counting a vote\<close>

lemma candidate_elect_ok:
  assumes "rx_alive (rpc_tx r)"
  obtains P where "rp_new (voter_list r) = Inr P" "rp_ok P"
    "\<And>n. head_of P n = (if n \<in> set (voter_list r) then Some (BlockId_new 0) else None)"
    "candidate_elect I r = Inr (Leader (push_rpc
       (with_role r \<lparr>ld_progress = P, ld_heartbeat_time = now I,
          ld_heartbeat_timeout = rc_heartbeat_timeout (rf_config r)\<rparr>)
       Peers (Heartbeat (current_term (rf_state r)) (get_commit (rf_chain r)) (rf_id r))))"
proof -
  have "voter_list r \<noteq> []" by (simp add: voter_list_def)
  then obtain P where P: "rp_new (voter_list r) = Inr P" "rp_ok P"
      "\<And>n. head_of P n = (if n \<in> set (voter_list r) then Some (BlockId_new 0) else None)"
    by (rule rp_new_ok) blast
  then show ?thesis
    using assms
    by (intro that [of P])
      (simp_all add: candidate_elect_def leader_from_candidate_def leader_on_transition_def
        leader_heartbeat_def raft_send_all_eq voter_list_def)
qed

lemma candidate_elect_Inr:
  assumes "candidate_elect I r = Inr h"
  shows "\<exists>l. h = Leader l \<and> quiet r l"
proof -
  have "rx_alive (rpc_tx r)"
    using assms by (auto simp: candidate_elect_def leader_from_candidate_def
        leader_on_transition_def leader_heartbeat_def bindE_Inr raft_send_all_Inr)
  then show ?thesis
    by (rule candidate_elect_ok [of r I]) (use assms in \<open>auto simp: quiet_def message_new_def\<close>)
qed

lemma vote_response_quiet:
  assumes "candidate_apply_vote_response I r granted n = Inr h"
  shows "quiet_to r h"
  using assms
  by (auto simp: candidate_apply_vote_response_def candidate_defeat_def quiet_def Let_def
      follower_from_candidate_def split: ElectionStatus.splits dest!: candidate_elect_Inr)

lemma vote_response_backed:
  assumes "backed S (Candidate r)" and "candidate_apply_vote_response I r granted n = Inr h"
  shows "backed (S \<union> (if granted then {n} else {})) h"
proof -
  let ?e = "election_vote (cd_election (rf_role r)) n granted"
  have e: "election_ok ?e" "el_voter_ids ?e = voter_list r"
      "granted_by ?e \<subseteq> S \<union> (if granted then {n} else {})"
    using assms(1) by (auto simp: granted_by_vote)
  have q: "quorum_size ?e = quorum_size (election_new (voter_list r))"
    using e(2) by (simp add: quorum_size_def)
  show ?thesis
  proof (cases "election_status ?e")
    case Elected
    then have "quorum_size ?e \<le> card (granted_by ?e)"
      using election_status_eq [OF e(1)] by (auto split: if_splits)
    moreover obtain l where l: "h = Leader l" "quiet (r\<lparr>rf_role := (rf_role r)\<lparr>cd_election := ?e\<rparr>\<rparr>) l"
      using assms(2) Elected candidate_elect_Inr
      by (force simp: candidate_apply_vote_response_def)
    moreover have "voter_list l = voter_list r"
      using quiet_voter_list [OF l(2)] by (simp add: voter_list_def)
    ultimately show ?thesis using e(3) q by (auto intro!: exI [of _ "granted_by ?e"])
  next
    case Voting
    then have "h = Candidate (r\<lparr>rf_role := (rf_role r)\<lparr>cd_election := ?e\<rparr>\<rparr>)"
      using assms(2) by (simp add: candidate_apply_vote_response_def)
    then show ?thesis using e by (simp add: voter_list_def)
  next
    case Defeated
    then show ?thesis
      using assms(2) by (auto simp: candidate_apply_vote_response_def candidate_defeat_def)
  qed
qed

section \<open>Starting a campaign\<close>

lemma broadcast_quiet:
  assumes "foldE (\<lambda>_ r. raft_send_all r (VoteRequest t (rf_id r) t (get_head (rf_chain r)))) ns r
    = Inr r'"
  shows "quiet r r' \<and> rf_chain r' = rf_chain r \<and> rf_role r' = rf_role r
    \<and> rf_state r' = rf_state r"
  using assms
  by (rule foldE_invariant) (auto simp: raft_send_all_Inr intro: quiet_trans)

lemma seek_election_steps:
  assumes "seek_election E I r = Inr h"
  obtains r' where "quiet r r'" "rf_chain r' = rf_chain r" "rf_role r' = rf_role r"
    "candidate_apply_vote_response I r' True (rf_id r) = Inr h"
proof -
  obtain t r' where "foldE (\<lambda>_ r. raft_send_all r (VoteRequest t (rf_id r) t (get_head (rf_chain r))))
      (rc_nodes (rf_config r))
      (r\<lparr>rf_state := (rf_state r)\<lparr>voted_for := Some (rf_id r), current_term := t\<rparr>\<rparr>) = Inr r'"
    and v: "candidate_apply_vote_response I r' True (rf_id r) = Inr h"
    using assms by (auto simp: seek_election_def bindE_Inr Let_def)
  from broadcast_quiet [OF this(1)] show ?thesis
    by (intro that [OF _ _ _ v]) (simp_all add: quiet_def)
qed

lemma seek_election_quiet:
  assumes "seek_election E I r = Inr h"
  shows "quiet_to r h"
  using assms by (rule seek_election_steps) (auto dest: vote_response_quiet intro: quiet_to_trans)

lemma seek_election_backed:
  assumes "seek_election E I r = Inr h" and "backed S (Candidate r)"
  shows "backed (insert (rf_id r) S) h"
  using assms(1)
proof (rule seek_election_steps)
  fix r'
  assume r': "quiet r r'" "rf_role r' = rf_role r"
    and v: "candidate_apply_vote_response I r' True (rf_id r) = Inr h"
  have "backed S (Candidate r')"
    using assms(2) r' quiet_voter_list [OF r'(1)] by simp
  from vote_response_backed [OF this v] show ?thesis by simp
qed


section \<open>The invariant of a node\<close>

definition timeouts_ok :: "('db, 'r) raft \<Rightarrow> bool" where
  "timeouts_ok r \<longleftrightarrow> min_election_timeout (rf_state r) < max_election_timeout (rf_state r)"

fun handle_ok :: "'db ext \<Rightarrow> 'db raft_handle \<Rightarrow> bool" where
  "handle_ok E (Follower r) \<longleftrightarrow> chain_ok E (rf_chain r) \<and> timeouts_ok r"
| "handle_ok E (Candidate r) \<longleftrightarrow> chain_ok E (rf_chain r) \<and> timeouts_ok r"
| "handle_ok E (Leader r) \<longleftrightarrow> leader_ok E r"

lemma candidate_elect_inv:
  assumes "candidate_elect I r = Inr h" and "chain_ok E (rf_chain r)"
  shows "handle_ok E h"
proof -
  have "rx_alive (rpc_tx r)"
    using assms by (auto simp: candidate_elect_def leader_from_candidate_def
        leader_on_transition_def leader_heartbeat_def bindE_Inr raft_send_all_Inr)
  then obtain P where P: "rp_ok P"
    "\<And>n. head_of P n = (if n \<in> set (voter_list r) then Some (BlockId_new 0) else None)"
    "candidate_elect I r = Inr (Leader (push_rpc
       (with_role r \<lparr>ld_progress = P, ld_heartbeat_time = now I,
          ld_heartbeat_timeout = rc_heartbeat_timeout (rf_config r)\<rparr>)
       Peers (Heartbeat (current_term (rf_state r)) (get_commit (rf_chain r)) (rf_id r))))"
    by (rule candidate_elect_ok) blast
  have "dom (head_of P) = set (voter_list r)"
    by (auto simp: dom_def P(2))
  moreover have "id_ok h" if "head_of P n = Some h" for n h
    using that by (auto simp: P(2) split: if_splits)
  ultimately show ?thesis
    using assms P(1,3) by (auto simp: leader_ok_def cluster_ids_def voter_list_def)
qed

lemma vote_response_inv:
  assumes "candidate_apply_vote_response I r granted n = Inr h"
    and "chain_ok E (rf_chain r)" and "timeouts_ok r"
  shows "handle_ok E h"
  using assms
  by (auto simp: candidate_apply_vote_response_def candidate_defeat_def Let_def timeouts_ok_def
      follower_from_candidate_def split: ElectionStatus.splits intro: candidate_elect_inv)

lemma seek_election_inv:
  assumes "seek_election E I r = Inr h" and "chain_ok E (rf_chain r)" and "timeouts_ok r"
  shows "handle_ok E h"
proof -
  obtain t r' where b: "foldE (\<lambda>_ r. raft_send_all r (VoteRequest t (rf_id r) t (get_head (rf_chain r))))
      (rc_nodes (rf_config r))
      (r\<lparr>rf_state := (rf_state r)\<lparr>voted_for := Some (rf_id r), current_term := t\<rparr>\<rparr>) = Inr r'"
    and v: "candidate_apply_vote_response I r' True (rf_id r) = Inr h"
    using assms(1) by (auto simp: seek_election_def bindE_Inr Let_def)
  then show ?thesis
    using broadcast_quiet [OF b] assms(2,3)
    by (intro vote_response_inv [OF v]) (simp_all add: timeouts_ok_def)
qed

end
