(* ===== verification/Follower_Role.thy ===== *)
theory Follower_Role
  imports Campaign
begin

text \<open>
  \<^verbatim>\<open>raft/follower.rs\<close>: opening a node, voting, following a leader's entries and heartbeats, passing
  client requests on, and timing out.
\<close>

section \<open>Starting\<close>

definition get_randomized_timeout :: "input \<Rightarrow> ('db, follower) raft \<Rightarrow> duration res" where
  "get_randomized_timeout I r =
     (let lo = min_election_timeout (rf_state r); hi = max_election_timeout (rf_state r)
      in if lo < hi then Inr (from_millis (rng I lo hi))
         else Inl (Panic ''cannot sample empty range''))"

definition set_election_timeout ::
  "input \<Rightarrow> ('db, follower) raft \<Rightarrow> ('db, follower) raft res" where
  "set_election_timeout I r =
     bindE (get_randomized_timeout I r) (\<lambda>d.
     Inr (r\<lparr>rf_state := (rf_state r)\<lparr>election_timeout := Some d, election_time := Some (now I)\<rparr>\<rparr>))"

definition follower_init :: "input \<Rightarrow> ('db, follower) raft \<Rightarrow> ('db, follower) raft res" where
  "follower_init I r = set_election_timeout I r"

text \<open>\<open>opened\<close> is what sled returned for the data directory of the configuration.\<close>

definition follower_new ::
  "'db ext \<Rightarrow> input \<Rightarrow> sled_error + 'db \<Rightarrow> raft_config \<Rightarrow> message sender \<Rightarrow> instruction sender \<Rightarrow>
   ('db, follower) raft res" where
  "follower_new E I opened config rtx ftx =
     bindE (config_validate config) (\<lambda>_.
     bindE (chain_new E opened) (\<lambda>c.
     follower_init I
       \<lparr>rf_id = rc_id config, rf_config = config, rf_state = state_default,
        rf_role = \<lparr>fl_leader_id = None, fl_proxied_reqs = {}, fl_queued_reqs = []\<rparr>,
        rf_chain = c, rpc_tx = rtx, fsm_tx = ftx\<rparr>))"

section \<open>Commands\<close>

definition can_vote :: "('db, follower) raft \<Rightarrow> term_id \<Rightarrow> block_id \<Rightarrow> bool" where
  "can_vote r last_term h \<longleftrightarrow>
     \<not> (voted_for (rf_state r) \<noteq> None \<or> current_term (rf_state r) > last_term
        \<or> get_commit (rf_chain r) > h)"

definition follower_apply_timeout ::
  "'db ext \<Rightarrow> input \<Rightarrow> ('db, follower) raft \<Rightarrow> 'db raft_handle res" where
  "follower_apply_timeout E I r =
     (if voted_for (rf_state r) = None then
        bindE (set_election_timeout I r) (\<lambda>r'.
        seek_election E I (candidate_from_follower r'))
      else Inr (Follower r))"

definition follower_apply_tick ::
  "'db ext \<Rightarrow> input \<Rightarrow> ('db, follower) raft \<Rightarrow> 'db raft_handle res" where
  "follower_apply_tick E I r =
     (if needs_election I r then follower_apply_timeout E I r else Inr (Follower r))"

definition follower_adopt_leader ::
  "input \<Rightarrow> ('db, follower) raft \<Rightarrow> node_id \<Rightarrow> term_id \<Rightarrow> ('db, follower) raft res" where
  "follower_adopt_leader I r l t =
     (if voted_for (rf_state r) = None \<and> t \<ge> current_term (rf_state r) then
        bindE (raft_term follower_term r t) (\<lambda>r'.
        Inr (r'\<lparr>rf_state := (rf_state r')\<lparr>election_time := Some (now I), voted_for := Some l\<rparr>,
                rf_role := (rf_role r')\<lparr>fl_leader_id := Some l\<rparr>\<rparr>))
      else Inr r)"

definition follower_apply_append_entries ::
  "'db ext \<Rightarrow> input \<Rightarrow> ('db, follower) raft \<Rightarrow> block list \<Rightarrow> node_id \<Rightarrow> term_id \<Rightarrow>
   'db raft_handle res" where
  "follower_apply_append_entries E I r blocks l t =
     bindE (follower_adopt_leader I r l t) (\<lambda>r'.
     bindE (case voted_for (rf_state r') of
         None \<Rightarrow> Inr ()
       | Some v \<Rightarrow> assertE (\<not> (v \<noteq> l \<and> t < current_term (rf_state r'))) ''assertion failed'') (\<lambda>_.
     if blocks \<noteq> [] then
       bindE (foldE (\<lambda>b c. chain_extend E c b) blocks (rf_chain r')) (\<lambda>c.
       bindE (raft_send (r'\<lparr>rf_chain := c\<rparr>) (Peer l)
         (AppendResponse (rf_id r') (current_term (rf_state r')) (get_head c) True)) (\<lambda>r''.
       Inr (Follower r'')))
     else Inr (Follower r')))"

definition flush_queued ::
  "node_id \<Rightarrow> ('db, follower) raft \<Rightarrow> ('db, follower) raft res" where
  "flush_queued l r =
     foldE (\<lambda>req r.
       bindE (raft_send r (Peer l) (ClientRequest req)) (\<lambda>r'.
       Inr (r'\<lparr>rf_role := (rf_role r')\<lparr>fl_proxied_reqs :=
         insert (cr_id req) (fl_proxied_reqs (rf_role r'))\<rparr>\<rparr>)))
       (fl_queued_reqs (rf_role r)) (r\<lparr>rf_role := (rf_role r)\<lparr>fl_queued_reqs := []\<rparr>\<rparr>)"

definition follower_advance_commit ::
  "'db ext \<Rightarrow> ('db, follower) raft \<Rightarrow> block_id \<Rightarrow> bool \<Rightarrow> ('db, follower) raft res" where
  "follower_advance_commit E r commit has_committed =
     (if has_committed \<and> commit > get_commit (rf_chain r) then
        let prev = get_commit (rf_chain r)
        in bindE (chain_commit E (rf_chain r) commit) (\<lambda>(c, _).
           apply_blocks (chain_range E c (incl prev) (excl commit)) (r\<lparr>rf_chain := c\<rparr>))
      else Inr r)"

definition follower_apply_heartbeat ::
  "'db ext \<Rightarrow> input \<Rightarrow> ('db, follower) raft \<Rightarrow> node_id \<Rightarrow> term_id \<Rightarrow> block_id \<Rightarrow>
   'db raft_handle res" where
  "follower_apply_heartbeat E I r l t commit =
     bindE (set_election_timeout I r) (\<lambda>r1.
     bindE (raft_term follower_term r1 t) (\<lambda>r2.
     bindE (flush_queued l (r2\<lparr>rf_state := (rf_state r2)\<lparr>voted_for := Some l\<rparr>,
                              rf_role := (rf_role r2)\<lparr>fl_leader_id := Some l\<rparr>\<rparr>)) (\<lambda>r3.
     bindE (chain_has E (rf_chain r3) commit) (\<lambda>has_committed.
     bindE (follower_advance_commit E r3 commit has_committed) (\<lambda>r4.
     bindE (raft_send r4 (Peer l) (HeartbeatResponse (get_commit (rf_chain r4)) has_committed)) (\<lambda>r5.
     Inr (Follower r5)))))))"

definition follower_apply_vote_request ::
  "('db, follower) raft \<Rightarrow> node_id \<Rightarrow> term_id \<Rightarrow> block_id \<Rightarrow> 'db raft_handle res" where
  "follower_apply_vote_request r candidate_id last_term h =
     (if can_vote r last_term h then
        bindE (raft_send r (Peer candidate_id)
          (VoteResponse (current_term (rf_state r)) (rf_id r) True)) (\<lambda>r'.
        Inr (Follower (r'\<lparr>rf_state := (rf_state r')\<lparr>voted_for := Some candidate_id\<rparr>\<rparr>)))
      else
        bindE (raft_send r (Peer candidate_id)
          (VoteResponse (current_term (rf_state r)) (rf_id r) False)) (\<lambda>r'.
        Inr (Follower r')))"

definition follower_apply_client_request ::
  "('db, follower) raft \<Rightarrow> client_request \<Rightarrow> 'db raft_handle res" where
  "follower_apply_client_request r req0 =
     (let req = req0\<lparr>cr_address := Peer (rf_id r)\<rparr>
      in case fl_leader_id (rf_role r) of
           Some l \<Rightarrow>
             bindE (raft_send r (Peer l) (ClientRequest req)) (\<lambda>r'.
             Inr (Follower (r'\<lparr>rf_role := (rf_role r')\<lparr>fl_proxied_reqs :=
               insert (cr_id req) (fl_proxied_reqs (rf_role r'))\<rparr>\<rparr>)))
         | None \<Rightarrow>
             Inr (Follower (r\<lparr>rf_role := (rf_role r)\<lparr>fl_queued_reqs :=
               fl_queued_reqs (rf_role r) @ [req]\<rparr>\<rparr>)))"

definition follower_apply_client_response ::
  "('db, follower) raft \<Rightarrow> client_response \<Rightarrow> 'db raft_handle res" where
  "follower_apply_client_response r resp =
     bindE (raft_send r Client (ClientResponse \<lparr>cs_id = cs_id resp, cs_res = cs_res resp\<rparr>)) (\<lambda>r'.
     Inr (Follower (r'\<lparr>rf_role := (rf_role r')\<lparr>fl_proxied_reqs :=
       fl_proxied_reqs (rf_role r') - {cs_id resp}\<rparr>\<rparr>)))"

fun follower_apply ::
  "'db ext \<Rightarrow> input \<Rightarrow> ('db, follower) raft \<Rightarrow> command \<Rightarrow> 'db raft_handle res" where
  "follower_apply E I r Tick = follower_apply_tick E I r"
| "follower_apply E I r (AppendEntries t l bs) = follower_apply_append_entries E I r bs l t"
| "follower_apply E I r (Heartbeat t commit l) = follower_apply_heartbeat E I r l t commit"
| "follower_apply E I r (VoteRequest t c last_term h) = follower_apply_vote_request r c last_term h"
| "follower_apply E I r Timeout = follower_apply_timeout E I r"
| "follower_apply E I r (ClientRequest req) = follower_apply_client_request r req"
| "follower_apply E I r (ClientResponse resp) = follower_apply_client_response r resp"
| "follower_apply E I r cmd = Inr (Follower r)"

text \<open>The tick of the source calls \<^verbatim>\<open>self.apply(Command::Timeout)\<close>.\<close>

lemma follower_tick_applies:
  "follower_apply_tick E I r =
     (if needs_election I r then follower_apply E I r Timeout else Inr (Follower r))"
  by (simp add: follower_apply_tick_def)


section \<open>What each step does\<close>

lemma set_election_timeout_eq:
  assumes "timeouts_ok r"
  shows "set_election_timeout I r = Inr (r\<lparr>rf_state := (rf_state r)\<lparr>election_timeout :=
      Some (from_millis (rng I (min_election_timeout (rf_state r)) (max_election_timeout (rf_state r)))),
    election_time := Some (now I)\<rparr>\<rparr>)"
  using assms by (simp add: set_election_timeout_def get_randomized_timeout_def timeouts_ok_def Let_def)

lemma set_election_timeout_Inr:
  assumes "set_election_timeout I r = Inr r'"
  obtains d where "timeouts_ok r"
    "r' = r\<lparr>rf_state := (rf_state r)\<lparr>election_timeout := Some d, election_time := Some (now I)\<rparr>\<rparr>"
  using assms
  by (auto simp: set_election_timeout_def get_randomized_timeout_def timeouts_ok_def Let_def bindE_Inr
      split: if_splits)

text \<open>The queue is sent to the leader in order and emptied; its requests count as proxied.\<close>

definition flushed :: "node_id \<Rightarrow> ('db, follower) raft \<Rightarrow> ('db, follower) raft" where
  "flushed l r = r\<lparr>rf_role := (rf_role r)\<lparr>fl_queued_reqs := [],
       fl_proxied_reqs := fl_proxied_reqs (rf_role r) \<union> cr_id ` set (fl_queued_reqs (rf_role r))\<rparr>,
     rpc_tx := (rpc_tx r)\<lparr>sent := sent (rpc_tx r)
       @ map (\<lambda>req. message_new (Peer (rf_id r)) (Peer l) (ClientRequest req))
           (fl_queued_reqs (rf_role r))\<rparr>\<rparr>"

lemma flush_queued_eq:
  fixes r :: "('db, follower) raft"
  shows "flush_queued l r =
     (if rx_alive (rpc_tx r) \<or> fl_queued_reqs (rf_role r) = [] then Inr (flushed l r)
      else Inl (Error ''channel closed''))"
proof -
  let ?f = "\<lambda>req r. bindE (raft_send r (Peer l) (ClientRequest req)) (\<lambda>r'.
       Inr (r'\<lparr>rf_role := (rf_role r')\<lparr>fl_proxied_reqs :=
         insert (cr_id req) (fl_proxied_reqs (rf_role r'))\<rparr>\<rparr>))"
  have "foldE ?f q s =
      (if rx_alive (rpc_tx s) \<or> q = [] then Inr (s\<lparr>rf_role := (rf_role s)\<lparr>
         fl_proxied_reqs := fl_proxied_reqs (rf_role s) \<union> cr_id ` set q\<rparr>,
       rpc_tx := (rpc_tx s)\<lparr>sent := sent (rpc_tx s)
         @ map (\<lambda>req. message_new (Peer (rf_id s)) (Peer l) (ClientRequest req)) q\<rparr>\<rparr>)
      else Inl (Error ''channel closed''))" for q and s :: "('db, follower) raft"
    by (induction q arbitrary: s) (auto simp: raft_send_eq push_rpc_def)
  then show ?thesis
    by (simp add: flush_queued_def flushed_def)
qed

lemma flushed_frame [simp]:
  "rf_id (flushed l r) = rf_id r" "rf_config (flushed l r) = rf_config r"
  "rf_state (flushed l r) = rf_state r" "rf_chain (flushed l r) = rf_chain r"
  "fsm_tx (flushed l r) = fsm_tx r" "rx_alive (rpc_tx (flushed l r)) = rx_alive (rpc_tx r)"
  "fl_leader_id (rf_role (flushed l r)) = fl_leader_id (rf_role r)"
  by (simp_all add: flushed_def)

lemma flushed_quiet [simp]: "quiet r (flushed l r)"
  by (auto simp: quiet_def flushed_def message_new_def)

lemma advance_commit_cases:
  assumes "follower_advance_commit E r commit has = Inr r'"
  obtains (stays) "r' = r"
    | (moves) c i bs where "chain_commit E (rf_chain r) commit = Inr (c, i)"
        "r' = push_fsm (r\<lparr>rf_chain := c\<rparr>) (map Apply bs)"
proof -
  consider "r' = r" | c i items where "chain_commit E (rf_chain r) commit = Inr (c, i)"
      "apply_blocks items (r\<lparr>rf_chain := c\<rparr>) = Inr r'"
    using assms
    by (auto simp: follower_advance_commit_def Let_def bindE_Inr split: if_splits)
  then show ?thesis
  proof cases
    case 2
    from 2(2) show ?thesis by (rule apply_blocks_frame) (rule moves [OF 2(1)])
  qed (rule stays)
qed

lemma heartbeat_steps:
  assumes "follower_apply_heartbeat E I r l t commit = Inr h"
  obtains r1 r2 has where
    "r1 = flushed l (r\<lparr>rf_state := rf_state r1, rf_role := (rf_role r)\<lparr>fl_leader_id := Some l\<rparr>\<rparr>)"
    "voted_for (rf_state r1) = Some l" "current_term (rf_state r1) = t"
    "timeouts_ok r" "timeouts_ok r1"
    "follower_advance_commit E r1 commit has = Inr r2"
    "h = Follower (push_rpc r2 (Peer l) (HeartbeatResponse (get_commit (rf_chain r2)) has))"
proof -
  obtain d r3 has r4 where d: "timeouts_ok r"
    and r3: "flush_queued l (r\<lparr>rf_state := (rf_state r)\<lparr>election_timeout := Some d,
        election_time := Some (now I), current_term := t, voted_for := Some l\<rparr>,
        rf_role := (rf_role r)\<lparr>fl_leader_id := Some l\<rparr>\<rparr>) = Inr r3"
    and r4: "follower_advance_commit E r3 commit has = Inr r4"
    and h: "h = Follower (push_rpc r4 (Peer l) (HeartbeatResponse (get_commit (rf_chain r4)) has))"
    using assms
    by (auto simp: follower_apply_heartbeat_def bindE_Inr raft_send_Inr raft_term_follower
        elim!: set_election_timeout_Inr)
  from r3 have "r3 = flushed l (r\<lparr>rf_state := (rf_state r)\<lparr>election_timeout := Some d,
        election_time := Some (now I), current_term := t, voted_for := Some l\<rparr>,
        rf_role := (rf_role r)\<lparr>fl_leader_id := Some l\<rparr>\<rparr>)"
    by (simp add: flush_queued_eq split: if_splits)
  then show ?thesis
    using d by (intro that [OF _ _ _ _ _ r4 h]) (simp_all add: timeouts_ok_def)
qed


lemma heartbeat_frame:
  assumes "follower_apply_heartbeat E I r l t commit = Inr h"
  obtains r' where "h = Follower r'" "quiet r r'" "voted_for (rf_state r') = Some l"
    "current_term (rf_state r') = t" "timeouts_ok r'" "fl_queued_reqs (rf_role r') = []"
proof (rule heartbeat_steps [OF assms])
  fix r1 r2 has
  assume r1: "r1 = flushed l (r\<lparr>rf_state := rf_state r1, rf_role := (rf_role r)\<lparr>fl_leader_id := Some l\<rparr>\<rparr>)"
    "voted_for (rf_state r1) = Some l" "current_term (rf_state r1) = t" "timeouts_ok r1"
    and r2: "follower_advance_commit E r1 commit has = Inr r2"
    and h: "h = Follower (push_rpc r2 (Peer l) (HeartbeatResponse (get_commit (rf_chain r2)) has))"
  have q1: "quiet r r1" and q: "fl_queued_reqs (rf_role r1) = []"
    by (subst r1(1), auto simp: quiet_def flushed_def message_new_def)+
  have "quiet r1 r2 \<and> rf_state r2 = rf_state r1 \<and> rf_role r2 = rf_role r1"
    using r2 by (rule advance_commit_cases) (auto simp: quiet_def)
  then have "quiet r (push_rpc r2 (Peer l) (HeartbeatResponse (get_commit (rf_chain r2)) has))"
    using q1 by (auto intro: quiet_trans)
  then show ?thesis
    using r1(2-4) q \<open>quiet r1 r2 \<and> _\<close> by (intro that [OF h]) (auto simp: timeouts_ok_def)
qed

lemma adopt_leader_Inr:
  assumes "follower_adopt_leader I r l t = Inr r'"
  shows "quiet r r'" and "rf_chain r' = rf_chain r" and "timeouts_ok r' = timeouts_ok r"
    and "voted_for (rf_state r) \<noteq> None \<Longrightarrow> voted_for (rf_state r') = voted_for (rf_state r)"
    and "fl_queued_reqs (rf_role r') = fl_queued_reqs (rf_role r)"
  using assms
  by (auto simp: follower_adopt_leader_def raft_term_follower timeouts_ok_def split: if_splits)

lemma append_entries_steps:
  assumes "follower_apply_append_entries E I r bs l t = Inr h"
  obtains r' c where "follower_adopt_leader I r l t = Inr r'"
    "foldE (\<lambda>b c. chain_extend E c b) bs (rf_chain r') = Inr c"
    "h = Follower (if bs = [] then r'
       else push_rpc (r'\<lparr>rf_chain := c\<rparr>) (Peer l)
         (AppendResponse (rf_id r') (current_term (rf_state r')) (get_head c) True))"
proof -
  obtain r' where r': "follower_adopt_leader I r l t = Inr r'" and
    "(if bs \<noteq> [] then
       bindE (foldE (\<lambda>b c. chain_extend E c b) bs (rf_chain r')) (\<lambda>c.
       bindE (raft_send (r'\<lparr>rf_chain := c\<rparr>) (Peer l)
         (AppendResponse (rf_id r') (current_term (rf_state r')) (get_head c) True)) (\<lambda>r''.
       Inr (Follower r'')))
     else Inr (Follower r')) = Inr h"
    using assms by (auto simp: follower_apply_append_entries_def bindE_Inr)
  then show ?thesis
    using that [OF r'] by (cases "bs = []") (auto simp: bindE_Inr raft_send_Inr)
qed

lemma append_entries_frame:
  assumes "follower_apply_append_entries E I r bs l t = Inr h"
  obtains r' where "h = Follower r'" "quiet r r'" "timeouts_ok r' = timeouts_ok r"
    "voted_for (rf_state r) \<noteq> None \<Longrightarrow> voted_for (rf_state r') = voted_for (rf_state r)"
proof (rule append_entries_steps [OF assms])
  fix r' c
  assume r': "follower_adopt_leader I r l t = Inr r'"
    and h: "h = Follower (if bs = [] then r'
       else push_rpc (r'\<lparr>rf_chain := c\<rparr>) (Peer l)
         (AppendResponse (rf_id r') (current_term (rf_state r')) (get_head c) True))"
  note a = adopt_leader_Inr [OF r']
  have "quiet r' (push_rpc (r'\<lparr>rf_chain := c\<rparr>) (Peer l)
      (AppendResponse (rf_id r') (current_term (rf_state r')) (get_head c) True))"
    by (auto simp: quiet_def message_new_def)
  with a(1) have "quiet r (push_rpc (r'\<lparr>rf_chain := c\<rparr>) (Peer l)
      (AppendResponse (rf_id r') (current_term (rf_state r')) (get_head c) True))"
    by (rule quiet_trans)
  then show ?thesis
    using h a by (cases "bs = []") (auto simp: timeouts_ok_def intro!: that)
qed

lemma timeout_quiet:
  assumes "follower_apply_timeout E I r = Inr h"
  shows "quiet_to r h" and "backed {rf_id r} h"
proof -
  have "quiet_to r h \<and> backed {rf_id r} h"
  proof (cases "voted_for (rf_state r) = None")
    case True
    then obtain r' where r': "set_election_timeout I r = Inr r'"
        "seek_election E I (candidate_from_follower r') = Inr h"
      using assms by (auto simp: follower_apply_timeout_def bindE_Inr)
    have q: "quiet r (candidate_from_follower r')"
      using r'(1) by (rule set_election_timeout_Inr)
        (auto simp: quiet_def candidate_from_follower_def)
    moreover have "backed {} (Candidate (candidate_from_follower r'))"
      by (simp add: candidate_from_follower_def voter_list_def)
    moreover have "rf_id (candidate_from_follower r') = rf_id r"
      using q by (simp add: quiet_def)
    ultimately show ?thesis
      using quiet_to_trans [OF q seek_election_quiet [OF r'(2)]]
        seek_election_backed [OF r'(2), of "{}"] by simp
  next
    case False
    then show ?thesis using assms by (auto simp: follower_apply_timeout_def)
  qed
  then show "quiet_to r h" and "backed {rf_id r} h" by simp_all
qed

text \<open>A follower that has voted keeps its vote, stays a follower and grants no further vote.\<close>

lemma voted_follower_step:
  assumes "voted_for (rf_state r) \<noteq> None" and "follower_apply E I r cmd = Inr h"
  shows "\<exists>r'. h = Follower r' \<and> quiet r r' \<and> voted_for (rf_state r') \<noteq> None"
proof (cases cmd)
  case (AppendEntries t l bs)
  then have "follower_apply_append_entries E I r bs l t = Inr h" using assms(2) by simp
  then show ?thesis
    by (rule append_entries_frame) (use assms(1) in auto)
next
  case (Heartbeat t commit l)
  then have "follower_apply_heartbeat E I r l t commit = Inr h" using assms(2) by simp
  then show ?thesis
    by (rule heartbeat_frame) auto
qed (use assms in \<open>auto simp: follower_apply_tick_def follower_apply_timeout_def can_vote_def
    follower_apply_vote_request_def follower_apply_client_request_def quiet_def message_new_def
    follower_apply_client_response_def bindE_Inr raft_send_Inr Let_def split: option.splits if_splits\<close>)

text \<open>A vote is granted only by a follower that has not voted, in answer to a request.\<close>

lemma follower_step_grants:
  assumes "follower_apply E I r cmd = Inr h"
  obtains (quiet) "quiet_to r h" "backed {rf_id r} h"
    | (grant) t c last_term hd where "cmd = VoteRequest t c last_term hd" "can_vote r last_term hd"
        "h = Follower ((push_rpc r (Peer c) (VoteResponse (current_term (rf_state r)) (rf_id r) True))
           \<lparr>rf_state := (rf_state r)\<lparr>voted_for := Some c\<rparr>\<rparr>)"
proof (cases cmd)
  case (AppendEntries t l bs)
  then have "follower_apply_append_entries E I r bs l t = Inr h" using assms by simp
  then show ?thesis
    by (rule append_entries_frame) (auto intro: quiet)
next
  case (Heartbeat t commit l)
  then have "follower_apply_heartbeat E I r l t commit = Inr h" using assms by simp
  then show ?thesis
    by (rule heartbeat_frame) (auto intro: quiet)
next
  case (VoteRequest t c last_term hd)
  show ?thesis
  proof (cases "can_vote r last_term hd")
    case True
    then show ?thesis
      using assms VoteRequest grant [OF VoteRequest True]
      by (auto simp: follower_apply_vote_request_def bindE_Inr raft_send_Inr)
  next
    case False
    then show ?thesis
      using assms VoteRequest quiet
      by (auto simp: follower_apply_vote_request_def bindE_Inr raft_send_Inr)
  qed
next
  case Tick
  then show ?thesis
    using assms timeout_quiet [of E I r h] quiet
    by (auto simp: follower_apply_tick_def split: if_splits)
next
  case Timeout
  then show ?thesis
    using assms timeout_quiet [of E I r h] quiet by auto
qed (use assms quiet in \<open>auto simp: follower_apply_client_request_def quiet_def message_new_def
    follower_apply_client_response_def bindE_Inr raft_send_Inr Let_def split: option.splits\<close>)


section \<open>The invariant is kept\<close>

lemma extend_all_ok:
  assumes "foldE (\<lambda>b c. chain_extend E c b) bs c = Inr c'" and "chain_ok E c"
    and "\<forall>b \<in> set bs. id_ok (blk_id b) \<and> id_ok (blk_next b)"
  shows "chain_ok E c' \<and> get_commit c' = get_commit c"
  by (rule foldE_invariant [OF assms(1), where P = "\<lambda>d. chain_ok E d \<and> get_commit d = get_commit c"])
    (use assms(2,3) chain_store.extend_law in \<open>fastforce+\<close>)

lemma timeout_inv:
  assumes "follower_apply_timeout E I r = Inr h" and "handle_ok E (Follower r)"
  shows "handle_ok E h"
proof (cases "voted_for (rf_state r) = None")
  case True
  then obtain r' where r': "set_election_timeout I r = Inr r'"
      "seek_election E I (candidate_from_follower r') = Inr h"
    using assms by (auto simp: follower_apply_timeout_def bindE_Inr)
  from r'(1) have "chain_ok E (rf_chain r') \<and> timeouts_ok r'"
    by (rule set_election_timeout_Inr) (use assms(2) in \<open>auto simp: timeouts_ok_def\<close>)
  then show ?thesis
    by (intro seek_election_inv [OF r'(2)]) (simp_all add: candidate_from_follower_def timeouts_ok_def)
next
  case False
  then show ?thesis using assms by (auto simp: follower_apply_timeout_def)
qed

lemma heartbeat_inv:
  assumes "follower_apply_heartbeat E I r l t commit = Inr h" and "handle_ok E (Follower r)"
    and "id_ok commit"
  shows "handle_ok E h"
proof (rule heartbeat_steps [OF assms(1)])
  fix r1 r2 has
  assume r1: "r1 = flushed l (r\<lparr>rf_state := rf_state r1, rf_role := (rf_role r)\<lparr>fl_leader_id := Some l\<rparr>\<rparr>)"
    "timeouts_ok r1"
    and r2: "follower_advance_commit E r1 commit has = Inr r2"
    and h: "h = Follower (push_rpc r2 (Peer l) (HeartbeatResponse (get_commit (rf_chain r2)) has))"
  have ok: "chain_ok E (rf_chain r1)"
    using assms(2) by (subst r1(1)) simp
  from r2 have "chain_ok E (rf_chain r2) \<and> timeouts_ok r2"
  proof (rule advance_commit_cases)
    fix c i bs
    assume c: "chain_commit E (rf_chain r1) commit = Inr (c, i)"
      and r2: "r2 = push_fsm (r1\<lparr>rf_chain := c\<rparr>) (map Apply bs)"
    show ?thesis
      using chain_store.commit_law [OF ok assms(3) c] r1(2) r2 by (simp add: timeouts_ok_def)
  qed (use ok r1(2) in simp)
  then show ?thesis using h by (simp add: timeouts_ok_def)
qed

lemma follower_apply_inv:
  assumes "follower_apply E I r cmd = Inr h" and "handle_ok E (Follower r)" and "cmd_ok cmd"
  shows "handle_ok E h"
proof (cases cmd)
  case (AppendEntries t l bs)
  then have "follower_apply_append_entries E I r bs l t = Inr h" using assms(1) by simp
  then show ?thesis
  proof (rule append_entries_steps)
    fix r' c
    assume r': "follower_adopt_leader I r l t = Inr r'"
      and c: "foldE (\<lambda>b c. chain_extend E c b) bs (rf_chain r') = Inr c"
      and h: "h = Follower (if bs = [] then r'
       else push_rpc (r'\<lparr>rf_chain := c\<rparr>) (Peer l)
         (AppendResponse (rf_id r') (current_term (rf_state r')) (get_head c) True))"
    note a = adopt_leader_Inr(2,3) [OF r']
    have "chain_ok E c"
      using extend_all_ok [OF c] a assms(2,3) AppendEntries by simp
    then show ?thesis using h a assms(2) by (auto simp: timeouts_ok_def)
  qed
next
  case (Heartbeat t commit l)
  then show ?thesis using assms by (auto intro: heartbeat_inv)
next
  case Tick
  then show ?thesis
    using assms by (auto simp: follower_apply_tick_def split: if_splits intro: timeout_inv)
next
  case Timeout
  then show ?thesis using assms by (auto intro: timeout_inv)
qed (use assms in \<open>auto simp: follower_apply_vote_request_def follower_apply_client_request_def
    follower_apply_client_response_def bindE_Inr raft_send_Inr Let_def timeouts_ok_def
    split: option.splits if_splits\<close>)


section \<open>Following the commit of the leader\<close>

lemma advance_commit_exact:
  assumes "chain_ok E (rf_chain r)" and "id_ok commit" and "bid_bytes commit \<le> commit_key"
    and "rx_alive (fsm_tx r)"
  defines "prev \<equiv> get_commit (rf_chain r)"
    and "stored \<equiv> chain_block E (rf_chain r) commit \<noteq> None"
  defines "new \<equiv> if stored \<and> prev < commit then commit else prev"
  obtains c bs where
    "follower_advance_commit E r commit stored = Inr (push_fsm (r\<lparr>rf_chain := c\<rparr>) (map Apply bs))"
    "get_commit c = new" "sorted_wrt (<) (map blk_id bs)"
    "set bs = {b. \<exists>i. chain_block E (rf_chain r) i = Some b \<and> prev \<le> i \<and> i < new}"
proof (cases "stored \<and> prev < commit")
  case True
  then have s: "chain_block E (rf_chain r) commit \<noteq> None" by (simp add: stored_def)
  obtain c where c: "chain_commit E (rf_chain r) commit = Inr (c, commit)" "chain_ok E c"
      "chain_block E c = chain_block E (rf_chain r)" "ch_commit c = commit"
    by (rule chain_commit_ok [OF assms(1,2) s])
  have "range_clear E c (incl prev) (excl commit)"
    using assms(3) by (simp add: range_clear_def in_bounds_def not_less)
  then obtain bs where bs: "chain_range E c (incl prev) (excl commit) = map Inr bs"
      "sorted_wrt (<) (map blk_id bs)"
      "\<forall>b. b \<in> set bs \<longleftrightarrow> chain_block E c (blk_id b) = Some b
        \<and> in_bounds (incl prev) (excl commit) (bid_bytes (blk_id b))"
    by (rule chain_range_blocks [OF c(2)])
  show ?thesis
  proof (rule that [of c bs])
    show "follower_advance_commit E r commit stored =
        Inr (push_fsm (r\<lparr>rf_chain := c\<rparr>) (map Apply bs))"
      using True c(1) bs(1) assms(4)
      by (simp add: follower_advance_commit_def apply_blocks_Inr prev_def Let_def)
    show "set bs = {b. \<exists>i. chain_block E (rf_chain r) i = Some b \<and> prev \<le> i \<and> i < new}"
      using True bs(3) chain_block_id(1) [OF c(2)] c(3)
      by (auto simp: in_bounds_def new_def less_block_id_def less_eq_block_id_def)
  qed (use True bs(2) c(4) in \<open>simp_all add: new_def get_commit_def\<close>)
next
  case False
  then have "follower_advance_commit E r commit stored = Inr r"
    by (auto simp: follower_advance_commit_def prev_def)
  with False show ?thesis
    by (intro that [of "rf_chain r" "[]"]) (auto simp: new_def prev_def)
qed

lemma heartbeat_computes:
  assumes "handle_ok E (Follower r)" and "id_ok commit" and "rx_alive (rpc_tx r)"
  obtains st where "voted_for st = Some l" "current_term st = t"
    "follower_apply E I r (Heartbeat t commit l) =
       bindE (follower_advance_commit E
         (flushed l (r\<lparr>rf_state := st, rf_role := (rf_role r)\<lparr>fl_leader_id := Some l\<rparr>\<rparr>))
         commit (chain_block E (rf_chain r) commit \<noteq> None)) (\<lambda>r4.
       bindE (raft_send r4 (Peer l) (HeartbeatResponse (get_commit (rf_chain r4))
         (chain_block E (rf_chain r) commit \<noteq> None))) (\<lambda>r5. Inr (Follower r5)))"
  by (rule that) (use assms in \<open>simp_all add: follower_apply_heartbeat_def set_election_timeout_eq
      raft_term_follower flush_queued_eq chain_has_block\<close>)

section \<open>Taking the blocks of the leader\<close>

lemma extend_all:
  assumes "chain_ok E c" and "\<forall>b \<in> set bs. id_ok (blk_id b) \<and> id_ok (blk_next b)"
    and "\<forall>k < length bs. chain_block E c (blk_next (bs ! k)) \<noteq> None
      \<or> blk_next (bs ! k) \<in> blk_id ` set (take k bs)"
  obtains c' where "foldE (\<lambda>b c. chain_extend E c b) bs c = Inr c'" "chain_ok E c'"
    "chain_block E c' = foldl (\<lambda>B b. B(blk_id b \<mapsto> b)) (chain_block E c) bs"
    "get_head c' = (if bs = [] then get_head c else blk_id (last bs))"
    "get_commit c' = get_commit c"
  using assms
proof (induction bs arbitrary: c thesis)
  case (Cons b bs)
  have "chain_block E c (blk_next b) \<noteq> None" using Cons.prems(4) by fastforce
  then obtain d where d: "chain_extend E c b = Inr d" "chain_ok E d"
      "chain_block E d = (chain_block E c)(blk_id b \<mapsto> b)" "ch_head d = blk_id b"
      "ch_commit d = ch_commit c"
    using chain_extend_ok [OF Cons.prems(2), of b] Cons.prems(3) by auto
  have par: "\<forall>k < length bs. chain_block E d (blk_next (bs ! k)) \<noteq> None
      \<or> blk_next (bs ! k) \<in> blk_id ` set (take k bs)"
  proof (intro allI impI)
    fix k
    assume "k < length bs"
    then show "chain_block E d (blk_next (bs ! k)) \<noteq> None
        \<or> blk_next (bs ! k) \<in> blk_id ` set (take k bs)"
      using spec [OF Cons.prems(4), of "Suc k"] by (auto simp: d(3))
  qed
  have ids: "\<forall>b \<in> set bs. id_ok (blk_id b) \<and> id_ok (blk_next b)" using Cons.prems(3) by simp
  obtain c' where c': "foldE (\<lambda>b c. chain_extend E c b) bs d = Inr c'" "chain_ok E c'"
      "chain_block E c' = foldl (\<lambda>B b. B(blk_id b \<mapsto> b)) (chain_block E d) bs"
      "get_head c' = (if bs = [] then get_head d else blk_id (last bs))"
      "get_commit c' = get_commit d"
    by (rule Cons.IH [OF _ d(2) ids par])
  then show ?case
    using d by (intro Cons.prems(1) [of c']) (simp_all add: get_head_def get_commit_def del: fun_upd_apply)
qed simp

section \<open>A concrete follower\<close>

definition demo_follower :: "tree chain \<Rightarrow> (tree, follower) raft" where
  "demo_follower c = demo_raft 2 [1, 3]
     \<lparr>fl_leader_id = None, fl_proxied_reqs = {}, fl_queued_reqs = []\<rparr> c"

lemma demo_follower_simps [simp]:
  "rf_id (demo_follower c) = 2" "rf_config (demo_follower c) = demo_config 2 [1, 3]"
  "rf_state (demo_follower c) = state_default" "rf_chain (demo_follower c) = c"
  "rf_role (demo_follower c) = \<lparr>fl_leader_id = None, fl_proxied_reqs = {}, fl_queued_reqs = []\<rparr>"
  "rx_alive (rpc_tx (demo_follower c))" "rx_alive (fsm_tx (demo_follower c))"
  "sent (rpc_tx (demo_follower c)) = []" "sent (fsm_tx (demo_follower c)) = []"
  by (simp_all add: demo_follower_def)

lemma demo_follower_ok: "chain_ok tree_ext c \<Longrightarrow> handle_ok tree_ext (Follower (demo_follower c))"
  by (simp add: timeouts_ok_def state_default_def)

section \<open>Properties of the follower\<close>

text \<open>
  (C16) A heartbeat makes its sender the leader in the sender's term, sends it the queued client
  requests in order, and moves the commit forward when the follower has the leader's committed block;
  the blocks handed to the state machine are those from the old commit up to, but not including, the
  new one.  The answer carries the follower's commit and whether it has the leader's.
\<close>

theorem heartbeat_exact:
  assumes "handle_ok E (Follower r)" and "id_ok commit" and "bid_bytes commit \<le> commit_key"
    and "rx_alive (rpc_tx r)" and "rx_alive (fsm_tx r)"
  defines "prev \<equiv> get_commit (rf_chain r)"
    and "stored \<equiv> chain_block E (rf_chain r) commit \<noteq> None"
  defines "new \<equiv> if stored \<and> prev < commit then commit else prev"
  shows "\<exists>r' bs. follower_apply E I r (Heartbeat t commit l) = Inr (Follower r')
    \<and> current_term (rf_state r') = t \<and> voted_for (rf_state r') = Some l
    \<and> fl_leader_id (rf_role r') = Some l \<and> fl_queued_reqs (rf_role r') = []
    \<and> get_commit (rf_chain r') = new
    \<and> sent (rpc_tx r') = sent (rpc_tx r)
        @ map (\<lambda>req. message_new (Peer (rf_id r)) (Peer l) (ClientRequest req))
            (fl_queued_reqs (rf_role r))
        @ [message_new (Peer (rf_id r)) (Peer l) (HeartbeatResponse new stored)]
    \<and> sent (fsm_tx r') = sent (fsm_tx r) @ map Apply bs
    \<and> sorted_wrt (<) (map blk_id bs)
    \<and> set bs = {b. \<exists>i. chain_block E (rf_chain r) i = Some b \<and> prev \<le> i \<and> i < new}"
proof -
  obtain st where st: "voted_for st = Some l" "current_term st = t"
    "follower_apply E I r (Heartbeat t commit l) =
       bindE (follower_advance_commit E
         (flushed l (r\<lparr>rf_state := st, rf_role := (rf_role r)\<lparr>fl_leader_id := Some l\<rparr>\<rparr>))
         commit (chain_block E (rf_chain r) commit \<noteq> None)) (\<lambda>r4.
       bindE (raft_send r4 (Peer l) (HeartbeatResponse (get_commit (rf_chain r4))
         (chain_block E (rf_chain r) commit \<noteq> None))) (\<lambda>r5. Inr (Follower r5)))"
    by (rule heartbeat_computes [OF assms(1,2,4)])
  let ?r = "flushed l (r\<lparr>rf_state := st, rf_role := (rf_role r)\<lparr>fl_leader_id := Some l\<rparr>\<rparr>)"
  have r: "rf_chain ?r = rf_chain r" "chain_ok E (rf_chain ?r)" "rx_alive (fsm_tx ?r)"
    using assms(1,5) by simp_all
  obtain c bs where c: "follower_advance_commit E ?r commit stored =
      Inr (push_fsm (?r\<lparr>rf_chain := c\<rparr>) (map Apply bs))" "get_commit c = new"
      "sorted_wrt (<) (map blk_id bs)"
      "set bs = {b. \<exists>i. chain_block E (rf_chain r) i = Some b \<and> prev \<le> i \<and> i < new}"
    using advance_commit_exact [OF r(2) assms(2,3) r(3)]
    unfolding r(1) prev_def stored_def new_def by blast
  show ?thesis
    using st c assms(4)
    by (intro exI [of _ "push_rpc (push_fsm (?r\<lparr>rf_chain := c\<rparr>) (map Apply bs)) (Peer l)
          (HeartbeatResponse new stored)"] exI [of _ bs])
      (simp add: raft_send_eq flushed_def stored_def)
qed

theorem heartbeat_exact_witness:
  "\<exists>r'. follower_apply tree_ext (demo_input 5) (demo_follower one_chain)
      (Heartbeat 4 (BlockId_new 1) 1) = Inr (Follower r')
    \<and> get_commit (rf_chain r') = BlockId_new 1 \<and> sent (fsm_tx r') = [Apply genesis_block]
    \<and> sent (rpc_tx r') = [message_new (Peer 2) (Peer 1) (HeartbeatResponse (BlockId_new 1) True)]"
proof -
  have small: "bid_bytes (BlockId_new 1) \<le> commit_key" using small_ids(1) by simp
  have commit: "get_commit one_chain = genesis" "genesis < BlockId_new 1"
    by (simp_all add: get_commit_def one_chain_facts genesis_def)
  have stored: "chain_block tree_ext one_chain (BlockId_new 1) \<noteq> None"
    by (simp add: one_chain_facts)
  have "{b. \<exists>i. chain_block tree_ext one_chain i = Some b \<and> genesis \<le> i \<and> i < BlockId_new 1} =
      {genesis_block}"
    by (auto simp: one_chain_facts genesis_def split: if_splits intro!: exI [of _ "BlockId_new 0"])
  then show ?thesis
    using heartbeat_exact [OF demo_follower_ok [OF one_chain_facts(2)] id_ok_new small,
        of "demo_input 5" 4 1] stored
    by (auto simp: commit dest!: sorted_singleton)
qed

text \<open>
  (C17) Entries from a leader the follower accepts are taken over: when every block's parent is stored
  or comes earlier in the same message, all of them are stored, the last one becomes the head, and
  the follower acknowledges that head; the commit does not move.
\<close>

theorem append_entries_accepts:
  assumes "handle_ok E (Follower r)" and "rx_alive (rpc_tx r)" and "bs \<noteq> []"
    and "\<forall>b \<in> set bs. id_ok (blk_id b) \<and> id_ok (blk_next b)"
    and "\<forall>k < length bs. chain_block E (rf_chain r) (blk_next (bs ! k)) \<noteq> None
      \<or> blk_next (bs ! k) \<in> blk_id ` set (take k bs)"
    and "current_term (rf_state r) \<le> t"
  shows "\<exists>r'. follower_apply E I r (AppendEntries t l bs) = Inr (Follower r')
    \<and> chain_block E (rf_chain r') = foldl (\<lambda>B b. B(blk_id b \<mapsto> b)) (chain_block E (rf_chain r)) bs
    \<and> get_head (rf_chain r') = blk_id (last bs) \<and> get_commit (rf_chain r') = get_commit (rf_chain r)
    \<and> sent (rpc_tx r') = sent (rpc_tx r) @ [message_new (Peer (rf_id r)) (Peer l)
        (AppendResponse (rf_id r) (current_term (rf_state r')) (blk_id (last bs)) True)]"
proof -
  have ok: "chain_ok E (rf_chain r)" using assms(1) by simp
  obtain c where c: "foldE (\<lambda>b c. chain_extend E c b) bs (rf_chain r) = Inr c"
      "chain_block E c = foldl (\<lambda>B b. B(blk_id b \<mapsto> b)) (chain_block E (rf_chain r)) bs"
      "get_head c = (if bs = [] then get_head (rf_chain r) else blk_id (last bs))"
      "get_commit c = get_commit (rf_chain r)"
    by (rule extend_all [OF ok assms(4,5)])
  have "\<not> t < current_term (rf_state r)" using assms(6) by simp
  then show ?thesis
    using assms(2,3,6) c
    by (cases "voted_for (rf_state r)")
      (auto simp: follower_apply_append_entries_def follower_adopt_leader_def raft_term_follower
        raft_send_eq push_rpc_def)
qed


theorem append_entries_accepts_witness:
  "\<exists>r'. follower_apply tree_ext (demo_input 5) (demo_follower tree_chain)
      (AppendEntries 4 1 [mk_block 1 0, mk_block 2 1]) = Inr (Follower r')
    \<and> get_head (rf_chain r') = BlockId_new 2"
proof -
  have "handle_ok tree_ext (Follower (demo_follower tree_chain))"
    by (rule demo_follower_ok [OF tree_chain_facts(1)])
  then show ?thesis
    using append_entries_accepts [of tree_ext "demo_follower tree_chain"
        "[mk_block 1 0, mk_block 2 1]" 4 "demo_input 5" 1]
    by (simp add: mk_block_def tree_chain_facts genesis_def state_default_def nth_Cons'
        less_Suc_eq_0_disj all_conj_distrib) blast
qed

end
