(* ===== verification/Candidate_Role.thy ===== *)
theory Candidate_Role
  imports Follower_Role
begin

text \<open>
  \<^verbatim>\<open>raft/candidate.rs\<close>: the commands a candidate answers to.
\<close>

section \<open>Commands\<close>

text \<open>\<^verbatim>\<open>raft.apply(Command::Timeout)\<close> on the follower it has turned into.\<close>

definition candidate_apply_tick ::
  "'db ext \<Rightarrow> input \<Rightarrow> ('db, candidate) raft \<Rightarrow> 'db raft_handle res" where
  "candidate_apply_tick E I r =
     (if needs_election I r then
        (let f = follower_from_candidate (r\<lparr>rf_state := (rf_state r)\<lparr>voted_for := None\<rparr>\<rparr>)
         in case election_status (cd_election (rf_role r)) of
              Voting \<Rightarrow> follower_apply E I f Timeout
            | Defeated \<Rightarrow> follower_apply E I f Timeout
            | Elected \<Rightarrow> Inl (Panic ''this should never happen''))
      else Inr (Candidate r))"

definition candidate_apply_vote_request ::
  "('db, candidate) raft \<Rightarrow> node_id \<Rightarrow> term_id \<Rightarrow> 'db raft_handle res" where
  "candidate_apply_vote_request r candidate_id t =
     (if t > current_term (rf_state r) then
        bindE (raft_term candidate_term r t) (\<lambda>r'. Inr (Follower (follower_from_candidate r')))
      else
        bindE (raft_send r (Peer candidate_id)
          (VoteResponse (current_term (rf_state r)) (rf_id r) False)) (\<lambda>r'. Inr (Candidate r')))"

definition candidate_apply_append_entries ::
  "('db, candidate) raft \<Rightarrow> term_id \<Rightarrow> 'db raft_handle res" where
  "candidate_apply_append_entries r t =
     (if t \<ge> current_term (rf_state r) then Inr (Follower (follower_from_candidate r))
      else Inr (Candidate r))"

definition candidate_apply_heartbeat ::
  "'db ext \<Rightarrow> ('db, candidate) raft \<Rightarrow> term_id \<Rightarrow> node_id \<Rightarrow> block_id \<Rightarrow> 'db raft_handle res" where
  "candidate_apply_heartbeat E r t l commit =
     bindE (chain_has E (rf_chain r) commit) (\<lambda>has_committed.
     let own = get_commit (rf_chain r)
     in bindE (raft_term candidate_term r t) (\<lambda>r1.
        bindE (raft_send
          (follower_from_candidate (r1\<lparr>rf_state := (rf_state r1)\<lparr>voted_for := Some l\<rparr>\<rparr>))
          (Peer l) (HeartbeatResponse own has_committed)) (\<lambda>r2.
        Inr (Follower r2))))"

definition candidate_apply_client_request ::
  "('db, candidate) raft \<Rightarrow> client_request \<Rightarrow> 'db raft_handle res" where
  "candidate_apply_client_request r req =
     Inr (Candidate (r\<lparr>rf_role := (rf_role r)\<lparr>cd_queued_reqs := cd_queued_reqs (rf_role r) @ [req]\<rparr>\<rparr>))"

fun candidate_apply ::
  "'db ext \<Rightarrow> input \<Rightarrow> ('db, candidate) raft \<Rightarrow> command \<Rightarrow> 'db raft_handle res" where
  "candidate_apply E I r Tick = candidate_apply_tick E I r"
| "candidate_apply E I r (VoteRequest t c last_term h) = candidate_apply_vote_request r c t"
| "candidate_apply E I r (VoteResponse t n granted) = candidate_apply_vote_response I r granted n"
| "candidate_apply E I r (AppendEntries t l bs) = candidate_apply_append_entries r t"
| "candidate_apply E I r (Heartbeat t commit l) = candidate_apply_heartbeat E r t l commit"
| "candidate_apply E I r (ClientRequest req) = candidate_apply_client_request r req"
| "candidate_apply E I r cmd = Inr (Candidate r)"

text \<open>\<^verbatim>\<open>seek_election\<close> ends by applying the candidate's own vote.\<close>

lemma seek_election_applies:
  "seek_election E I r =
     bindE (add_u64 (overflow_checks E) (current_term (rf_state r)) 1) (\<lambda>t.
     let r' = r\<lparr>rf_state := (rf_state r)\<lparr>voted_for := Some (rf_id r), current_term := t\<rparr>\<rparr>
     in bindE (foldE (\<lambda>_ r. raft_send_all r (VoteRequest t (rf_id r) t (get_head (rf_chain r))))
          (rc_nodes (rf_config r')) r') (\<lambda>r''.
        candidate_apply E I r'' (VoteResponse t (rf_id r') True)))"
  by (simp add: seek_election_def)


section \<open>What a candidate does\<close>

lemma candidate_step_quiet:
  assumes "candidate_apply E I r cmd = Inr h" and "backed S (Candidate r)"
  shows "quiet_to r h" and "backed (insert (rf_id r) (S \<union> cmd_votes cmd)) h"
proof -
  have "quiet_to r h \<and> backed (insert (rf_id r) (S \<union> cmd_votes cmd)) h"
  proof (cases cmd)
    case Tick
    let ?f = "follower_from_candidate (r\<lparr>rf_state := (rf_state r)\<lparr>voted_for := None\<rparr>\<rparr>)"
    have f: "quiet r ?f" by (simp add: quiet_def follower_from_candidate_def)
    have "h = Candidate r \<or> follower_apply_timeout E I ?f = Inr h"
      using assms(1) Tick by (auto simp: candidate_apply_tick_def Let_def split: if_splits ElectionStatus.splits)
    then show ?thesis
      using assms(2) f timeout_quiet [of E I ?f h]
      by (auto simp: quiet_def follower_from_candidate_def intro: quiet_to_trans [OF f] backed_mono)
  next
    case (VoteResponse t n granted)
    then have v: "candidate_apply_vote_response I r granted n = Inr h" using assms(1) by simp
    show ?thesis
      using vote_response_quiet [OF v] vote_response_backed [OF assms(2) v] VoteResponse
      by (cases granted) (auto intro: backed_mono)
  qed (use assms in \<open>auto simp: candidate_apply_vote_request_def candidate_apply_append_entries_def
      candidate_apply_heartbeat_def candidate_apply_client_request_def raft_term_candidate
      follower_from_candidate_def quiet_def message_new_def bindE_Inr raft_send_Inr Let_def
      voter_list_def split: if_splits\<close>)
  then show "quiet_to r h" and "backed (insert (rf_id r) (S \<union> cmd_votes cmd)) h" by simp_all
qed

lemma candidate_apply_inv:
  assumes "candidate_apply E I r cmd = Inr h" and "handle_ok E (Candidate r)"
  shows "handle_ok E h"
proof (cases cmd)
  case Tick
  let ?f = "follower_from_candidate (r\<lparr>rf_state := (rf_state r)\<lparr>voted_for := None\<rparr>\<rparr>)"
  have "h = Candidate r \<or> follower_apply_timeout E I ?f = Inr h"
    using assms(1) Tick by (auto simp: candidate_apply_tick_def Let_def split: if_splits ElectionStatus.splits)
  moreover have "handle_ok E (Follower ?f)"
    using assms(2) by (simp add: follower_from_candidate_def timeouts_ok_def)
  ultimately show ?thesis using assms(2) timeout_inv by blast
next
  case (VoteResponse t n granted)
  then show ?thesis using assms by (auto intro: vote_response_inv)
qed (use assms in \<open>auto simp: candidate_apply_vote_request_def candidate_apply_append_entries_def
      candidate_apply_heartbeat_def candidate_apply_client_request_def raft_term_candidate
      follower_from_candidate_def bindE_Inr raft_send_Inr Let_def timeouts_ok_def split: if_splits\<close>)

end
