(* ===== verification/Raft_Handle.thy ===== *)
theory Raft_Handle
  imports Candidate_Role
begin

text \<open>
  The handle of \<^verbatim>\<open>raft/mod.rs\<close>: a node in one of its three roles, driven by commands.  Its runs are
  the two step systems interpreted below: well-formedness is kept, and so is a vote once it has been
  given.
\<close>

section \<open>The handle\<close>

definition handle_new ::
  "'db ext \<Rightarrow> input \<Rightarrow> sled_error + 'db \<Rightarrow> raft_config \<Rightarrow> message sender \<Rightarrow> instruction sender \<Rightarrow>
   'db raft_handle res" where
  "handle_new E I opened config rtx ftx =
     (case follower_new E I opened config rtx ftx of
        Inr r \<Rightarrow> Inr (Follower r)
      | Inl _ \<Rightarrow> Inl (Panic ''unwrap''))"

fun is_follower :: "'db raft_handle \<Rightarrow> bool" where
  "is_follower (Follower r) = True"
| "is_follower h = False"

fun is_candidate :: "'db raft_handle \<Rightarrow> bool" where
  "is_candidate (Candidate r) = True"
| "is_candidate h = False"

fun is_leader :: "'db raft_handle \<Rightarrow> bool" where
  "is_leader (Leader r) = True"
| "is_leader h = False"

fun get_follower :: "'db raft_handle \<Rightarrow> ('db, follower) raft option" where
  "get_follower (Follower r) = Some r"
| "get_follower h = None"

fun get_candidate :: "'db raft_handle \<Rightarrow> ('db, candidate) raft option" where
  "get_candidate (Candidate r) = Some r"
| "get_candidate h = None"

fun get_leader :: "'db raft_handle \<Rightarrow> ('db, leader) raft option" where
  "get_leader (Leader r) = Some r"
| "get_leader h = None"

fun handle_apply :: "'db ext \<Rightarrow> input \<Rightarrow> 'db raft_handle \<Rightarrow> command \<Rightarrow> 'db raft_handle res" where
  "handle_apply E I (Follower r) cmd = follower_apply E I r cmd"
| "handle_apply E I (Candidate r) cmd = candidate_apply E I r cmd"
| "handle_apply E I (Leader r) cmd = leader_apply E I r cmd"

text \<open>One event of a node: a command, and what the surroundings show while it is handled.\<close>

definition node_step :: "'db ext \<Rightarrow> 'db raft_handle \<Rightarrow> input \<times> command \<Rightarrow> 'db raft_handle res" where
  "node_step E h e = handle_apply E (fst e) h (snd e)"

section \<open>Votes\<close>

definition grants :: "'db raft_handle \<Rightarrow> message list" where
  "grants h = filter (\<lambda>m. is_grant (msg_command m)) (sent (h_rpc h))"

fun has_voted :: "'db raft_handle \<Rightarrow> bool" where
  "has_voted (Follower r) \<longleftrightarrow> voted_for (rf_state r) \<noteq> None"
| "has_voted h \<longleftrightarrow> False"

text \<open>
  At most one vote has been granted, and a node that has granted one is a follower that has voted.
\<close>

definition vote_ok :: "'db raft_handle \<Rightarrow> bool" where
  "vote_ok h \<longleftrightarrow> length (grants h) \<le> 1 \<and> (grants h \<noteq> [] \<longrightarrow> has_voted h)"

lemma quiet_to_handle:
  assumes "quiet_to r h"
  shows "h_id h = rf_id r" and "h_config h = rf_config r"
    and "\<exists>ms. sent (h_rpc h) = sent (rpc_tx r) @ ms \<and> (\<forall>m \<in> set ms. \<not> is_grant (msg_command m))"
  using assms by (cases h; auto simp: quiet_def)+

lemma quiet_grants: "quiet_to r h \<Longrightarrow> grants h = filter (\<lambda>m. is_grant (msg_command m)) (sent (rpc_tx r))"
  using quiet_to_handle(3) [of r h] by (auto simp: grants_def)

text \<open>
  What one step does to identity, votes and backing: either it grants no vote, or a follower that
  had not voted grants its vote to the candidate that asked for it.
\<close>

lemma handle_step_cases:
  assumes "handle_apply E I h cmd = Inr h'" and "backed S h"
  obtains (quiet) ms where "h_id h' = h_id h" "h_config h' = h_config h" "grants h' = grants h"
      "sent (h_rpc h') = sent (h_rpc h) @ ms" "has_voted h \<Longrightarrow> has_voted h'"
      "backed (insert (h_id h) (S \<union> cmd_votes cmd)) h'"
    | (grant) c t where "h_id h' = h_id h" "h_config h' = h_config h" "\<not> has_voted h" "has_voted h'"
      "sent (h_rpc h') = sent (h_rpc h) @ [message_new (Peer (h_id h)) (Peer c) (VoteResponse t (h_id h) True)]"
      "backed S h'"
proof (cases h)
  case (Follower r)
  then have a: "follower_apply E I r cmd = Inr h'" using assms(1) by simp
  from a show ?thesis
  proof (rule follower_step_grants)
    assume q: "quiet_to r h'" and b: "backed {rf_id r} h'"
    from quiet_to_handle(3) [OF q] obtain ms where "sent (h_rpc h') = sent (rpc_tx r) @ ms" by blast
    moreover have "has_voted h'" if "has_voted h"
      using voted_follower_step [OF _ a] that Follower by auto
    ultimately show ?thesis
      using quiet_to_handle [OF q] quiet_grants [OF q] b Follower
      by (intro quiet) (auto simp: grants_def intro: backed_mono)
  next
    fix t c last_term hd
    assume "can_vote r last_term hd"
      and "h' = Follower ((push_rpc r (Peer c) (VoteResponse (current_term (rf_state r)) (rf_id r) True))
           \<lparr>rf_state := (rf_state r)\<lparr>voted_for := Some c\<rparr>\<rparr>)"
    then show ?thesis
      using Follower by (intro grant) (auto simp: can_vote_def)
  qed
next
  case (Candidate r)
  then have a: "candidate_apply E I r cmd = Inr h'" and b: "backed S (Candidate r)"
    using assms by simp_all
  note q = candidate_step_quiet [OF a b]
  from quiet_to_handle(3) [OF q(1)] obtain ms where "sent (h_rpc h') = sent (rpc_tx r) @ ms" by blast
  then show ?thesis
    using quiet_to_handle [OF q(1)] quiet_grants [OF q(1)] q(2) Candidate
    by (intro quiet) (auto simp: grants_def)
next
  case (Leader r)
  then obtain r' where r': "h' = Leader r'" "quiet r r'"
    using leader_apply_quiet [of E I r cmd h'] assms(1) by auto
  then have q: "quiet_to r h'" by simp
  from quiet_to_handle(3) [OF q] obtain ms where "sent (h_rpc h') = sent (rpc_tx r) @ ms" by blast
  moreover have "backed S h'"
    using assms(2) r' Leader quiet_voter_list [OF r'(2)] by simp
  ultimately show ?thesis
    using quiet_to_handle [OF q] quiet_grants [OF q] Leader
    by (intro quiet) (auto simp: grants_def intro: backed_mono)
qed

lemma vote_ok_step:
  assumes "vote_ok h" and "backed UNIV h" and "handle_apply E I h cmd = Inr h'"
  shows "vote_ok h' \<and> backed UNIV h'"
  using assms(3,2)
proof (cases rule: handle_step_cases)
  case (quiet ms)
  with assms(1) show ?thesis by (auto simp: vote_ok_def intro: backed_mono)
next
  case (grant c t)
  then have "grants h = []" using assms(1) by (auto simp: vote_ok_def)
  with grant have "grants h' = [message_new (Peer (h_id h)) (Peer c) (VoteResponse t (h_id h) True)]"
    by (simp add: grants_def message_new_def)
  with grant show ?thesis by (simp add: vote_ok_def)
qed

section \<open>Runs of a node\<close>

interpretation node_votes: step_system "node_step E" "\<lambda>h. vote_ok h \<and> backed UNIV h" "\<lambda>e. True"
  for E :: "'db ext"
  by unfold_locales (auto simp: node_step_def dest: vote_ok_step)

lemma voted_step:
  assumes "has_voted h" and "handle_apply E I h cmd = Inr h'"
  shows "has_voted h'"
  using assms by (cases h) (auto dest: voted_follower_step [rotated])

interpretation node_voted: step_system "node_step E" has_voted "\<lambda>e. True" for E :: "'db ext"
  by unfold_locales (auto simp: node_step_def dest: voted_step)

lemma handle_apply_inv:
  assumes "handle_ok E h" and "cmd_ok cmd" and "handle_apply E I h cmd = Inr h'"
  shows "handle_ok E h'"
proof (cases h)
  case (Leader r)
  then obtain r' where "h' = Leader r'"
    using leader_apply_quiet [of E I r cmd h'] assms(3) by auto
  then show ?thesis using assms Leader leader_apply_inv [of E r cmd I r'] by simp
qed (use assms in \<open>auto intro: follower_apply_inv candidate_apply_inv\<close>)

interpretation node_inv: step_system "node_step E" "handle_ok E" "\<lambda>e. cmd_ok (snd e)"
  for E :: "'db ext"
  by unfold_locales (auto simp: node_step_def dest: handle_apply_inv)

section \<open>Opening a node\<close>

lemma follower_new_ok:
  assumes "config_validate config = Inr ()" and "chain_new E opened = Inr c" and "chain_ok E c"
  obtains r where "handle_new E I opened config rtx ftx = Inr (Follower r)"
    "handle_ok E (Follower r)" "rf_id r = rc_id config" "rf_config r = config" "rf_chain r = c"
    "voted_for (rf_state r) = None" "current_term (rf_state r) = 0" "rpc_tx r = rtx" "fsm_tx r = ftx"
proof -
  let ?r = "\<lparr>rf_id = rc_id config, rf_config = config, rf_state = state_default,
        rf_role = \<lparr>fl_leader_id = None, fl_proxied_reqs = {}, fl_queued_reqs = []\<rparr>,
        rf_chain = c, rpc_tx = rtx, fsm_tx = ftx\<rparr>"
  have t: "timeouts_ok ?r" by (simp add: timeouts_ok_def state_default_def)
  have "handle_new E I opened config rtx ftx = Inr (Follower (?r\<lparr>rf_state := (rf_state ?r)\<lparr>election_timeout :=
      Some (from_millis (rng I (min_election_timeout (rf_state ?r)) (max_election_timeout (rf_state ?r)))),
    election_time := Some (now I)\<rparr>\<rparr>))"
    using assms(1,2) by (simp add: handle_new_def follower_new_def follower_init_def
        set_election_timeout_eq [OF t])
  then show ?thesis
    by (rule that) (use t assms(3) in \<open>simp_all add: timeouts_ok_def state_default_def\<close>)
qed

section \<open>A cluster of one node\<close>

lemma lone_committed:
  assumes "leader_ok E r" and "cluster_ids r = {n}" and "head_of (ld_progress (rf_role r)) n = Some h"
  shows "committed_index (ld_progress (rf_role r)) = Inr h"
proof -
  obtain q where q: "committed_index (ld_progress (rf_role r)) = Inr q"
    using committed_index_ok [OF leader_okD(2) [OF assms(1)]] by blast
  obtain m where m: "head_of (ld_progress (rf_role r)) m = Some q"
    by (rule committed_index_head [OF assms(1) q])
  then have "m = n" using leader_okD(3) [OF assms(1)] assms(2) by auto
  with m q assms(3) show ?thesis by simp
qed

lemma lone_follower_elected:
  assumes "handle_ok E (Follower r)" and "rc_nodes (rf_config r) = []"
    and "voted_for (rf_state r) = None" and "rx_alive (rpc_tx r)"
    and "unat (current_term (rf_state r)) + 1 < 2 ^ 64"
  obtains l where "handle_apply E I (Follower r) Timeout = Inr (Leader l)"
    "leader_ok E l" "rf_id l = rf_id r" "rf_config l = rf_config r" "rf_chain l = rf_chain r"
    "fsm_tx l = fsm_tx r" "head_of (ld_progress (rf_role l)) = [rf_id r \<mapsto> BlockId_new 0]"
    "current_term (rf_state l) = current_term (rf_state r) + 1"
    "sent (rpc_tx l) = sent (rpc_tx r) @ [message_new (Peer (rf_id r)) Peers
       (Heartbeat (current_term (rf_state r) + 1) (get_commit (rf_chain r)) (rf_id r))]"
    "rx_alive (rpc_tx l)"
proof -
  have t: "timeouts_ok r" using assms(1) by simp
  let ?r = "r\<lparr>rf_state := (rf_state r)\<lparr>election_timeout :=
      Some (from_millis (rng I (min_election_timeout (rf_state r)) (max_election_timeout (rf_state r)))),
    election_time := Some (now I)\<rparr>\<rparr>"
  let ?c0 = "candidate_from_follower ?r"
  let ?c1 = "?c0\<lparr>rf_state := (rf_state ?c0)\<lparr>voted_for := Some (rf_id r),
    current_term := current_term (rf_state r) + 1\<rparr>\<rparr>"
  let ?c = "?c1\<lparr>rf_role := (rf_role ?c1)\<lparr>cd_election :=
    election_vote (cd_election (rf_role ?c1)) (rf_id r) True\<rparr>\<rparr>"
  have won: "election_status (cd_election (rf_role ?c)) = Elected"
    using assms(2)
    by (simp add: candidate_from_follower_def election_status_def quorum_size_def Let_def split_beta)
  have "follower_apply E I r Timeout = candidate_elect I ?c"
    using assms(2,3,5) won
    by (simp add: follower_apply_timeout_def set_election_timeout_eq [OF t] seek_election_def
        add_u64_def candidate_apply_vote_response_def candidate_from_follower_def)
  moreover have "rx_alive (rpc_tx ?c)" using assms(4) by (simp add: candidate_from_follower_def)
  then obtain P where P: "rp_ok P"
    "\<And>n. head_of P n = (if n \<in> set (voter_list ?c) then Some (BlockId_new 0) else None)"
    "candidate_elect I ?c = Inr (Leader (push_rpc
       (with_role ?c \<lparr>ld_progress = P, ld_heartbeat_time = now I,
          ld_heartbeat_timeout = rc_heartbeat_timeout (rf_config ?c)\<rparr>)
       Peers (Heartbeat (current_term (rf_state ?c)) (get_commit (rf_chain ?c)) (rf_id ?c))))"
    by (rule candidate_elect_ok [of ?c I]) blast
  ultimately have step: "handle_apply E I (Follower r) Timeout = Inr (Leader (push_rpc
       (with_role ?c \<lparr>ld_progress = P, ld_heartbeat_time = now I,
          ld_heartbeat_timeout = rc_heartbeat_timeout (rf_config ?c)\<rparr>)
       Peers (Heartbeat (current_term (rf_state ?c)) (get_commit (rf_chain ?c)) (rf_id ?c))))" by simp
  have head: "head_of P = [rf_id r \<mapsto> BlockId_new 0]"
    using assms(2) by (auto simp: P(2) fun_eq_iff voter_list_def candidate_from_follower_def)
  show ?thesis
    using step
  proof (rule that)
    show "leader_ok E (push_rpc
       (with_role ?c \<lparr>ld_progress = P, ld_heartbeat_time = now I,
          ld_heartbeat_timeout = rc_heartbeat_timeout (rf_config ?c)\<rparr>)
       Peers (Heartbeat (current_term (rf_state ?c)) (get_commit (rf_chain ?c)) (rf_id ?c)))"
      using handle_apply_inv [OF assms(1) _ step] by simp
  qed (use assms(4) in \<open>simp_all add: head candidate_from_follower_def\<close>)
qed


section \<open>Properties of a node\<close>

text \<open>
  A node grants at most one vote in its whole life, whatever it is sent, and once it has granted
  it, it is a follower that has voted.
\<close>

lemma single_vote:
  assumes "grants h = []" and "backed UNIV h" and "run_steps (node_step E) h es = Inr h'"
  shows "length (grants h') \<le> 1 \<and> (grants h' = [] \<or> has_voted h')"
proof -
  have "vote_ok h \<and> backed UNIV h" using assms(1,2) by (simp add: vote_ok_def)
  then have "vote_ok h' \<and> backed UNIV h'" by (rule node_votes.run_inv [OF _ _ assms(3)]) simp
  then show ?thesis by (auto simp: vote_ok_def)
qed

text \<open>
  (C30) A follower that has voted, or has accepted a leader, stays a follower for ever: no sequence of
  ticks, timeouts and messages makes it stand for election, so it never replaces a leader that is
  gone.
\<close>

theorem voted_follower_stays:
  assumes "voted_for (rf_state r) \<noteq> None" and "run_steps (node_step E) (Follower r) es = Inr h'"
  shows "\<exists>r'. h' = Follower r' \<and> voted_for (rf_state r') \<noteq> None"
proof -
  have "has_voted (Follower r)" using assms(1) by simp
  then have "has_voted h'" by (rule node_voted.run_inv [OF _ _ assms(2)]) simp
  then show ?thesis by (cases h') auto
qed

text \<open>
  A cluster of one node.  The node elects itself on its first timeout, and a client request is
  then appended, committed and handed to the state machine within the same step: the registration of
  the client comes first, and the block with the proposed data is the last one applied.
\<close>

lemma single_node_serves:
  assumes "handle_ok E (Follower r)" and "rc_nodes (rf_config r) = []"
    and "voted_for (rf_state r) = None" and "rx_alive (rpc_tx r)" and "rx_alive (fsm_tx r)"
    and "unat (current_term (rf_state r)) + 1 < 2 ^ 64"
    and "chain_block E (rf_chain r) genesis \<noteq> None"
    and "get_head (rf_chain r) < i" and "get_commit (rf_chain r) < i"
    and "i = BlockId_new (ch_id_gen (rf_chain r))" and "bid_bytes i < commit_key"
  shows "\<exists>l l' bs. handle_apply E I (Follower r) Timeout = Inr (Leader l)
    \<and> handle_apply E J (Leader l) (ClientRequest req) = Inr (Leader l')
    \<and> get_commit (rf_chain l') = i
    \<and> sent (fsm_tx l') = sent (fsm_tx r) @ Notify (cr_id req) (cr_address req) i
        # map Apply (bs @ [\<lparr>blk_id = i, blk_next = get_head (rf_chain r),
            blk_data = proposal_get (cr_proposal req)\<rparr>])"
proof -
  obtain l where l: "handle_apply E I (Follower r) Timeout = Inr (Leader l)"
    "leader_ok E l" "rf_id l = rf_id r" "rf_config l = rf_config r" "rf_chain l = rf_chain r"
    "fsm_tx l = fsm_tx r" "head_of (ld_progress (rf_role l)) = [rf_id r \<mapsto> BlockId_new 0]"
    by (rule lone_follower_elected [OF assms(1-4,6)])
  have small: "bid_bytes genesis < commit_key" by code_simp
  have hs: "heads_stored E l"
    using l(5,7) assms(7) small by (simp add: heads_stored_def genesis_def)
  have pre: "rx_alive (fsm_tx l)" "get_head (rf_chain l) < i" "i = BlockId_new (ch_id_gen (rf_chain l))"
    using l(5,6) assms(5,8,10) by simp_all
  obtain l' q bs where l': "leader_apply E J l (ClientRequest req) = Inr (Leader l')" "leader_ok E l'"
    "chain_block E (rf_chain l') = (chain_block E (rf_chain l))(i \<mapsto>
        \<lparr>blk_id = i, blk_next = get_head (rf_chain l), blk_data = proposal_get (cr_proposal req)\<rparr>)"
    "head_of (ld_progress (rf_role l')) = (head_of (ld_progress (rf_role l)))(rf_id l \<mapsto>
       max (the (head_of (ld_progress (rf_role l)) (rf_id l))) i)"
    "committed_index (ld_progress (rf_role l')) = Inr q"
    "get_commit (rf_chain l') = max (get_commit (rf_chain l)) q"
    "sent (fsm_tx l') = sent (fsm_tx l) @ Notify (cr_id req) (cr_address req) i # map Apply bs"
    "sorted_wrt (<) (map blk_id bs)"
    "set bs = {b. \<exists>j. chain_block E (rf_chain l') j = Some b
        \<and> get_commit (rf_chain l) < j \<and> j \<le> get_commit (rf_chain l')}"
    by (rule client_request_ok [OF l(2) hs pre assms(11)])
  have "genesis \<le> i" using assms(10) by (simp add: genesis_def)
  then have head: "head_of (ld_progress (rf_role l')) (rf_id r) = Some i"
    using l'(4) l(3,7) by (simp add: max_def genesis_def)
  have "dom (head_of (ld_progress (rf_role l'))) = {rf_id r}"
    using l'(4) l(3,7) by auto
  then have "cluster_ids l' = {rf_id r}" using leader_okD(3) [OF l'(2)] by simp
  then have "q = i" using lone_committed [OF l'(2) _ head] l'(5) by simp
  then have commit: "get_commit (rf_chain l') = i"
    using l'(6) l(5) assms(9) by (simp add: max_def less_imp_le)
  let ?b = "\<lparr>blk_id = i, blk_next = get_head (rf_chain r), blk_data = proposal_get (cr_proposal req)\<rparr>"
  have "?b \<in> set bs"
    unfolding l'(9) commit using l'(3) l(5) assms(9) by auto
  then have "bs \<noteq> []" and "i \<le> blk_id (last bs)"
    using sorted_le_last [OF l'(8), of ?b] by auto
  moreover from this(1) have "last bs \<in> set bs" by simp
  ultimately have "blk_id (last bs) = i" and "chain_block E (rf_chain l') (blk_id (last bs)) = Some (last bs)"
    unfolding l'(9) commit using chain_block_id(1) [OF leader_okD(1) [OF l'(2)]] by auto
  then have "last bs = ?b" using l'(3) l(5) by simp
  then have "bs = butlast bs @ [?b]" using \<open>bs \<noteq> []\<close> by (metis append_butlast_last_id)
  then show ?thesis
    using l(1,6) l'(1,7) commit by (intro exI [of _ l] exI [of _ l'] exI [of _ "butlast bs"]) simp
qed

section \<open>The properties at a concrete node\<close>

theorem voted_follower_stays_witness:
  "\<exists>r r' :: (tree, follower) raft. voted_for (rf_state r) = Some 1
    \<and> run_steps (node_step tree_ext) (Follower r) [(demo_input 5, Timeout)] = Inr (Follower r')"
proof -
  let ?r = "(demo_follower tree_chain)\<lparr>rf_state := state_default\<lparr>voted_for := Some 1\<rparr>\<rparr>"
  have run: "run_steps (node_step tree_ext) (Follower ?r) [(demo_input 5, Timeout)] = Inr (Follower ?r)"
    by (simp add: node_step_def follower_apply_timeout_def)
  have "voted_for (rf_state ?r) \<noteq> None" by simp
  from voted_follower_stays [OF this run] run show ?thesis
    by (intro exI [of _ ?r]) auto
qed

end
