(* ===== verification/Cluster.thy ===== *)
theory Cluster
  imports Raft_Handle
begin

text \<open>
  A cluster of raft nodes.  Every message ever put on a node's outgoing channel can be delivered to a
  node it is addressed to, at any time, any number of times and in any order, so messages may be
  lost, repeated and reordered; a node may stop at any moment, in particular when a step fails, and
  is not started again.  The routing is that of \<^verbatim>\<open>raft/tcp.rs\<close>: \<^verbatim>\<open>Address::Peers\<close> reaches every other
  node of the configuration, \<^verbatim>\<open>Address::Peer\<close> one of them.
\<close>

section \<open>Steps\<close>

record 'db cluster =
  cl_node :: "node_id \<Rightarrow> 'db raft_handle"
  cl_up :: "node_id \<Rightarrow> bool"

text \<open>What a node is given by its own clock, its clients and its state machine driver.\<close>

fun local_command :: "command \<Rightarrow> bool" where
  "local_command Tick = True"
| "local_command (ClientRequest req) = True"
| "local_command (ClientResponse res) = True"
| "local_command cmd = False"

definition addressed :: "message \<Rightarrow> node_id \<Rightarrow> node_id \<Rightarrow> bool" where
  "addressed m j i \<longleftrightarrow> msg_to m = Peer i \<or> (msg_to m = Peers \<and> i \<noteq> j)"

inductive cluster_step :: "'db ext \<Rightarrow> node_id list \<Rightarrow> 'db cluster \<Rightarrow> 'db cluster \<Rightarrow> bool"
  for E and ids where
  deliver: "i \<in> set ids \<Longrightarrow> j \<in> set ids \<Longrightarrow> cl_up s i \<Longrightarrow> m \<in> set (sent (h_rpc (cl_node s j))) \<Longrightarrow>
    addressed m j i \<Longrightarrow> handle_apply E I (cl_node s i) (msg_command m) = Inr h \<Longrightarrow>
    cluster_step E ids s (s\<lparr>cl_node := (cl_node s)(i := h)\<rparr>)"
| local: "i \<in> set ids \<Longrightarrow> cl_up s i \<Longrightarrow> local_command cmd \<Longrightarrow>
    handle_apply E I (cl_node s i) cmd = Inr h \<Longrightarrow>
    cluster_step E ids s (s\<lparr>cl_node := (cl_node s)(i := h)\<rparr>)"
| crash: "cluster_step E ids s (s\<lparr>cl_up := (cl_up s)(i := False)\<rparr>)"

inductive_cases cluster_stepE: "cluster_step E ids s s'"

definition voters_of :: "'db raft_handle \<Rightarrow> node_id list" where
  "voters_of h = map nd_id (rc_nodes (h_config h)) @ [h_id h]"

text \<open>
  Every node starts as a follower that has sent nothing, under its own identifier, and its
  configuration lists the other nodes of the cluster.
\<close>

definition cluster_init :: "node_id list \<Rightarrow> 'db cluster \<Rightarrow> bool" where
  "cluster_init ids s \<longleftrightarrow> (\<forall>i \<in> set ids. is_follower (cl_node s i) \<and> h_id (cl_node s i) = i
     \<and> sent (h_rpc (cl_node s i)) = []
     \<and> distinct (voters_of (cl_node s i)) \<and> set (voters_of (cl_node s i)) = set ids)"

section \<open>Invariant\<close>

text \<open>The nodes that have granted their vote to \<open>i\<close>.\<close>

definition granted_to :: "node_id list \<Rightarrow> 'db cluster \<Rightarrow> node_id \<Rightarrow> node_id set" where
  "granted_to ids s i = {v \<in> set ids. \<exists>m \<in> set (grants (cl_node s v)). msg_to m = Peer i}"

definition own_grants :: "'db raft_handle \<Rightarrow> bool" where
  "own_grants h \<longleftrightarrow> (\<forall>m \<in> set (grants h).
     \<exists>c t. m = message_new (Peer (h_id h)) (Peer c) (VoteResponse t (h_id h) True))"

definition node_ok :: "node_id list \<Rightarrow> node_id \<Rightarrow> 'db raft_handle \<Rightarrow> bool" where
  "node_ok ids i h \<longleftrightarrow> h_id h = i \<and> distinct (voters_of h) \<and> set (voters_of h) = set ids
     \<and> vote_ok h \<and> own_grants h"

definition cluster_inv :: "node_id list \<Rightarrow> 'db cluster \<Rightarrow> bool" where
  "cluster_inv ids s \<longleftrightarrow> (\<forall>i \<in> set ids. node_ok ids i (cl_node s i)
     \<and> backed (insert i (granted_to ids s i)) (cl_node s i))"

lemma cluster_init_inv: "cluster_init ids s \<Longrightarrow> cluster_inv ids s"
proof -
  assume init: "cluster_init ids s"
  have "grants (cl_node s i) = []" if "i \<in> set ids" for i
    using init that by (simp add: cluster_init_def grants_def)
  moreover have "backed S (cl_node s i)" if "i \<in> set ids" for S i
    using init that by (cases "cl_node s i") (auto simp: cluster_init_def)
  ultimately show "cluster_inv ids s"
    using init by (simp add: cluster_inv_def cluster_init_def node_ok_def vote_ok_def own_grants_def)
qed

text \<open>One step of one node that counts only votes granted to it.\<close>

lemma node_step_ok:
  assumes "node_ok ids i h" and "backed S h" and "handle_apply E I h cmd = Inr h'"
  shows "node_ok ids i h'" and "backed (insert i (S \<union> cmd_votes cmd)) h'"
    and "set (grants h) \<subseteq> set (grants h')"
proof -
  have "node_ok ids i h' \<and> backed (insert i (S \<union> cmd_votes cmd)) h' \<and> set (grants h) \<subseteq> set (grants h')"
    using assms(3,2)
  proof (cases rule: handle_step_cases)
    case (quiet ms)
    with assms(1) show ?thesis
      by (auto simp: node_ok_def voters_of_def vote_ok_def own_grants_def)
  next
    case (grant c t)
    then have none: "grants h = []" using assms(1) by (auto simp: node_ok_def vote_ok_def)
    with grant have "grants h' = [message_new (Peer (h_id h)) (Peer c) (VoteResponse t (h_id h) True)]"
      by (simp add: grants_def message_new_def)
    with grant none assms(1) show ?thesis
      by (auto simp: node_ok_def voters_of_def vote_ok_def own_grants_def intro: backed_mono)
  qed
  then show "node_ok ids i h'" and "backed (insert i (S \<union> cmd_votes cmd)) h'"
    and "set (grants h) \<subseteq> set (grants h')" by simp_all
qed

lemma cluster_inv_update:
  assumes "cluster_inv ids s" and "i \<in> set ids" and "handle_apply E I (cl_node s i) cmd = Inr h"
    and "cmd_votes cmd \<subseteq> granted_to ids s i"
  shows "cluster_inv ids (s\<lparr>cl_node := (cl_node s)(i := h)\<rparr>)"
proof -
  let ?s = "s\<lparr>cl_node := (cl_node s)(i := h)\<rparr>"
  have i: "node_ok ids i (cl_node s i)" "backed (insert i (granted_to ids s i)) (cl_node s i)"
    using assms(1,2) by (simp_all add: cluster_inv_def)
  note step = node_step_ok [OF i assms(3)]
  have mono: "granted_to ids s k \<subseteq> granted_to ids ?s k" for k
    using step(3) by (auto simp: granted_to_def)
  have "backed (insert k (granted_to ids ?s k)) (cl_node ?s k)" if "k \<in> set ids" for k
  proof (cases "k = i")
    case True
    have "insert i (insert i (granted_to ids s i) \<union> cmd_votes cmd) \<subseteq> insert i (granted_to ids ?s i)"
      using mono [of i] assms(4) by blast
    with step(2) True show ?thesis by (simp add: backed_mono)
  next
    case False
    have "backed (insert k (granted_to ids s k)) (cl_node s k)"
      using assms(1) that by (simp add: cluster_inv_def)
    with False mono [of k] show ?thesis by (auto intro: backed_mono)
  qed
  then show ?thesis
    using assms(1) step(1) by (auto simp: cluster_inv_def)
qed

lemma delivered_votes:
  assumes "cluster_inv ids s" and "j \<in> set ids" and "m \<in> set (sent (h_rpc (cl_node s j)))"
    and "addressed m j i"
  shows "cmd_votes (msg_command m) \<subseteq> granted_to ids s i"
proof (cases "is_grant (msg_command m)")
  case True
  then have m: "m \<in> set (grants (cl_node s j))" using assms(3) by (simp add: grants_def)
  have "node_ok ids j (cl_node s j)" using assms(1,2) by (simp add: cluster_inv_def)
  then obtain c t where "m = message_new (Peer j) (Peer c) (VoteResponse t j True)"
    using m by (auto simp: node_ok_def own_grants_def)
  with m assms(2,4) show ?thesis
    by (auto simp: granted_to_def addressed_def message_new_def intro!: bexI [OF _ m])
next
  case False
  then have "cmd_votes (msg_command m) = {}"
    by (cases "msg_command m") auto
  then show ?thesis by simp
qed

lemma cluster_step_inv:
  assumes "cluster_inv ids s" and "cluster_step E ids s s'"
  shows "cluster_inv ids s'"
  using assms(2)
proof (cases rule: cluster_step.cases)
  case (deliver i j m I h)
  then show ?thesis
    using cluster_inv_update [OF assms(1)] delivered_votes [OF assms(1)] by blast
next
  case (local i cmd I h)
  have "cmd_votes cmd = {}" using local(4) by (cases cmd) auto
  then show ?thesis using cluster_inv_update [OF assms(1)] local by auto
next
  case (crash i)
  with assms(1) show ?thesis by (simp add: cluster_inv_def granted_to_def)
qed

lemma cluster_reachable_inv:
  assumes "rtranclp (cluster_step E ids) s s'" and "cluster_inv ids s"
  shows "cluster_inv ids s'"
  using assms by (induction rule: rtranclp_induct) (auto intro: cluster_step_inv)

section \<open>Leaders\<close>

lemma leader_elected:
  assumes "cluster_inv ids s" and "distinct ids" and "1 < length ids" and "i \<in> set ids"
    and "is_leader (cl_node s i)"
  obtains Q where "elects ids Q" "Q \<subseteq> insert i (granted_to ids s i)"
proof -
  obtain r where r: "cl_node s i = Leader r" using assms(5) by (cases "cl_node s i") auto
  have "backed (insert i (granted_to ids s i)) (cl_node s i)"
    using assms(1,4) by (simp add: cluster_inv_def)
  with r obtain Q where Q: "Q \<subseteq> insert i (granted_to ids s i)"
      "quorum_size (election_new (voter_list r)) \<le> card Q"
    by auto
  have "node_ok ids i (cl_node s i)" using assms(1,4) by (simp add: cluster_inv_def)
  moreover have "voters_of (cl_node s i) = voter_list r"
    by (simp add: r voters_of_def voter_list_def)
  ultimately have "distinct (voter_list r)" "set (voter_list r) = set ids"
    by (simp_all add: node_ok_def)
  then have "length (voter_list r) = length ids" using assms(2) by (metis distinct_card)
  then have "elects ids Q"
    using Q assms(2-4) by (auto simp: elects_def quorum_size_def granted_to_def)
  with Q(1) show ?thesis by (rule that [rotated])
qed

lemma grant_unique:
  assumes "cluster_inv ids s" and "v \<in> granted_to ids s a" and "v \<in> granted_to ids s b"
  shows "a = b"
proof -
  have v: "v \<in> set ids" using assms(2) by (simp add: granted_to_def)
  then have "length (grants (cl_node s v)) \<le> 1"
    using assms(1) by (simp add: cluster_inv_def node_ok_def vote_ok_def)
  then have same: "m = m'" if "m \<in> set (grants (cl_node s v))" "m' \<in> set (grants (cl_node s v))"
    for m m'
    using that by (cases "grants (cl_node s v)") auto
  obtain m m' where "m \<in> set (grants (cl_node s v))" "msg_to m = Peer a"
    "m' \<in> set (grants (cl_node s v))" "msg_to m' = Peer b"
    using assms(2,3) by (auto simp: granted_to_def)
  then show ?thesis using same [of m m'] by simp
qed

lemma leader_grants_nothing:
  assumes "cluster_inv ids s" and "i \<in> set ids" and "is_leader (cl_node s i)"
  shows "i \<notin> granted_to ids s k"
proof
  assume "i \<in> granted_to ids s k"
  then have "grants (cl_node s i) \<noteq> []" by (auto simp: granted_to_def)
  then have "has_voted (cl_node s i)"
    using assms(1,2) by (simp add: cluster_inv_def node_ok_def vote_ok_def)
  with assms(3) show False by (cases "cl_node s i") auto
qed

lemma leaders_agree:
  assumes "cluster_inv ids s" and "distinct ids" and "1 < length ids"
    and "i \<in> set ids" and "j \<in> set ids" and "is_leader (cl_node s i)" and "is_leader (cl_node s j)"
  shows "i = j"
proof -
  obtain P where P: "elects ids P" "P \<subseteq> insert i (granted_to ids s i)"
    by (rule leader_elected [OF assms(1-4,6)])
  obtain Q where Q: "elects ids Q" "Q \<subseteq> insert j (granted_to ids s j)"
    by (rule leader_elected [OF assms(1-3,5,7)])
  let ?chose = "\<lambda>v x. x \<in> {i, j} \<and> v \<in> insert x (granted_to ids s x)"
  show ?thesis
  proof (rule voters.unique_choice [OF P(1) Q(1), where chose = ?chose])
    fix v x y
    assume "?chose v x" and "?chose v y"
    then show "x = y"
      using grant_unique [OF assms(1)] leader_grants_nothing [OF assms(1)] assms(4-7) by blast
  qed (use P(2) Q(2) in auto)
qed

lemma leader_stays:
  assumes "cluster_step E ids s s'" and "is_leader (cl_node s i)"
  shows "is_leader (cl_node s' i)"
proof -
  have keep: "is_leader h" if "handle_apply E I (cl_node s k) cmd = Inr h" "is_leader (cl_node s k)"
    for I k cmd h
    using that leader_apply_quiet by (cases "cl_node s k") fastforce+
  show ?thesis
    using assms by (cases rule: cluster_step.cases) (auto intro: keep)
qed

lemma leader_stays_on:
  assumes "rtranclp (cluster_step E ids) s s'" and "is_leader (cl_node s i)"
  shows "is_leader (cl_node s' i)"
  using assms by (induction rule: rtranclp_induct) (auto intro: leader_stays)

section \<open>Properties of the cluster\<close>

text \<open>
  (C1) Election safety.  However messages are delayed, lost, repeated and reordered and whichever
  nodes stop, a cluster of at least two nodes never has two leaders: if a node is leader at one
  moment and a node is leader at that or any later moment, they are the same node.  The claim holds
  across terms, because a vote, once granted, is never given to another candidate.
\<close>

theorem one_leader_ever:
  assumes "cluster_init ids s0" and "distinct ids" and "1 < length ids"
    and "rtranclp (cluster_step E ids) s0 s" and "rtranclp (cluster_step E ids) s s'"
    and "i \<in> set ids" and "j \<in> set ids"
    and "is_leader (cl_node s i)" and "is_leader (cl_node s' j)"
  shows "i = j"
proof -
  have "rtranclp (cluster_step E ids) s0 s'" using assms(4,5) by (rule rtranclp_trans)
  then have inv: "cluster_inv ids s'"
    using cluster_init_inv [OF assms(1)] by (rule cluster_reachable_inv)
  have "is_leader (cl_node s' i)" using assms(5,8) by (rule leader_stays_on)
  then show ?thesis using leaders_agree [OF inv assms(2,3,6,7)] assms(9) by blast
qed


section \<open>An election of three nodes\<close>

text \<open>
  Node 1 times out and asks for votes, node 2 receives the request and grants its vote, and node 1
  receives the vote and becomes leader.
\<close>

definition demo_member :: "node_id \<Rightarrow> node_id list \<Rightarrow> tree raft_handle" where
  "demo_member i peers = Follower ((demo_raft i peers
     \<lparr>fl_leader_id = None, fl_proxied_reqs = {}, fl_queued_reqs = []\<rparr> tree_chain)
     \<lparr>rf_state := state_default\<lparr>election_time := Some 0, election_timeout := Some 0\<rparr>\<rparr>)"

definition demo_cluster :: "tree cluster" where
  "demo_cluster = \<lparr>cl_node = (\<lambda>i. if i = 1 then demo_member 1 [2, 3]
       else if i = 2 then demo_member 2 [1, 3] else demo_member 3 [1, 2]), cl_up = (\<lambda>i. True)\<rparr>"

definition vote_request :: message where
  "vote_request = message_new (Peer 1) Peers (VoteRequest 1 1 1 genesis)"

definition vote_granted :: message where
  "vote_granted = message_new (Peer 2) (Peer 1) (VoteResponse 0 2 True)"

definition asking :: "tree raft_handle" where
  "asking = projr (handle_apply tree_ext (demo_input 9) (demo_member 1 [2, 3]) Tick)"

definition voting :: "tree raft_handle" where
  "voting = projr (handle_apply tree_ext (demo_input 9) (demo_member 2 [1, 3]) (msg_command vote_request))"

definition elected :: "tree raft_handle" where
  "elected = projr (handle_apply tree_ext (demo_input 9) asking (msg_command vote_granted))"

lemmas demo_eval = demo_member_def demo_input_def demo_config_def state_default_def
  follower_apply_tick_def follower_apply_timeout_def set_election_timeout_def
  get_randomized_timeout_def seek_election_def add_u64_def candidate_apply_vote_response_def
  candidate_from_follower_def election_vote_def election_status_def quorum_size_def count_votes_def
  raft_send_eq raft_send_all_eq needs_election_def follower_apply_vote_request_def can_vote_def
  candidate_elect_def leader_from_candidate_def leader_on_transition_def leader_heartbeat_def
  rp_new_def get_head_def get_commit_def tree_chain_facts from_millis_def

lemma Inr_projr: "\<not> isl x \<Longrightarrow> x = Inr (projr x)"
  by (cases x) auto

lemma election_steps:
  "handle_apply tree_ext (demo_input 9) (demo_member 1 [2, 3]) Tick = Inr asking"
  "handle_apply tree_ext (demo_input 9) (demo_member 2 [1, 3]) (msg_command vote_request) = Inr voting"
  "handle_apply tree_ext (demo_input 9) asking (msg_command vote_granted) = Inr elected"
  unfolding asking_def voting_def elected_def
  by (rule Inr_projr, simp add: demo_eval vote_request_def vote_granted_def message_new_def)+

lemma election_messages:
  "vote_request \<in> set (sent (h_rpc asking))" "vote_granted \<in> set (sent (h_rpc voting))"
  "is_leader elected"
  by (simp_all add: demo_eval vote_request_def vote_granted_def message_new_def
      asking_def voting_def elected_def)

definition elected_cluster :: "tree cluster" where
  "elected_cluster = demo_cluster\<lparr>cl_node := (cl_node demo_cluster)(1 := elected, 2 := voting)\<rparr>"

lemma demo_cluster_init: "cluster_init [1, 2, 3] demo_cluster"
  by (auto simp: cluster_init_def demo_cluster_def demo_member_def voters_of_def)

lemma demo_election: "rtranclp (cluster_step tree_ext [1, 2, 3]) demo_cluster elected_cluster"
proof -
  let ?ids = "[1, 2, 3] :: node_id list"
  let ?s1 = "demo_cluster\<lparr>cl_node := (cl_node demo_cluster)(1 := asking)\<rparr>"
  let ?s2 = "?s1\<lparr>cl_node := (cl_node ?s1)(2 := voting)\<rparr>"
  let ?s3 = "?s2\<lparr>cl_node := (cl_node ?s2)(1 := elected)\<rparr>"
  have "cluster_step tree_ext ?ids demo_cluster ?s1"
    by (rule cluster_step.local [where cmd = Tick and I = "demo_input 9"])
      (simp_all add: demo_cluster_def election_steps)
  moreover have "cluster_step tree_ext ?ids ?s1 ?s2"
    by (rule cluster_step.deliver [where j = 1 and m = vote_request and I = "demo_input 9"])
      (simp_all add: demo_cluster_def election_steps election_messages addressed_def,
        simp add: vote_request_def message_new_def)
  moreover have "cluster_step tree_ext ?ids ?s2 ?s3"
    by (rule cluster_step.deliver [where j = 2 and m = vote_granted and I = "demo_input 9"])
      (simp_all add: demo_cluster_def election_steps election_messages addressed_def,
        simp add: vote_granted_def message_new_def)
  moreover have "?s3 = elected_cluster"
    by (simp add: elected_cluster_def fun_upd_twist)
  ultimately show ?thesis by (metis (no_types) rtranclp.rtrancl_into_rtrancl rtranclp.rtrancl_refl)
qed

theorem one_leader_ever_witness:
  "is_leader (cl_node elected_cluster 1) \<and> \<not> is_leader (cl_node elected_cluster 2)"
proof -
  have lead: "is_leader (cl_node elected_cluster 1)"
    by (simp add: elected_cluster_def election_messages)
  have "\<not> is_leader (cl_node elected_cluster 2)"
  proof
    assume "is_leader (cl_node elected_cluster 2)"
    then have "1 = (2 :: node_id)"
      using lead by (intro one_leader_ever [OF demo_cluster_init _ _ demo_election rtranclp.rtrancl_refl])
        simp_all
    then show False by simp
  qed
  with lead show ?thesis by simp
qed

end
