(* ===== verification/Replication_Run.thy ===== *)
theory Replication_Run
  imports Cluster
begin

text \<open>
  A run of the cluster of three nodes, evaluated step by step: an election, a request of a client, and the
  replication and commit of its block.
\<close>

section \<open>The run\<close>

text \<open>
  After the election of the cluster above node 1 takes a request of a client and sends the new block with
  its next tick; node 2 stores it, and its acknowledgement makes node 1 commit and apply it.
\<close>

definition demo_request :: client_request where
  "demo_request = \<lparr>cr_id = 5, cr_address = Client, cr_proposal = Proposal [7]\<rparr>"

definition demo_entries :: message where
  "demo_entries = message_new (Peer 1) (Peer 2) (AppendEntries 1 1 [one_block])"

definition demo_ack :: message where
  "demo_ack = message_new (Peer 2) (Peer 1) (AppendResponse 2 0 (BlockId_new 1) True)"

definition two_chain :: "tree chain" where
  "two_chain = projr (chain_extend tree_ext tree_chain one_block)"

definition appended :: "tree raft_handle" where
  "appended = projr (handle_apply tree_ext (demo_input 9) elected (ClientRequest demo_request))"

definition sending :: "tree raft_handle" where
  "sending = projr (handle_apply tree_ext (demo_input 9) appended Tick)"

definition storing :: "tree raft_handle" where
  "storing = projr (handle_apply tree_ext (demo_input 9) voting (msg_command demo_entries))"

definition committing :: "tree raft_handle" where
  "committing = projr (handle_apply tree_ext (demo_input 9) sending (msg_command demo_ack))"

lemma demo_ranges:
  "chain_range tree_ext one_chain (incl genesis) Unbounded = [Inr genesis_block, Inr one_block]"
  "chain_range tree_ext one_committed (incl genesis) (Included (to_be_bytes 1)) = [Inr genesis_block, Inr one_block]"
  by code_simp+

lemma two_chain_facts:
  "chain_extend tree_ext tree_chain one_block = Inr two_chain"
  "ch_head two_chain = BlockId_new 1" "ch_commit two_chain = genesis"
proof -
  have "\<not> isl (chain_extend tree_ext tree_chain one_block)" by code_simp
  then show "chain_extend tree_ext tree_chain one_block = Inr two_chain"
    unfolding two_chain_def by (rule Inr_projr)
  show "ch_head two_chain = BlockId_new 1" "ch_commit two_chain = genesis" by code_simp+
qed

lemmas replicate_eval = demo_eval vote_request_def vote_granted_def message_new_def asking_def elected_def voting_def
  demo_request_def leader_apply_client_request_def leader_client_append_def leader_apply_append_response_def
  one_chain_facts one_committed_facts rp_advance_def rp_remove_def leader_commit_def committed_index_def
  chan_send_def demo_raft_def increment_def push_rpc_def with_role_def leader_apply_tick_def write_state_def
  needs_heartbeat_def leader_replicate_def replicate_node_def replicate_blocks_def rp_get_def
  progress_new_def probe_is_active_def demo_ranges
  follower_apply_append_entries_def follower_adopt_leader_def raft_term_follower two_chain_facts
  replicate_from_probe_def Let_def apply_blocks_def chan_send_unwrap_def

lemma genesis_one: "genesis < BlockId_new 1" "genesis \<le> BlockId_new 1" "genesis \<noteq> BlockId_new 1" "\<not> BlockId_new 1 \<le> genesis"
  by (simp_all add: genesis_def)

lemma replication_steps:
  "handle_apply tree_ext (demo_input 9) elected (ClientRequest demo_request) = Inr appended"
  "handle_apply tree_ext (demo_input 9) appended Tick = Inr sending"
  "handle_apply tree_ext (demo_input 9) voting (msg_command demo_entries) = Inr storing"
  "handle_apply tree_ext (demo_input 9) sending (msg_command demo_ack) = Inr committing"
  unfolding appended_def sending_def storing_def committing_def
  by (rule Inr_projr, simp add: replicate_eval genesis_one demo_entries_def demo_ack_def flip: genesis_def)+

lemma replication_messages:
  "demo_entries \<in> set (sent (h_rpc sending))" "demo_ack \<in> set (sent (h_rpc storing))"
  "Apply one_block \<in> set (sent (h_fsm committing))"
  by (simp_all add: appended_def sending_def storing_def committing_def replicate_eval genesis_one
      demo_entries_def demo_ack_def flip: genesis_def)

lemma replication_chains:
  "is_leader committing" "chain_block tree_ext (h_chain storing) (BlockId_new 1) \<noteq> None"
proof -
  show "is_leader committing"
    by (simp add: appended_def sending_def committing_def replicate_eval genesis_one demo_ack_def flip: genesis_def)
  have "h_chain storing = two_chain"
    by (simp add: storing_def replicate_eval genesis_one demo_entries_def flip: genesis_def)
  moreover have "chain_block tree_ext two_chain (BlockId_new 1) \<noteq> None" by code_simp
  ultimately show "chain_block tree_ext (h_chain storing) (BlockId_new 1) \<noteq> None" by simp
qed

definition replicated_cluster :: "tree cluster" where
  "replicated_cluster = demo_cluster\<lparr>cl_node := (cl_node demo_cluster)(1 := committing, 2 := storing)\<rparr>"

lemma demo_replication: "rtranclp (cluster_step tree_ext [1, 2, 3]) demo_cluster replicated_cluster"
proof -
  let ?ids = "[1, 2, 3] :: node_id list"
  let ?s1 = "elected_cluster\<lparr>cl_node := (cl_node elected_cluster)(1 := appended)\<rparr>"
  let ?s2 = "?s1\<lparr>cl_node := (cl_node ?s1)(1 := sending)\<rparr>"
  let ?s3 = "?s2\<lparr>cl_node := (cl_node ?s2)(2 := storing)\<rparr>"
  let ?s4 = "?s3\<lparr>cl_node := (cl_node ?s3)(1 := committing)\<rparr>"
  have up: "cl_up elected_cluster i" for i by (simp add: elected_cluster_def demo_cluster_def)
  have at: "cl_node elected_cluster 1 = elected" "cl_node elected_cluster 2 = voting"
    by (simp_all add: elected_cluster_def)
  have "cluster_step tree_ext ?ids elected_cluster ?s1"
    by (rule cluster_step.local [where cmd = "ClientRequest demo_request" and I = "demo_input 9"])
      (simp_all add: up at replication_steps)
  moreover have "cluster_step tree_ext ?ids ?s1 ?s2"
    by (rule cluster_step.local [where cmd = Tick and I = "demo_input 9"]) (simp_all add: up replication_steps)
  moreover have "cluster_step tree_ext ?ids ?s2 ?s3"
    by (rule cluster_step.deliver [where j = 1 and m = demo_entries and I = "demo_input 9"])
      (simp_all add: up at replication_steps replication_messages addressed_def, simp add: demo_entries_def message_new_def)
  moreover have "cluster_step tree_ext ?ids ?s3 ?s4"
    by (rule cluster_step.deliver [where j = 2 and m = demo_ack and I = "demo_input 9"])
      (simp_all add: up replication_steps replication_messages addressed_def, simp add: demo_ack_def message_new_def)
  moreover have "?s4 = replicated_cluster"
    by (simp add: replicated_cluster_def elected_cluster_def fun_upd_twist)
  ultimately have "rtranclp (cluster_step tree_ext ?ids) elected_cluster replicated_cluster"
    by (metis (no_types) rtranclp.rtrancl_into_rtrancl rtranclp.rtrancl_refl)
  with demo_election show ?thesis by (rule rtranclp_trans)
qed

end
