(* ===== verification/Effects.thy ===== *)
theory Effects
  imports Raft_Handle
begin

text \<open>
  What a command does to the log of a node: to the blocks of its chain, to its commit, to the
  instructions for its state machine, to what a leader knows of the other nodes, and what the
  messages it sends say of its chain.  One lemma for every handler of the three roles.
\<close>

section \<open>What a command says\<close>

text \<open>The blocks a command brings, the head it acknowledges for a node, and the commit it announces.\<close>

fun cmd_blocks :: "command \<Rightarrow> block set" where
  "cmd_blocks (AppendEntries t l bs) = set bs"
| "cmd_blocks cmd = {}"

fun cmd_acks :: "command \<Rightarrow> (node_id \<times> block_id) set" where
  "cmd_acks (AppendResponse n t h s) = {(n, h)}"
| "cmd_acks cmd = {}"

fun cmd_commits :: "command \<Rightarrow> block_id set" where
  "cmd_commits (Heartbeat t c l) = {c}"
| "cmd_commits cmd = {}"

text \<open>A message of node \<open>i\<close> that says nothing of its chain \<open>c\<close> that is not so.\<close>

definition truthful :: "'db ext \<Rightarrow> node_id \<Rightarrow> 'db chain \<Rightarrow> command \<Rightarrow> bool" where
  "truthful E i c cmd \<longleftrightarrow> (\<forall>b \<in> cmd_blocks cmd. chain_block E c (blk_id b) = Some b)
     \<and> (\<forall>(n, h) \<in> cmd_acks cmd. n = i \<and> chain_block E c h \<noteq> None)
     \<and> (\<forall>k \<in> cmd_commits cmd. k \<le> get_commit c)
     \<and> (cmd_blocks cmd = {} \<longrightarrow> cmd_ok cmd)"

lemma truthful_mono:
  assumes "truthful E i c cmd" and "chain_block E c \<subseteq>\<^sub>m chain_block E c'" and "get_commit c \<le> get_commit c'"
  shows "truthful E i c' cmd"
proof -
  have "chain_block E c' k = Some b" if "chain_block E c k = Some b" for k b
    using that assms(2) by (metis domI map_le_def)
  then show ?thesis
    using assms(1,3) unfolding truthful_def by (fastforce intro: order_trans)
qed

section \<open>Candidates\<close>

text \<open>
  A step that leaves chain and state machine alone.  A leader that comes out of it knows nothing of the
  other nodes but the genesis.
\<close>

definition new_leader :: "'db raft_handle \<Rightarrow> bool" where
  "new_leader h \<longleftrightarrow> (\<forall>l n k. h = Leader l \<longrightarrow> head_of (ld_progress (rf_role l)) n = Some k \<longrightarrow> k = genesis)"

definition calm :: "'db ext \<Rightarrow> ('db, 'r) raft \<Rightarrow> 'db raft_handle \<Rightarrow> bool" where
  "calm E r h \<longleftrightarrow> h_chain h = rf_chain r \<and> h_fsm h = fsm_tx r \<and> new_leader h
     \<and> (\<exists>ms. sent (h_rpc h) = sent (rpc_tx r) @ ms
          \<and> (\<forall>m \<in> set ms. truthful E (rf_id r) (rf_chain r) (msg_command m)))"

lemma new_leader_simps [simp]: "new_leader (Follower f)" "new_leader (Candidate c)"
  by (simp_all add: new_leader_def)

lemma calm_via:
  assumes "calm E r' h" and "rf_chain r' = rf_chain r" and "fsm_tx r' = fsm_tx r" and "rf_id r' = rf_id r"
    and "sent (rpc_tx r') = sent (rpc_tx r) @ ms"
    and "\<forall>m \<in> set ms. truthful E (rf_id r) (rf_chain r) (msg_command m)"
  shows "calm E r h"
  using assms by (auto simp: calm_def)

lemma candidate_elect_calm:
  assumes "candidate_elect I r = Inr h" and "chain_ok E (rf_chain r)"
  shows "calm E r h"
proof -
  have "rx_alive (rpc_tx r)"
    using assms(1) by (auto simp: candidate_elect_def leader_from_candidate_def
        leader_on_transition_def leader_heartbeat_def bindE_Inr raft_send_all_Inr)
  then show ?thesis
    by (rule candidate_elect_ok [of r I])
      (use assms chain_commit_id_ok [OF assms(2)] in \<open>auto simp: calm_def new_leader_def truthful_def
        message_new_def get_commit_def genesis_def split: if_splits\<close>)
qed

lemma vote_response_calm:
  assumes "candidate_apply_vote_response I r granted n = Inr h" and "chain_ok E (rf_chain r)"
  shows "calm E r h"
proof -
  let ?r = "r\<lparr>rf_role := (rf_role r)\<lparr>cd_election := election_vote (cd_election (rf_role r)) n granted\<rparr>\<rparr>"
  have "calm E ?r h"
    using assms candidate_elect_calm [of I ?r h E]
    by (auto simp: candidate_apply_vote_response_def candidate_defeat_def calm_def Let_def
        follower_from_candidate_def split: ElectionStatus.splits)
  then show ?thesis by (rule calm_via [where ms = "[]"]) simp_all
qed

lemma broadcast_calm:
  assumes "foldE (\<lambda>_ r. raft_send_all r (VoteRequest t (rf_id r) t (get_head (rf_chain r)))) ns r = Inr r'"
    and "chain_ok E (rf_chain r)"
  shows "rf_chain r' = rf_chain r \<and> fsm_tx r' = fsm_tx r \<and> rf_id r' = rf_id r
    \<and> (\<exists>ms. sent (rpc_tx r') = sent (rpc_tx r) @ ms
         \<and> (\<forall>m \<in> set ms. truthful E (rf_id r) (rf_chain r) (msg_command m)))"
  using assms(1)
  by (rule foldE_invariant) (use chain_head_id_ok [OF assms(2)] in
      \<open>auto simp: raft_send_all_Inr truthful_def message_new_def get_head_def\<close>)

lemma seek_election_calm:
  assumes "seek_election E I r = Inr h" and "chain_ok E (rf_chain r)"
  shows "calm E r h"
proof -
  obtain t r' where b: "foldE (\<lambda>_ r. raft_send_all r (VoteRequest t (rf_id r) t (get_head (rf_chain r))))
      (rc_nodes (rf_config r))
      (r\<lparr>rf_state := (rf_state r)\<lparr>voted_for := Some (rf_id r), current_term := t\<rparr>\<rparr>) = Inr r'"
    and v: "candidate_apply_vote_response I r' True (rf_id r) = Inr h"
    using assms(1) by (auto simp: seek_election_def bindE_Inr Let_def)
  obtain ms where "rf_chain r' = rf_chain r" "fsm_tx r' = fsm_tx r" "rf_id r' = rf_id r"
    "sent (rpc_tx r') = sent (rpc_tx r) @ ms"
    "\<forall>m \<in> set ms. truthful E (rf_id r) (rf_chain r) (msg_command m)"
    using broadcast_calm [OF b] assms(2) by auto
  then show ?thesis
    using vote_response_calm [OF v] assms(2) by (intro calm_via [of E r' h r ms]) simp_all
qed

lemma timeout_calm:
  assumes "follower_apply_timeout E I r = Inr h" and "chain_ok E (rf_chain r)"
  shows "calm E r h"
proof (cases "voted_for (rf_state r) = None")
  case True
  then obtain r' where r': "set_election_timeout I r = Inr r'"
      "seek_election E I (candidate_from_follower r') = Inr h"
    using assms(1) by (auto simp: follower_apply_timeout_def bindE_Inr)
  have c: "rf_chain (candidate_from_follower r') = rf_chain r" "fsm_tx (candidate_from_follower r') = fsm_tx r"
    "rf_id (candidate_from_follower r') = rf_id r" "sent (rpc_tx (candidate_from_follower r')) = sent (rpc_tx r) @ []"
    using r'(1) by (auto elim!: set_election_timeout_Inr simp: candidate_from_follower_def)
  show ?thesis
    by (rule calm_via [OF seek_election_calm [OF r'(2)] c]) (use c assms(2) in simp_all)
next
  case False
  then show ?thesis using assms by (auto simp: follower_apply_timeout_def calm_def)
qed

lemma candidate_calm:
  assumes "candidate_apply E I r cmd = Inr h" and "chain_ok E (rf_chain r)"
  shows "calm E r h"
proof (cases cmd)
  case Tick
  let ?f = "follower_from_candidate (r\<lparr>rf_state := (rf_state r)\<lparr>voted_for := None\<rparr>\<rparr>)"
  have f: "rf_chain ?f = rf_chain r" "fsm_tx ?f = fsm_tx r" "rf_id ?f = rf_id r" "sent (rpc_tx ?f) = sent (rpc_tx r) @ []"
    by (simp_all add: follower_from_candidate_def)
  have "h = Candidate r \<or> follower_apply_timeout E I ?f = Inr h"
    using assms(1) Tick by (auto simp: candidate_apply_tick_def Let_def split: if_splits ElectionStatus.splits)
  then show ?thesis
  proof
    assume "follower_apply_timeout E I ?f = Inr h"
    then have "calm E ?f h" using assms(2) by (intro timeout_calm) (simp_all add: f(1))
    then show ?thesis by (rule calm_via [OF _ f]) simp
  qed (simp add: calm_def)
next
  case (VoteResponse t n granted)
  then show ?thesis using assms vote_response_calm by auto
qed (use assms chain_commit_id_ok [OF assms(2)] in
    \<open>auto simp: candidate_apply_vote_request_def candidate_apply_append_entries_def
      candidate_apply_heartbeat_def candidate_apply_client_request_def raft_term_candidate
      follower_from_candidate_def calm_def truthful_def message_new_def bindE_Inr raft_send_Inr Let_def
      get_commit_def split: if_splits\<close>)


lemma range_member:
  assumes "chain_ok E c" and "Inr b \<in> set (chain_range E c lo hi)"
  shows "chain_block E c (blk_id b) = Some b"
proof -
  note S = ext_okD(1) [OF chain_okD(1) [OF assms(1)]]
  obtain k v where kv: "(k, v) \<in> set (db_entries (sled E) (ch_db c))" "de_block E v = Some b"
    using assms(2) sled_okD(2) [OF S]
    by (auto simp: chain_range_def range_item_def bindE_Inr expectE_def split: option.splits)
  then have v: "db_lookup (sled E) (ch_db c) k = Some v" using db_entries_mem [OF S] by simp
  have "k \<noteq> commit_key"
  proof
    assume "k = commit_key"
    then have "length v = 8"
      using chain_okD(2) [OF assms(1) v] chain_commit_id_ok [OF assms(1)] by (simp add: entry_ok_def id_ok_def)
    then show False using bincode_short [OF chain_okD(1) [OF assms(1)], of v] kv(2) by simp
  qed
  then have "blk_id b = BlockId k" using chain_okD(2) [OF assms(1) v] kv(2) by (auto simp: entry_ok_def)
  then show ?thesis using v kv(2) \<open>k \<noteq> commit_key\<close> by (simp add: chain_block_def)
qed

lemma range_bounds:
  assumes "chain_ok E c" and "Inr b \<in> set (chain_range E c lo hi)"
  shows "in_bounds lo hi (bid_bytes (blk_id b))"
proof -
  note S = ext_okD(1) [OF chain_okD(1) [OF assms(1)]]
  obtain k v where kv: "(k, v) \<in> set (db_entries (sled E) (ch_db c))" "de_block E v = Some b" "in_bounds lo hi k"
    using assms(2) sled_okD(2) [OF S]
    by (auto simp: chain_range_def range_item_def bindE_Inr expectE_def split: option.splits)
  then have v: "db_lookup (sled E) (ch_db c) k = Some v" using db_entries_mem [OF S] by simp
  have "k \<noteq> commit_key"
  proof
    assume "k = commit_key"
    then have "length v = 8"
      using chain_okD(2) [OF assms(1) v] chain_commit_id_ok [OF assms(1)] by (simp add: entry_ok_def id_ok_def)
    then show False using bincode_short [OF chain_okD(1) [OF assms(1)], of v] kv(2) by simp
  qed
  then have "blk_id b = BlockId k" using chain_okD(2) [OF assms(1) v] kv(2) by (auto simp: entry_ok_def)
  then show ?thesis using kv(3) by simp
qed

section \<open>Followers\<close>

text \<open>
  The blocks stored after the step were stored before or came with the command and have a stored parent;
  the commit moves up only, to the one the command announces; what is handed to the state machine is
  stored and below the commit.
\<close>

definition follows :: "'db ext \<Rightarrow> command \<Rightarrow> ('db, 'r) raft \<Rightarrow> 'db raft_handle \<Rightarrow> bool" where
  "follows E cmd r h \<longleftrightarrow>
     (\<forall>k b. chain_block E (h_chain h) k = Some b \<longrightarrow> chain_block E (rf_chain r) k = Some b
        \<or> b \<in> cmd_blocks cmd \<and> blk_id b = k \<and> chain_block E (h_chain h) (blk_next b) \<noteq> None)
   \<and> dom (chain_block E (rf_chain r)) \<subseteq> dom (chain_block E (h_chain h))
   \<and> (get_commit (h_chain h) = get_commit (rf_chain r)
        \<or> get_commit (rf_chain r) < get_commit (h_chain h) \<and> get_commit (h_chain h) \<in> cmd_commits cmd)
   \<and> (\<exists>is. sent (h_fsm h) = sent (fsm_tx r) @ is
        \<and> (\<forall>b. Apply b \<in> set is \<longrightarrow> chain_block E (h_chain h) (blk_id b) = Some b
             \<and> blk_id b < get_commit (h_chain h)))
   \<and> (\<exists>ms. sent (h_rpc h) = sent (rpc_tx r) @ ms
        \<and> (\<forall>m \<in> set ms. truthful E (rf_id r) (h_chain h) (msg_command m)))
   \<and> new_leader h"

lemma followsI:
  assumes "\<And>k b. chain_block E (h_chain h) k = Some b \<Longrightarrow> chain_block E (rf_chain r) k = Some b
        \<or> b \<in> cmd_blocks cmd \<and> blk_id b = k \<and> chain_block E (h_chain h) (blk_next b) \<noteq> None"
    and "dom (chain_block E (rf_chain r)) \<subseteq> dom (chain_block E (h_chain h))"
    and "get_commit (h_chain h) = get_commit (rf_chain r)
        \<or> get_commit (rf_chain r) < get_commit (h_chain h) \<and> get_commit (h_chain h) \<in> cmd_commits cmd"
    and "sent (h_fsm h) = sent (fsm_tx r) @ map Apply bs"
    and "\<forall>b \<in> set bs. chain_block E (h_chain h) (blk_id b) = Some b \<and> blk_id b < get_commit (h_chain h)"
    and "sent (h_rpc h) = sent (rpc_tx r) @ ms"
    and "\<forall>m \<in> set ms. truthful E (rf_id r) (h_chain h) (msg_command m)" and "new_leader h"
  shows "follows E cmd r h"
proof -
  have "\<forall>b. Apply b \<in> set (map Apply bs) \<longrightarrow> chain_block E (h_chain h) (blk_id b) = Some b
      \<and> blk_id b < get_commit (h_chain h)"
    using assms(5) by auto
  with assms show ?thesis unfolding follows_def by blast
qed

lemma calm_follows: "calm E r h \<Longrightarrow> follows E cmd r h"
  by (simp add: calm_def follows_def)

lemma advance_commit_blocks:
  assumes "follower_advance_commit E r commit has = Inr r'" and "chain_ok E (rf_chain r)" and "id_ok commit"
  obtains c bs where "r' = push_fsm (r\<lparr>rf_chain := c\<rparr>) (map Apply bs)" "chain_ok E c"
    "chain_block E c = chain_block E (rf_chain r)"
    "\<forall>b \<in> set bs. chain_block E c (blk_id b) = Some b \<and> blk_id b < get_commit c"
    "get_commit c = get_commit (rf_chain r) \<or> get_commit (rf_chain r) < get_commit c \<and> get_commit c = commit"
proof (cases "has \<and> commit > get_commit (rf_chain r)")
  case True
  then obtain c i where c: "chain_commit E (rf_chain r) commit = Inr (c, i)"
    and a: "apply_blocks (chain_range E c (incl (get_commit (rf_chain r))) (excl commit)) (r\<lparr>rf_chain := c\<rparr>) = Inr r'"
    using assms(1) by (auto simp: follower_advance_commit_def Let_def bindE_Inr)
  note law = chain_store.commit_law [OF assms(2,3) c]
  from a obtain bs where bs: "chain_range E c (incl (get_commit (rf_chain r))) (excl commit) = map Inr bs"
    "r' = push_fsm (r\<lparr>rf_chain := c\<rparr>) (map Apply bs)"
    by (rule apply_blocks_frame)
  have "chain_block E c (blk_id b) = Some b \<and> blk_id b < get_commit c" if "b \<in> set bs" for b
  proof -
    have i: "Inr b \<in> set (chain_range E c (incl (get_commit (rf_chain r))) (excl commit))" using that bs(1) by simp
    show ?thesis
      using range_member [OF _ i] range_bounds [OF _ i] law
      by (auto simp: in_bounds_def less_block_id_def [symmetric])
  qed
  with law bs(2) True show ?thesis by (intro that [of c bs]) simp_all
next
  case False
  then have "r' = r" using assms(1) by (simp add: follower_advance_commit_def split: if_splits)
  then show ?thesis using assms(2) by (intro that [of "rf_chain r" "[]"]) simp_all
qed

lemma heartbeat_follows:
  assumes "follower_apply_heartbeat E I r l t commit = Inr h" and "chain_ok E (rf_chain r)" and "id_ok commit"
  shows "follows E (Heartbeat t' commit l') r h"
proof (rule heartbeat_steps [OF assms(1)])
  fix r1 r2 has
  assume r1: "r1 = flushed l (r\<lparr>rf_state := rf_state r1, rf_role := (rf_role r)\<lparr>fl_leader_id := Some l\<rparr>\<rparr>)"
    and r2: "follower_advance_commit E r1 commit has = Inr r2"
    and h: "h = Follower (push_rpc r2 (Peer l) (HeartbeatResponse (get_commit (rf_chain r2)) has))"
  have same: "rf_chain r1 = rf_chain r" "fsm_tx r1 = fsm_tx r" "rf_id r1 = rf_id r" by (subst r1, simp)+
  have ms: "\<exists>ms. sent (rpc_tx r1) = sent (rpc_tx r) @ ms \<and> (\<forall>m \<in> set ms. truthful E (rf_id r) c (msg_command m))"
    for c
    by (subst r1) (auto simp: flushed_def truthful_def message_new_def)
  obtain c bs where c: "r2 = push_fsm (r1\<lparr>rf_chain := c\<rparr>) (map Apply bs)" "chain_ok E c"
    "chain_block E c = chain_block E (rf_chain r1)"
    "\<forall>b \<in> set bs. chain_block E c (blk_id b) = Some b \<and> blk_id b < get_commit c"
    "get_commit c = get_commit (rf_chain r1) \<or> get_commit (rf_chain r1) < get_commit c \<and> get_commit c = commit"
    by (rule advance_commit_blocks [OF r2]) (use same assms(2,3) in auto)
  have "id_ok (get_commit c)" using chain_commit_id_ok [OF c(2)] by (simp add: get_commit_def)
  then have resp: "truthful E (rf_id r) c (HeartbeatResponse (get_commit c) has)" by (simp add: truthful_def)
  obtain ms where ms: "sent (rpc_tx r1) = sent (rpc_tx r) @ ms"
    "\<forall>m \<in> set ms. truthful E (rf_id r) c (msg_command m)" using ms by blast
  let ?ms = "ms @ [message_new (Peer (rf_id r)) (Peer l) (HeartbeatResponse (get_commit c) has)]"
  have "sent (h_rpc h) = sent (rpc_tx r) @ ?ms"
    using h c(1) ms(1) same(3) by simp
  moreover have "sent (h_fsm h) = sent (fsm_tx r) @ map Apply bs" using h c(1) same by simp
  moreover have "h_chain h = c" "new_leader h" using h c(1) by simp_all
  ultimately show ?thesis
    using c(3-5) ms(2) resp same(1) by (intro followsI [where bs = bs and ms = ?ms]) (auto simp: message_new_def)
qed

lemma extend_all_blocks:
  assumes "foldE (\<lambda>b c. chain_extend E c b) bs c = Inr c'" and "chain_ok E c"
    and "\<forall>b \<in> set bs. id_ok (blk_id b) \<and> id_ok (blk_next b)"
  shows "(\<forall>k b. chain_block E c' k = Some b \<longrightarrow> chain_block E c k = Some b
      \<or> b \<in> set bs \<and> blk_id b = k \<and> chain_block E c' (blk_next b) \<noteq> None)
    \<and> dom (chain_block E c) \<subseteq> dom (chain_block E c') \<and> get_commit c' = get_commit c"
  using assms
proof (induction bs arbitrary: c)
  case (Cons b bs)
  then obtain c1 where c1: "chain_extend E c b = Inr c1"
    "foldE (\<lambda>b c. chain_extend E c b) bs c1 = Inr c'" by (auto simp: bindE_Inr)
  have law: "chain_ok E c1" "chain_block E c (blk_next b) \<noteq> None" "get_commit c1 = get_commit c"
    "chain_block E c1 = (chain_block E c)(blk_id b \<mapsto> b)"
    using chain_store.extend_law [OF Cons.prems(2) _ _ c1(1)] Cons.prems(3) by simp_all
  have rest: "\<forall>k b. chain_block E c' k = Some b \<longrightarrow> chain_block E c1 k = Some b
      \<or> b \<in> set bs \<and> blk_id b = k \<and> chain_block E c' (blk_next b) \<noteq> None"
    "dom (chain_block E c1) \<subseteq> dom (chain_block E c')" "get_commit c' = get_commit c1"
    using Cons.IH [OF c1(2) law(1)] Cons.prems(3) by simp_all
  have "blk_next b \<in> dom (chain_block E c1)" using law(2,4) by auto
  then have "chain_block E c' (blk_next b) \<noteq> None" using rest(2) by blast
  then show ?case using rest law(3,4) by (fastforce split: if_splits)
qed simp

lemma append_entries_follows:
  assumes "follower_apply_append_entries E I r bs l t = Inr h" and "chain_ok E (rf_chain r)"
    and "\<forall>b \<in> set bs. id_ok (blk_id b) \<and> id_ok (blk_next b)"
  shows "follows E (AppendEntries t' l' bs) r h"
proof (rule append_entries_steps [OF assms(1)])
  fix r' c
  assume r': "follower_adopt_leader I r l t = Inr r'"
    and c: "foldE (\<lambda>b c. chain_extend E c b) bs (rf_chain r') = Inr c"
    and h: "h = Follower (if bs = [] then r' else push_rpc (r'\<lparr>rf_chain := c\<rparr>) (Peer l)
         (AppendResponse (rf_id r') (current_term (rf_state r')) (get_head c) True))"
  let ?m = "AppendResponse (rf_id r') (current_term (rf_state r')) (get_head c) True"
  have same: "rf_chain r' = rf_chain r" "fsm_tx r' = fsm_tx r" "rpc_tx r' = rpc_tx r" "rf_id r' = rf_id r"
    using r' by (auto simp: follower_adopt_leader_def raft_term_follower split: if_splits)
  have ok: "chain_ok E c" using extend_all_ok [OF c] assms(2,3) same by simp
  note ext = extend_all_blocks [OF c, unfolded same(1), OF assms(2,3)]
  have "truthful E (rf_id r) c ?m"
    using chain_store.head_stored [OF ok] chain_head_id_ok [OF ok] same(4) by (simp add: truthful_def get_head_def)
  moreover have "c = rf_chain r" if "bs = []" using c that same(1) by simp
  ultimately show ?thesis
    using h ext same
    by (intro followsI [where bs = "[]" and ms = "if bs = [] then [] else [message_new (Peer (rf_id r)) (Peer l) ?m]"])
      (auto simp: message_new_def split: if_splits)
qed

lemma follower_follows:
  assumes "follower_apply E I r cmd = Inr h" and "chain_ok E (rf_chain r)" and "cmd_ok cmd"
  shows "follows E cmd r h"
proof (cases cmd)
  case (AppendEntries t l bs)
  then show ?thesis using assms append_entries_follows by auto
next
  case (Heartbeat t commit l)
  then show ?thesis using assms heartbeat_follows by auto
next
  case Tick
  then show ?thesis
    using assms timeout_calm [of E I r h]
    by (auto simp: follower_apply_tick_def calm_def split: if_splits intro!: calm_follows)
next
  case Timeout
  then show ?thesis using assms timeout_calm [of E I r h] by (auto intro!: calm_follows)
qed (use assms in \<open>auto simp: follower_apply_vote_request_def follower_apply_client_request_def calm_def
    follower_apply_client_response_def truthful_def message_new_def bindE_Inr raft_send_Inr Let_def
    split: option.splits if_splits intro!: calm_follows\<close>)

section \<open>Leaders\<close>

text \<open>The blocks a list of instructions hands to the state machine.\<close>

fun applied_blocks :: "instruction list \<Rightarrow> block list" where
  "applied_blocks [] = []"
| "applied_blocks (Apply b # is) = b # applied_blocks is"
| "applied_blocks (Notify rid addr bid # is) = applied_blocks is"

lemma applied_blocks_append [simp]: "applied_blocks (xs @ ys) = applied_blocks xs @ applied_blocks ys"
  by (induction xs rule: applied_blocks.induct) simp_all

lemma applied_blocks_Apply [simp]: "applied_blocks (map Apply bs) = bs"
  by (induction bs) simp_all

lemma applied_blocks_mem: "b \<in> set (applied_blocks is) \<longleftrightarrow> Apply b \<in> set is"
  by (induction "is" rule: applied_blocks.induct) auto

text \<open>The stored blocks above one identifier and up to another, ascending.\<close>

definition between :: "(block_id \<Rightarrow> block option) \<Rightarrow> block_id \<Rightarrow> block_id \<Rightarrow> block list \<Rightarrow> bool" where
  "between B lo hi bs \<longleftrightarrow> sorted_wrt (<) (map blk_id bs)
     \<and> set bs = {b. B (blk_id b) = Some b \<and> lo < blk_id b \<and> blk_id b \<le> hi}"

text \<open>
  A leader adds at most one block, above its head, on top of its head; it moves its commit up only, to
  the block its progress gives, and hands exactly the blocks in between to the state machine; and it
  takes over only acknowledged heads and its own.
\<close>

definition leads :: "'db ext \<Rightarrow> command \<Rightarrow> ('db, leader) raft \<Rightarrow> ('db, leader) raft \<Rightarrow> bool" where
  "leads E cmd r r' \<longleftrightarrow>
     (chain_block E (rf_chain r') = chain_block E (rf_chain r) \<and> get_head (rf_chain r') = get_head (rf_chain r)
      \<or> (\<exists>b. get_head (rf_chain r) < blk_id b \<and> blk_next b = get_head (rf_chain r)
           \<and> get_head (rf_chain r') = blk_id b
           \<and> chain_block E (rf_chain r') = (chain_block E (rf_chain r))(blk_id b \<mapsto> b)))
   \<and> (get_commit (rf_chain r') = get_commit (rf_chain r)
      \<or> get_commit (rf_chain r) < get_commit (rf_chain r')
        \<and> committed_index (ld_progress (rf_role r')) = Inr (get_commit (rf_chain r')))
   \<and> (\<exists>is. sent (fsm_tx r') = sent (fsm_tx r) @ is
        \<and> between (chain_block E (rf_chain r')) (get_commit (rf_chain r)) (get_commit (rf_chain r')) (applied_blocks is))
   \<and> (\<forall>n k. head_of (ld_progress (rf_role r')) n = Some k \<longrightarrow> head_of (ld_progress (rf_role r)) n = Some k
        \<or> (n, k) \<in> cmd_acks cmd \<or> n = rf_id r \<and> chain_block E (rf_chain r') k \<noteq> None)
   \<and> (\<exists>ms. sent (rpc_tx r') = sent (rpc_tx r) @ ms
        \<and> (\<forall>m \<in> set ms. truthful E (rf_id r) (rf_chain r') (msg_command m)))"

text \<open>A range that was read to its end did not come across the commit entry.\<close>

lemma range_read_clear:
  assumes "chain_ok E c" and "chain_range E c lo hi = map Inr bs"
  shows "range_clear E c lo hi"
proof (rule ccontr)
  assume "\<not> range_clear E c lo hi"
  then have "in_bounds lo hi commit_key" "db_lookup (sled E) (ch_db c) commit_key \<noteq> None"
    by (simp_all add: range_clear_def)
  then obtain rest where "chain_range E c lo hi =
      chain_range E c lo (Excluded commit_key) @ Inl (Panic ''couldn't deserialize'') # rest"
    by (rule chain_range_hits_commit [OF assms(1)])
  then have "Inl (Panic ''couldn't deserialize'') \<in> set (map (Inr :: block \<Rightarrow> block res) bs)"
    by (simp flip: assms(2))
  then show False by auto
qed

lemma leader_commit_effect:
  assumes "leader_commit E r = Inr (r', q)" and "leader_ok E r"
  obtains c bs where "r' = push_fsm (r\<lparr>rf_chain := c\<rparr>) (map Apply bs)" "chain_ok E c"
    "chain_block E c = chain_block E (rf_chain r)" "get_head c = get_head (rf_chain r)"
    "between (chain_block E c) (get_commit (rf_chain r)) (get_commit c) bs"
    "get_commit c = get_commit (rf_chain r) \<or> get_commit (rf_chain r) < get_commit c
       \<and> committed_index (ld_progress (rf_role r)) = Inr (get_commit c)"
proof -
  have q: "committed_index (ld_progress (rf_role r)) = Inr q"
    using assms(1) by (auto simp: leader_commit_def bindE_Inr Let_def split: if_splits)
  show ?thesis
  proof (cases "q > get_commit (rf_chain r)")
    case True
    let ?prev = "get_commit (rf_chain r)"
    obtain n where "head_of (ld_progress (rf_role r)) n = Some q"
      by (rule committed_index_head [OF assms(2) q])
    then have "id_ok q" by (rule leader_okD(4) [OF assms(2)])
    from True q assms(1) obtain c i where c: "chain_commit E (rf_chain r) q = Inr (c, i)"
      by (auto simp: leader_commit_def bindE_Inr Let_def)
    note ok = leader_okD(1) [OF assms(2)]
    have law: "chain_ok E c" "i = q" "get_commit c = q" "get_head c = get_head (rf_chain r)"
      "chain_block E c = chain_block E (rf_chain r)"
      using chain_store.commit_law [OF ok \<open>id_ok q\<close> c] by simp_all
    let ?rng = "chain_range E c (incl ?prev) (incl q)"
    have prev: "chain_block E c ?prev \<noteq> None" using chain_store.committed_stored [OF ok] law(5) by simp
    have "\<exists>all. ?rng = map Inr all \<and> r' = push_fsm (r\<lparr>rf_chain := c\<rparr>) (map Apply (drop 1 all))"
    proof (cases ?rng)
      case Nil
      then show ?thesis
        using True q c law assms(1) by (intro exI [of _ "[]"]) (simp add: leader_commit_def)
    next
      case (Cons x xs)
      then obtain b where b: "x = Inr b" and a: "apply_blocks xs (r\<lparr>rf_chain := c\<rparr>) = Inr r'"
        using True q c law assms(1) by (auto simp: leader_commit_def bindE_Inr)
      from a obtain ys where "xs = map Inr ys" "r' = push_fsm (r\<lparr>rf_chain := c\<rparr>) (map Apply ys)"
        by (rule apply_blocks_frame)
      then show ?thesis using Cons b by (intro exI [of _ "b # ys"]) simp
    qed
    then obtain all where all: "?rng = map Inr all" "r' = push_fsm (r\<lparr>rf_chain := c\<rparr>) (map Apply (drop 1 all))"
      by blast
    have clear: "range_clear E c (incl ?prev) (incl q)" by (rule range_read_clear [OF law(1) all(1)])
    have "below (incl q) (bid_bytes ?prev)" using True by (simp add: less_block_id_def)
    then obtain b bs where bs: "?rng = Inr b # map Inr bs" "sorted_wrt (<) (map blk_id bs)"
        "set bs = {b. \<exists>i. chain_block E c i = Some b \<and> ?prev < i \<and> below (incl q) (bid_bytes i)}"
      by (rule range_after [OF law(1) prev _ clear])
    have "map Inr all = map (Inr :: block \<Rightarrow> block res) (b # bs)" using all(1) bs(1) by simp
    then have "all = b # bs" by (simp only: inj_map_eq_map [OF inj_Inr])
    have "(\<exists>i. chain_block E c i = Some x \<and> ?prev < i \<and> below (incl q) (bid_bytes i)) \<longleftrightarrow>
        chain_block E c (blk_id x) = Some x \<and> ?prev < blk_id x \<and> blk_id x \<le> q" for x
      using chain_block_id(1) [OF law(1)] by (auto simp: less_eq_block_id_def)
    then have "between (chain_block E c) ?prev (get_commit c) bs"
      using bs(2,3) law(3) by (simp add: between_def)
    with law all(2) \<open>all = b # bs\<close> True q show ?thesis by (intro that [of c bs]) simp_all
  next
    case False
    then have "r' = r" using assms(1) q by (simp add: leader_commit_def)
    then show ?thesis
      using leader_okD(1) [OF assms(2)]
      by (intro that [of "rf_chain r" "[]"]) (auto simp: between_def)
  qed
qed

lemma replicate_blocks_stored:
  assumes "replicate_blocks E c p = Inr (Some bs)" and "chain_ok E c" and "b \<in> set bs"
  shows "chain_block E c (blk_id b) = Some b"
proof -
  have nth1: "Inr b \<in> set items" if "iter_nth1 items = Inr (Some b)" for items :: "block res list"
    using that by (cases items rule: iter_nth1.cases) (auto simp: bindE_Inr)
  have take: "set vs \<subseteq> {b. Inr b \<in> set items}" if t: "iter_skip1_take n items = Inr vs"
    for n vs and items :: "block res list"
  proof -
    obtain ws where ws: "forceE (take (n + 1) items) = Inr ws" "vs = drop 1 ws"
      using t by (auto simp: iter_skip1_take_def bindE_Inr)
    then have "take (n + 1) items = map Inr ws" by (simp add: forceE_Inr)
    then have "set (map Inr ws) \<subseteq> set items" by (metis set_take_subset)
    then show ?thesis using ws(2) set_drop_subset [of 1 ws] by auto
  qed
  have "\<exists>h. Inr b \<in> set (chain_range E c (incl h) Unbounded)"
  proof (cases p)
    case (Probe pr)
    then have "iter_nth1 (chain_range E c (incl (pr_head pr)) Unbounded) = Inr (Some b)"
      using assms(1,3) by (auto simp: replicate_blocks_def bindE_Inr split: if_splits option.splits)
    then show ?thesis using nth1 by blast
  next
    case (Replicate pr)
    then have "iter_skip1_take MAX_INFLIGHT (chain_range E c (incl (pr_head pr)) Unbounded) = Inr bs"
      using assms(1) by (auto simp: replicate_blocks_def bindE_Inr split: if_splits)
    then show ?thesis using take assms(3) by blast
  next
    case (Snapshot pr)
    then show ?thesis using assms(1) by (simp add: replicate_blocks_def split: if_splits)
  qed
  then show ?thesis using range_member [OF assms(2)] by blast
qed

lemma replicate_node_cases:
  assumes "replicate_node E node r = Inr r'"
  obtains (stays) "r' = r" | (sends) p bs where "replicate_blocks E (rf_chain r) p = Inr (Some bs)"
    "r' = push_rpc r (Peer (nd_id node)) (AppendEntries (current_term (rf_state r)) (rf_id r) bs)"
proof (cases "rp_get (ld_progress (rf_role r)) (nd_id node)")
  case None
  then show ?thesis using assms stays by (simp add: replicate_node_def)
next
  case (Some p)
  then obtain x where x: "replicate_blocks E (rf_chain r) p = Inr x"
    using assms by (auto simp: replicate_node_def bindE_Inr)
  show ?thesis
  proof (cases x)
    case None
    then have "r' = r" using assms Some x by (simp add: replicate_node_def)
    then show ?thesis by (rule stays)
  next
    case (Some bs)
    then have "r' = push_rpc r (Peer (nd_id node)) (AppendEntries (current_term (rf_state r)) (rf_id r) bs)"
      using assms \<open>rp_get _ _ = Some p\<close> x by (simp add: replicate_node_def raft_send_Inr)
    with x Some show ?thesis by (intro sends) simp_all
  qed
qed

lemma leader_replicate_effect:
  assumes "leader_replicate E r = Inr r'" and "chain_ok E (rf_chain r)"
  shows "rf_chain r' = rf_chain r \<and> fsm_tx r' = fsm_tx r \<and> rf_role r' = rf_role r \<and> rf_id r' = rf_id r
    \<and> (\<exists>ms. sent (rpc_tx r') = sent (rpc_tx r) @ ms
         \<and> (\<forall>m \<in> set ms. truthful E (rf_id r) (rf_chain r) (msg_command m)))" (is "?P r'")
  using assms(1) unfolding leader_replicate_def
proof (rule foldE_invariant)
  fix node t t'
  assume t: "?P t" and t': "replicate_node E node t = Inr t'"
  from t' show "?P t'"
  proof (cases rule: replicate_node_cases)
    case (sends p bs)
    have "truthful E (rf_id r) (rf_chain r) (AppendEntries (current_term (rf_state t)) (rf_id t) bs)"
      using replicate_blocks_stored [OF sends(1)] t assms(2) by (simp add: truthful_def)
    then show ?thesis using t sends(2) by (auto simp: message_new_def)
  qed (use t in simp)
qed simp

lemma leadsI:
  assumes "chain_block E (rf_chain r') = chain_block E (rf_chain r) \<and> get_head (rf_chain r') = get_head (rf_chain r)
      \<or> (\<exists>b. get_head (rf_chain r) < blk_id b \<and> blk_next b = get_head (rf_chain r)
           \<and> get_head (rf_chain r') = blk_id b
           \<and> chain_block E (rf_chain r') = (chain_block E (rf_chain r))(blk_id b \<mapsto> b))"
    and "get_commit (rf_chain r') = get_commit (rf_chain r)
      \<or> get_commit (rf_chain r) < get_commit (rf_chain r')
        \<and> committed_index (ld_progress (rf_role r')) = Inr (get_commit (rf_chain r'))"
    and "sent (fsm_tx r') = sent (fsm_tx r) @ js"
    and "between (chain_block E (rf_chain r')) (get_commit (rf_chain r)) (get_commit (rf_chain r')) (applied_blocks js)"
    and "\<And>n k. head_of (ld_progress (rf_role r')) n = Some k \<Longrightarrow> head_of (ld_progress (rf_role r)) n = Some k
        \<or> (n, k) \<in> cmd_acks cmd \<or> n = rf_id r \<and> chain_block E (rf_chain r') k \<noteq> None"
    and "sent (rpc_tx r') = sent (rpc_tx r) @ ms"
    and "\<forall>m \<in> set ms. truthful E (rf_id r) (rf_chain r') (msg_command m)"
  shows "leads E cmd r r'"
  using assms unfolding leads_def by blast

lemma between_empty [simp]: "between B k k []"
  by (auto simp: between_def)

lemma append_response_effect:
  assumes "leader_apply_append_response E r n h = Inr (Leader r')" and "leader_ok E r" and "id_ok h"
  obtains bs where "chain_block E (rf_chain r') = chain_block E (rf_chain r)"
    "get_head (rf_chain r') = get_head (rf_chain r)" "rpc_tx r' = rpc_tx r"
    "sent (fsm_tx r') = sent (fsm_tx r) @ map Apply bs"
    "between (chain_block E (rf_chain r')) (get_commit (rf_chain r)) (get_commit (rf_chain r')) bs"
    "get_commit (rf_chain r') = get_commit (rf_chain r)
      \<or> get_commit (rf_chain r) < get_commit (rf_chain r')
        \<and> committed_index (ld_progress (rf_role r')) = Inr (get_commit (rf_chain r'))"
    "\<And>m k. head_of (ld_progress (rf_role r')) m = Some k \<Longrightarrow>
       head_of (ld_progress (rf_role r)) m = Some k \<or> m = n \<and> k = h"
proof -
  let ?P = "ld_progress (rf_role r)"
  obtain P q where P: "rp_advance ?P n h = Inr P"
    and c: "leader_commit E (r\<lparr>rf_role := (rf_role r)\<lparr>ld_progress := P\<rparr>\<rparr>) = Inr (r', q)"
    using assms(1) by (auto simp: leader_apply_append_response_def bindE_Inr)
  obtain k where k: "head_of ?P n = Some k"
    using P rp_advance_unknown [of ?P n h] by (cases "head_of ?P n") auto
  have heads: "head_of P = (head_of ?P)(n \<mapsto> max k h)"
    by (rule rp_advance_ok [OF leader_okD(2) [OF assms(2)] k, of h]) (use P in simp)
  have old: "head_of ?P m = Some x \<or> m = n \<and> x = h" if "head_of P m = Some x" for m x
    using that k by (auto simp: heads max_def split: if_splits)
  from c advance_leader_ok [OF assms(2,3) P] show ?thesis
    by (rule leader_commit_effect) (intro that, simp_all add: old)
qed

lemma client_request_leads:
  assumes "leader_apply_client_request E r req = Inr (Leader r')" and "leader_ok E r"
  shows "leads E (ClientRequest req') r r'"
proof -
  obtain r1 where r1: "leader_client_append E r req = Inr r1"
    "leader_apply_append_response E r1 (rf_id r) (get_head (rf_chain r1)) = Inr (Leader r')"
    using assms(1) by (auto simp: leader_apply_client_request_def bindE_Inr)
  obtain c i where c: "chain_append E (rf_chain r) \<lparr>ub_data = proposal_get (cr_proposal req)\<rparr> = Inr (c, i)"
    and eq: "r1 = r\<lparr>rf_chain := c, fsm_tx := (fsm_tx r)\<lparr>sent := sent (fsm_tx r)
      @ [Notify (cr_id req) (cr_address req) i]\<rparr>\<rparr>"
    using r1(1) by (auto simp: leader_client_append_def bindE_Inr chan_send_Inr)
  note law = chain_store.append_law [OF leader_okD(1) [OF assms(2)] c]
  let ?b = "\<lparr>blk_id = i, blk_next = get_head (rf_chain r), blk_data = proposal_get (cr_proposal req)\<rparr>"
  obtain bs where bs: "chain_block E (rf_chain r') = chain_block E (rf_chain r1)"
    "get_head (rf_chain r') = get_head (rf_chain r1)" "rpc_tx r' = rpc_tx r1"
    "sent (fsm_tx r') = sent (fsm_tx r1) @ map Apply bs"
    "between (chain_block E (rf_chain r')) (get_commit (rf_chain r1)) (get_commit (rf_chain r')) bs"
    "get_commit (rf_chain r') = get_commit (rf_chain r1)
      \<or> get_commit (rf_chain r1) < get_commit (rf_chain r')
        \<and> committed_index (ld_progress (rf_role r')) = Inr (get_commit (rf_chain r'))"
    "\<And>m k. head_of (ld_progress (rf_role r')) m = Some k \<Longrightarrow>
       head_of (ld_progress (rf_role r1)) m = Some k \<or> m = rf_id r \<and> k = get_head (rf_chain r1)"
    by (rule append_response_effect [OF r1(2) client_append_inv [OF assms(2) r1(1)]]) blast
  have new: "get_head (rf_chain r) < blk_id ?b" "blk_next ?b = get_head (rf_chain r)" "get_head (rf_chain r') = blk_id ?b"
    "chain_block E (rf_chain r') = (chain_block E (rf_chain r))(blk_id ?b \<mapsto> ?b)"
    and same: "get_commit (rf_chain r1) = get_commit (rf_chain r)"
    using law bs(1,2) eq by simp_all
  show ?thesis
  proof (rule leadsI [where ms = "[]" and js = "Notify (cr_id req) (cr_address req) i # map Apply bs"])
    fix n k
    assume "head_of (ld_progress (rf_role r')) n = Some k"
    then show "head_of (ld_progress (rf_role r)) n = Some k \<or> (n, k) \<in> cmd_acks (ClientRequest req')
        \<or> n = rf_id r \<and> chain_block E (rf_chain r') k \<noteq> None"
      using bs(7) [of n k] bs(2) new(3,4) eq by auto
  next
    show "get_commit (rf_chain r') = get_commit (rf_chain r)
      \<or> get_commit (rf_chain r) < get_commit (rf_chain r')
        \<and> committed_index (ld_progress (rf_role r')) = Inr (get_commit (rf_chain r'))"
      using bs(6) unfolding same .
    show "sent (fsm_tx r') = sent (fsm_tx r) @ (Notify (cr_id req) (cr_address req) i # map Apply bs)"
      unfolding bs(4) by (simp add: eq)
    show "between (chain_block E (rf_chain r')) (get_commit (rf_chain r)) (get_commit (rf_chain r'))
        (applied_blocks (Notify (cr_id req) (cr_address req) i # map Apply bs))"
      using bs(5) unfolding same by simp
    show "sent (rpc_tx r') = sent (rpc_tx r) @ []" unfolding bs(3) by (simp add: eq)
  qed (use new in \<open>blast | simp\<close>)+
qed

lemma replicate_leads:
  assumes "leader_replicate E r1 = Inr r'" and "leader_ok E r" and "rf_chain r1 = rf_chain r"
    and "fsm_tx r1 = fsm_tx r" and "rf_id r1 = rf_id r"
    and "ld_progress (rf_role r1) = ld_progress (rf_role r)" and "sent (rpc_tx r1) = sent (rpc_tx r) @ ms"
    and "\<forall>m \<in> set ms. truthful E (rf_id r) (rf_chain r) (msg_command m)"
  shows "leads E cmd r r'"
proof -
  obtain ms' where "rf_chain r' = rf_chain r" "fsm_tx r' = fsm_tx r" "rf_role r' = rf_role r1"
    "sent (rpc_tx r') = sent (rpc_tx r) @ (ms @ ms')"
    "\<forall>m \<in> set (ms @ ms'). truthful E (rf_id r) (rf_chain r) (msg_command m)"
    using leader_replicate_effect [OF assms(1)] leader_okD(1) [OF assms(2)] assms(3-8) by auto
  then show ?thesis using assms(6) by (intro leadsI [where ms = "ms @ ms'" and js = "[]"]) simp_all
qed

lemma leader_leads:
  assumes "leader_apply E I r cmd = Inr (Leader r')" and "leader_ok E r" and "cmd_ok cmd"
  shows "leads E cmd r r'"
proof (cases cmd)
  case Tick
  let ?hb = "Heartbeat (current_term (rf_state r)) (get_commit (rf_chain r)) (rf_id r)"
  obtain s where s: "s = r \<or> s = reset_heartbeat_timer I (push_rpc r Peers ?hb)"
    and r': "leader_replicate E s = Inr r'"
    using assms(1) Tick by (auto simp: leader_apply_tick_def leader_heartbeat_def bindE_Inr
        raft_send_all_Inr split: if_splits)
  have "truthful E (rf_id r) (rf_chain r) ?hb"
    using chain_commit_id_ok [OF leader_okD(1) [OF assms(2)]] by (simp add: truthful_def get_commit_def)
  with s show ?thesis
    using replicate_leads [OF r' assms(2), of "[]"]
      replicate_leads [OF r' assms(2), of "[message_new (Peer (rf_id r)) Peers ?hb]"]
    by (auto simp: reset_heartbeat_timer_def message_new_def)
next
  case (ClientRequest req)
  then show ?thesis using assms client_request_leads by auto
next
  case (HeartbeatResponse commit has)
  then have "r' = r \<or> leader_replicate E r = Inr r'"
    using assms(1) by (auto simp: leader_apply_heartbeat_response_def bindE_Inr split: if_splits)
  then show ?thesis
    using replicate_leads [OF _ assms(2), of r r' "[]"] by (auto intro: leadsI [where ms = "[]" and js = "[]"])
next
  case (AppendResponse n t h s)
  then have h: "leader_apply_append_response E r n h = Inr (Leader r')" "id_ok h" using assms(1,3) by simp_all
  obtain bs where "chain_block E (rf_chain r') = chain_block E (rf_chain r)"
    "get_head (rf_chain r') = get_head (rf_chain r)" "rpc_tx r' = rpc_tx r"
    "sent (fsm_tx r') = sent (fsm_tx r) @ map Apply bs"
    "between (chain_block E (rf_chain r')) (get_commit (rf_chain r)) (get_commit (rf_chain r')) bs"
    "get_commit (rf_chain r') = get_commit (rf_chain r)
      \<or> get_commit (rf_chain r) < get_commit (rf_chain r')
        \<and> committed_index (ld_progress (rf_role r')) = Inr (get_commit (rf_chain r'))"
    "\<And>m k. head_of (ld_progress (rf_role r')) m = Some k \<Longrightarrow>
       head_of (ld_progress (rf_role r)) m = Some k \<or> m = n \<and> k = h"
    by (rule append_response_effect [OF h(1) assms(2) h(2)]) blast
  then show ?thesis
    using AppendResponse by (intro leadsI [where ms = "[]" and js = "map Apply bs"]) auto
qed (use assms(1) in \<open>auto simp: leader_apply_append_entries_def raft_term_leader split: if_splits
    intro!: leadsI [where ms = "[]" and js = "[]"]\<close>)

end
