(* ===== verification/Agreement.thy ===== *)
theory Agreement
  imports Replication_Run Effects
begin

text \<open>
  Agreement of the logs.  The nodes of a cluster that start on empty databases only ever store the
  blocks the one leader of the cluster has made, so two nodes never store or apply different blocks
  under the same identifier, and the leader applies its chain block by block.
\<close>

section \<open>The ledger\<close>

text \<open>
  \<open>L\<close> holds every block there is in the cluster: the blocks of the leader, or the genesis block alone
  as long as there has been no leader.  It is a single line of blocks, each on top of the one before.
\<close>

definition ledger_ok :: "(block_id \<Rightarrow> block option) \<Rightarrow> bool" where
  "ledger_ok L \<longleftrightarrow> L genesis = Some genesis_block
     \<and> (\<forall>k b. L k = Some b \<longrightarrow> blk_id b = k \<and> id_ok k \<and> id_ok (blk_next b)
          \<and> (k = genesis \<or> L (blk_next b) \<noteq> None \<and> blk_next b < k
               \<and> (\<forall>j \<in> dom L. j < k \<longrightarrow> j \<le> blk_next b)))"

definition carried :: "(block_id \<Rightarrow> block option) \<Rightarrow> command \<Rightarrow> bool" where
  "carried L cmd \<longleftrightarrow> cmd_ok cmd \<and> (\<forall>b \<in> cmd_blocks cmd. L (blk_id b) = Some b)"

text \<open>
  The chain of a node is a part of the ledger that holds the parent of every block it holds, its messages
  say nothing wrong of it, and what it has handed to its state machine is stored and below its commit.
  The leader has the whole ledger and has handed over exactly the blocks up to its commit, in order.
\<close>

definition node_log :: "'db ext \<Rightarrow> (block_id \<Rightarrow> block option) \<Rightarrow> 'db raft_handle \<Rightarrow> bool" where
  "node_log E L h \<longleftrightarrow> handle_ok E h
     \<and> chain_block E (h_chain h) \<subseteq>\<^sub>m L \<and> parents_ok (chain_block E (h_chain h))
     \<and> (\<forall>m \<in> set (sent (h_rpc h)). truthful E (h_id h) (h_chain h) (msg_command m))
     \<and> (if is_leader h then chain_block E (h_chain h) = L \<and> (\<forall>k \<in> dom L. k \<le> get_head (h_chain h))
           \<and> between (chain_block E (h_chain h)) genesis (get_commit (h_chain h)) (applied_blocks (sent (h_fsm h)))
        else \<forall>b. Apply b \<in> set (sent (h_fsm h)) \<longrightarrow>
           chain_block E (h_chain h) (blk_id b) = Some b \<and> blk_id b < get_commit (h_chain h))"

lemma ledger_okD:
  assumes "ledger_ok L" and "L k = Some b"
  shows "blk_id b = k" "id_ok k" "id_ok (blk_next b)"
    "k \<noteq> genesis \<Longrightarrow> L (blk_next b) \<noteq> None" "k \<noteq> genesis \<Longrightarrow> blk_next b < k"
    "k \<noteq> genesis \<Longrightarrow> j \<in> dom L \<Longrightarrow> j < k \<Longrightarrow> j \<le> blk_next b"
  using assms unfolding ledger_ok_def by blast+

lemma ledger_genesis: "ledger_ok [genesis \<mapsto> genesis_block]"
  by (simp add: ledger_ok_def genesis_block_def) (simp add: genesis_def)

lemma map_le_Some: "m \<subseteq>\<^sub>m m' \<Longrightarrow> m k = Some v \<Longrightarrow> m' k = Some v"
  by (metis domI map_le_def)

lemma map_le_both:
  assumes "m \<subseteq>\<^sub>m L" and "m' \<subseteq>\<^sub>m L" and "dom m \<subseteq> dom m'"
  shows "m \<subseteq>\<^sub>m m'"
  unfolding map_le_def
proof
  fix k
  assume k: "k \<in> dom m"
  then have "k \<in> dom m'" using assms(3) by blast
  with k show "m k = m' k" using assms(1,2) by (simp add: map_le_def)
qed

lemma truthful_carried:
  assumes "truthful E i c cmd" and "chain_block E c \<subseteq>\<^sub>m L" and "ledger_ok L"
  shows "carried L cmd"
proof (cases cmd)
  case (AppendEntries t l bs)
  have "L (blk_id b) = Some b" if "b \<in> set bs" for b
    using that assms(1,2) AppendEntries by (auto simp: truthful_def intro: map_le_Some)
  then show ?thesis using AppendEntries ledger_okD(2,3) [OF assms(3)] by (fastforce simp: carried_def)
qed (use assms(1) in \<open>simp_all add: truthful_def carried_def\<close>)

text \<open>A part of the ledger that holds the parents of its blocks holds everything below a block it holds.\<close>

lemma part_below:
  assumes "ledger_ok L" and "C \<subseteq>\<^sub>m L" and "parents_ok C" and "C h \<noteq> None" and "L k \<noteq> None" and "k \<le> h"
  shows "C k \<noteq> None"
  using assms(4,6)
proof (induction "be_val (bid_bytes h)" arbitrary: h rule: less_induct)
  case less
  obtain b where b: "C h = Some b" using less.prems(1) by blast
  then have Lb: "L h = Some b" by (rule map_le_Some [OF assms(2)])
  show ?case
  proof (cases "k = h")
    case False
    then have lt: "k < h" using less.prems(2) by simp
    have "h \<noteq> genesis" using lt genesis_least [of k] assms(5) ledger_okD(2) [OF assms(1)] by fastforce
    have up: "k \<le> blk_next b" using ledger_okD(6) [OF assms(1) Lb \<open>h \<noteq> genesis\<close> _ lt] assms(5) by blast
    have next': "C (blk_next b) \<noteq> None" using parents_okD(2) [OF assms(3) b] .
    then have "id_ok (blk_next b)" using parents_okD(1) [OF assms(3)] by blast
    then have "be_val (bid_bytes (blk_next b)) < be_val (bid_bytes h)"
      using parents_okD(3) [OF assms(3) b \<open>h \<noteq> genesis\<close>] parents_okD(1) [OF assms(3) b] by (simp add: id_ok_less_iff)
    then show ?thesis using next' up by (rule less.hyps)
  qed (use less.prems in simp)
qed

section \<open>Steps of one node\<close>

lemma follows_node_log:
  assumes "follows E cmd r h'" and "handle_ok E h'" and "h_id h' = rf_id r" and "ledger_ok L"
    and "chain_block E (rf_chain r) \<subseteq>\<^sub>m L" and "parents_ok (chain_block E (rf_chain r))"
    and "\<forall>m \<in> set (sent (rpc_tx r)). truthful E (rf_id r) (rf_chain r) (msg_command m)"
    and "\<forall>b. Apply b \<in> set (sent (fsm_tx r)) \<longrightarrow>
      chain_block E (rf_chain r) (blk_id b) = Some b \<and> blk_id b < get_commit (rf_chain r)"
    and "carried L cmd" and "is_leader h' \<longrightarrow> L = [genesis \<mapsto> genesis_block]"
  shows "node_log E L h'" and "chain_block E (rf_chain r) \<subseteq>\<^sub>m chain_block E (h_chain h')"
proof -
  let ?C = "chain_block E (rf_chain r)" and ?C' = "chain_block E (h_chain h')"
  have new: "?C k = Some b \<or> b \<in> cmd_blocks cmd \<and> blk_id b = k \<and> ?C' (blk_next b) \<noteq> None"
    if "?C' k = Some b" for k b
    using assms(1) that unfolding follows_def by blast
  have le: "?C' \<subseteq>\<^sub>m L" unfolding map_le_def
  proof
    fix k
    assume "k \<in> dom ?C'"
    then obtain b where b: "?C' k = Some b" by blast
    from new [OF this] have "L k = Some b" using assms(5,9) by (auto simp: carried_def intro: map_le_Some)
    with b show "?C' k = L k" by simp
  qed
  have dom: "dom ?C \<subseteq> dom ?C'" using assms(1) unfolding follows_def by blast
  show grow: "?C \<subseteq>\<^sub>m ?C'" by (rule map_le_both [OF assms(5) le dom])
  have gen: "?C' genesis = Some genesis_block"
  proof -
    have "genesis \<in> dom ?C'" using assms(6) dom by (auto simp: parents_ok_def)
    then show ?thesis using le assms(4) by (simp add: map_le_def ledger_ok_def)
  qed
  have par: "parents_ok ?C'"
    unfolding parents_ok_def
  proof (intro conjI allI impI)
    show "\<exists>g. ?C' genesis = Some g \<and> blk_next g = genesis" using gen by (simp add: genesis_block_def)
    fix k b
    assume b: "?C' k = Some b"
    note L = map_le_Some [OF le b]
    show "id_ok k" by (rule ledger_okD(2) [OF assms(4) L])
    show "?C' (blk_next b) \<noteq> None" using new [OF b] parents_okD(2) [OF assms(6)] dom by blast
    show "k = genesis \<or> blk_next b < k" using ledger_okD(5) [OF assms(4) L] by blast
  qed
  have commit: "get_commit (rf_chain r) \<le> get_commit (h_chain h')"
    using assms(1) unfolding follows_def by (auto intro: less_imp_le)
  have "truthful E (h_id h') (h_chain h') (msg_command m)" if "m \<in> set (sent (h_rpc h'))" for m
  proof -
    have "m \<in> set (sent (rpc_tx r)) \<or> truthful E (rf_id r) (h_chain h') (msg_command m)"
      using assms(1) that unfolding follows_def by auto
    then show ?thesis using assms(3,7) truthful_mono [OF _ grow commit] by auto
  qed
  moreover have app: "?C' (blk_id b) = Some b \<and> blk_id b < get_commit (h_chain h')"
    if "Apply b \<in> set (sent (h_fsm h'))" for b
  proof -
    have "Apply b \<in> set (sent (fsm_tx r)) \<or> ?C' (blk_id b) = Some b \<and> blk_id b < get_commit (h_chain h')"
      using assms(1) that unfolding follows_def by auto
    then show ?thesis using assms(8) map_le_Some [OF grow] less_le_trans [OF _ commit] by blast
  qed
  moreover have "?C' = L \<and> (\<forall>k \<in> dom L. k \<le> get_head (h_chain h'))
      \<and> between ?C' genesis (get_commit (h_chain h')) (applied_blocks (sent (h_fsm h')))" if "is_leader h'"
  proof -
    have L: "L = [genesis \<mapsto> genesis_block]" using assms(10) that by blast
    have "?C' k = L k" for k using map_le_Some [OF le, of k] gen L by (cases "?C' k") (auto split: if_splits)
    then have eq: "?C' = L" by blast
    have ok: "chain_ok E (h_chain h')" using assms(2) by (cases h') (auto dest: leader_okD(1))
    then have "id_ok (get_head (h_chain h'))" "id_ok (get_commit (h_chain h'))"
      by (simp_all add: chain_head_id_ok chain_commit_id_ok get_head_def get_commit_def)
    moreover have c: "get_commit (h_chain h') = genesis"
      using chain_store.committed_stored [OF ok] eq L by (auto split: if_splits)
    moreover have "b \<notin> set (applied_blocks (sent (h_fsm h')))" for b
      using app [of b] eq L c by (auto simp: applied_blocks_mem split: if_splits)
    then have "applied_blocks (sent (h_fsm h')) = []" by (cases "applied_blocks (sent (h_fsm h'))") auto
    ultimately show ?thesis using eq L genesis_least by auto
  qed
  ultimately show "node_log E L h'" using assms(2) le par by (auto simp: node_log_def)
qed


lemma follower_step_log:
  assumes "node_log E L h" and "\<not> is_leader h" and "handle_apply E I h cmd = Inr h'" and "h_id h' = h_id h"
    and "ledger_ok L" and "carried L cmd" and "is_leader h' \<longrightarrow> L = [genesis \<mapsto> genesis_block]"
  shows "node_log E L h'" and "chain_block E (h_chain h) \<subseteq>\<^sub>m chain_block E (h_chain h')"
    and "get_commit (h_chain h') = get_commit (h_chain h) \<or> get_commit (h_chain h') \<in> cmd_commits cmd"
    and "new_leader h'"
proof -
  have cmd: "cmd_ok cmd" using assms(6) by (simp add: carried_def)
  have ok: "handle_ok E h'" using handle_apply_inv [OF _ cmd assms(3)] assms(1) by (simp add: node_log_def)
  have concl: "node_log E L h' \<and> chain_block E (h_chain h) \<subseteq>\<^sub>m chain_block E (h_chain h') \<and> new_leader h'
      \<and> (get_commit (h_chain h') = get_commit (h_chain h) \<or> get_commit (h_chain h') \<in> cmd_commits cmd)"
    if f: "follows E cmd r h'" and r: "h_chain h = rf_chain r" "h_fsm h = fsm_tx r" "h_rpc h = rpc_tx r" "h_id h = rf_id r"
    for r :: "('a, 'r) raft"
  proof -
    have l: "chain_block E (rf_chain r) \<subseteq>\<^sub>m L" "parents_ok (chain_block E (rf_chain r))"
      "\<forall>m \<in> set (sent (rpc_tx r)). truthful E (rf_id r) (rf_chain r) (msg_command m)"
      "\<forall>b. Apply b \<in> set (sent (fsm_tx r)) \<longrightarrow>
        chain_block E (rf_chain r) (blk_id b) = Some b \<and> blk_id b < get_commit (rf_chain r)"
      using assms(1,2) by (simp_all add: node_log_def r)
    have "new_leader h'" "get_commit (h_chain h') = get_commit (h_chain h) \<or> get_commit (h_chain h') \<in> cmd_commits cmd"
      using f unfolding follows_def r by blast+
    then show ?thesis
      using follows_node_log [OF f ok _ assms(5) l assms(6,7)] assms(4) by (simp add: r)
  qed
  have "node_log E L h' \<and> chain_block E (h_chain h) \<subseteq>\<^sub>m chain_block E (h_chain h') \<and> new_leader h'
      \<and> (get_commit (h_chain h') = get_commit (h_chain h) \<or> get_commit (h_chain h') \<in> cmd_commits cmd)"
  proof (cases h)
    case (Follower r)
    then have "follows E cmd r h'"
      using assms(1,3) cmd follower_follows [of E I r cmd h'] by (simp add: node_log_def)
    then show ?thesis using Follower by (intro concl) simp_all
  next
    case (Candidate r)
    then have "follows E cmd r h'"
      using assms(1,3) candidate_calm [of E I r cmd h'] by (simp add: node_log_def calm_follows)
    then show ?thesis using Candidate by (intro concl) simp_all
  qed (use assms(2) in simp)
  then show "node_log E L h'" and "chain_block E (h_chain h) \<subseteq>\<^sub>m chain_block E (h_chain h')"
    and "get_commit (h_chain h') = get_commit (h_chain h) \<or> get_commit (h_chain h') \<in> cmd_commits cmd"
    and "new_leader h'" by blast+
qed

text \<open>The leader's step adds at most a block on top of the ledger.\<close>

lemma ledger_grows:
  assumes "ledger_ok L" and "\<forall>k \<in> dom L. k \<le> tip" and "L tip \<noteq> None" and "tip < blk_id b" and "blk_next b = tip"
    and "id_ok (blk_id b)"
  shows "ledger_ok (L(blk_id b \<mapsto> b))" and "L \<subseteq>\<^sub>m L(blk_id b \<mapsto> b)"
proof -
  have new: "blk_id b \<notin> dom L" using assms(2,4) by (meson leD)
  then show "L \<subseteq>\<^sub>m L(blk_id b \<mapsto> b)" by (auto simp: map_le_def)
  have "id_ok tip" using assms(1,3) ledger_okD(2) by blast
  have "blk_id b \<noteq> genesis" using new assms(1) by (auto simp: ledger_ok_def)
  have lt: "k < blk_id b" if "k \<in> dom L" for k using assms(2,4) that by (meson le_less_trans)
  show "ledger_ok (L(blk_id b \<mapsto> b))"
    unfolding ledger_ok_def
  proof (intro conjI allI impI)
    show "(L(blk_id b \<mapsto> b)) genesis = Some genesis_block"
      using assms(1) \<open>blk_id b \<noteq> genesis\<close> by (simp add: ledger_ok_def)
    fix k x
    assume x: "(L(blk_id b \<mapsto> b)) k = Some x"
    have "blk_id x = k \<and> id_ok k \<and> id_ok (blk_next x) \<and> (k = genesis \<or> (L(blk_id b \<mapsto> b)) (blk_next x) \<noteq> None
        \<and> blk_next x < k \<and> (\<forall>j \<in> dom (L(blk_id b \<mapsto> b)). j < k \<longrightarrow> j \<le> blk_next x))"
    proof (cases "k = blk_id b")
      case True
      then show ?thesis using x assms(2-6) \<open>id_ok tip\<close> by auto
    next
      case False
      then have L: "L k = Some x" using x by simp
      have "k < blk_id b" using lt L by blast
      then have "j \<le> blk_next x" if "k \<noteq> genesis" "j \<in> dom (L(blk_id b \<mapsto> b))" "j < k" for j
        using that by (intro ledger_okD(6) [OF assms(1) L]) auto
      moreover have "(L(blk_id b \<mapsto> b)) (blk_next x) \<noteq> None" if "k \<noteq> genesis"
        using ledger_okD(4) [OF assms(1) L that] by simp
      ultimately show ?thesis using ledger_okD(1-3,5) [OF assms(1) L] by blast
    qed
    then show "blk_id x = k" "id_ok k" "id_ok (blk_next x)"
      "k = genesis \<or> (L(blk_id b \<mapsto> b)) (blk_next x) \<noteq> None \<and> blk_next x < k
        \<and> (\<forall>j \<in> dom (L(blk_id b \<mapsto> b)). j < k \<longrightarrow> j \<le> blk_next x)" by blast+
  qed
qed

lemma leads_grows:
  assumes "leads E cmd r r'" and "chain_block E (rf_chain r) = L" and "\<forall>k \<in> dom L. k \<le> get_head (rf_chain r)"
    and "ledger_ok L" and "chain_ok E (rf_chain r)" and "chain_ok E (rf_chain r')"
  shows "L \<subseteq>\<^sub>m chain_block E (rf_chain r')" and "ledger_ok (chain_block E (rf_chain r'))"
    and "\<forall>k \<in> dom (chain_block E (rf_chain r')). k \<le> get_head (rf_chain r')"
proof -
  let ?L = "chain_block E (rf_chain r')"
  consider "?L = L" "get_head (rf_chain r') = get_head (rf_chain r)"
    | b where "get_head (rf_chain r) < blk_id b" "blk_next b = get_head (rf_chain r)" "get_head (rf_chain r') = blk_id b"
        "?L = L(blk_id b \<mapsto> b)"
    using assms(1,2) unfolding leads_def by blast
  then have "L \<subseteq>\<^sub>m ?L \<and> ledger_ok ?L \<and> (\<forall>k \<in> dom ?L. k \<le> get_head (rf_chain r'))"
  proof cases
    case 2
    have "id_ok (blk_id b)" using chain_head_id_ok [OF assms(6)] 2(3) by (simp add: get_head_def)
    moreover have "L (get_head (rf_chain r)) \<noteq> None" using chain_store.head_stored [OF assms(5)] assms(2) by simp
    moreover have "k \<le> blk_id b" if "k \<in> dom L" for k
      using assms(3) that 2(1) by (meson less_imp_le order_trans)
    ultimately show ?thesis using ledger_grows [OF assms(4,3) _ 2(1,2)] 2(3,4) by auto
  qed (use assms(3,4) in simp_all)
  then show "L \<subseteq>\<^sub>m ?L" and "ledger_ok ?L" and "\<forall>k \<in> dom ?L. k \<le> get_head (rf_chain r')" by blast+
qed


lemma between_join:
  assumes "between B lo mid xs" and "between B' mid hi ys" and "B \<subseteq>\<^sub>m B'" and "lo \<le> mid" and "mid \<le> hi"
    and "\<And>k. B' k \<noteq> None \<Longrightarrow> k \<le> mid \<Longrightarrow> B k \<noteq> None"
  shows "between B' lo hi (xs @ ys)"
proof -
  have "sorted_wrt (<) (map blk_id (xs @ ys))"
    using assms(1,2) by (force simp: between_def sorted_wrt_append intro: le_less_trans)
  moreover have "b \<in> set xs \<longleftrightarrow> B' (blk_id b) = Some b \<and> lo < blk_id b \<and> blk_id b \<le> mid" for b
    using assms(1,6) map_le_Some [OF assms(3), of "blk_id b"] by (fastforce simp: between_def)
  moreover have "b \<in> set ys \<longleftrightarrow> B' (blk_id b) = Some b \<and> mid < blk_id b \<and> blk_id b \<le> hi" for b
    using assms(2) by (simp add: between_def)
  ultimately have "b \<in> set (xs @ ys) \<longleftrightarrow> B' (blk_id b) = Some b \<and> lo < blk_id b \<and> blk_id b \<le> hi" for b
    using assms(4,5) by (cases "blk_id b \<le> mid") (auto intro: le_less_trans order_trans)
  with \<open>sorted_wrt (<) (map blk_id (xs @ ys))\<close> show ?thesis unfolding between_def by blast
qed

lemma leader_step_log:
  assumes "node_log E L h" and "h = Leader r" and "handle_apply E I h cmd = Inr h'"
    and "ledger_ok L" and "carried L cmd"
  obtains r' where "h' = Leader r'" "rf_id r' = rf_id r" "leads E cmd r r'"
    "L \<subseteq>\<^sub>m chain_block E (rf_chain r')" "ledger_ok (chain_block E (rf_chain r'))"
    "node_log E (chain_block E (rf_chain r')) h'"
proof -
  obtain r' where r': "h' = Leader r'" "rf_id r' = rf_id r"
    using leader_apply_quiet [of E I r cmd h'] assms(2,3) by (auto simp: quiet_def)
  have ok: "leader_ok E r" and cmd: "cmd_ok cmd" using assms(1,2,5) by (simp_all add: node_log_def carried_def)
  have ok': "leader_ok E r'" using leader_apply_inv [OF ok cmd] assms(2,3) r' by simp
  have l: "leads E cmd r r'" using leader_leads [OF _ ok cmd] assms(2,3) r' by simp
  have c: "chain_block E (rf_chain r) = L" "\<forall>k \<in> dom L. k \<le> get_head (rf_chain r)"
    and app: "between L genesis (get_commit (rf_chain r)) (applied_blocks (sent (fsm_tx r)))"
    using assms(1,2) unfolding node_log_def by auto
  let ?L = "chain_block E (rf_chain r')"
  note grow = leads_grows [OF l c assms(4) leader_okD(1) [OF ok] leader_okD(1) [OF ok']]
  have commit: "get_commit (rf_chain r) \<le> get_commit (rf_chain r')"
    using l unfolding leads_def by (auto intro: less_imp_le)
  have "truthful E (rf_id r') (rf_chain r') (msg_command m)" if "m \<in> set (sent (rpc_tx r'))" for m
  proof -
    have "m \<in> set (sent (rpc_tx r)) \<or> truthful E (rf_id r) (rf_chain r') (msg_command m)"
      using l that unfolding leads_def by auto
    then show ?thesis
      using assms(1,2) truthful_mono [OF _ _ commit] grow(1) c(1) r'(2) by (auto simp: node_log_def)
  qed
  moreover have "between ?L genesis (get_commit (rf_chain r')) (applied_blocks (sent (fsm_tx r')))"
  proof -
    obtain js where js: "sent (fsm_tx r') = sent (fsm_tx r) @ js"
      "between ?L (get_commit (rf_chain r)) (get_commit (rf_chain r')) (applied_blocks js)"
      using l unfolding leads_def by blast
    have "get_commit (rf_chain r) \<in> dom L"
      using chain_store.committed_stored [OF leader_okD(1) [OF ok]] c(1) by auto
    then have "genesis \<le> get_commit (rf_chain r)" "get_commit (rf_chain r) \<le> get_head (rf_chain r)"
      using genesis_least ledger_okD(2) [OF assms(4)] c(2) by blast+
    moreover have "L k \<noteq> None" if "?L k \<noteq> None" "k \<le> get_commit (rf_chain r)" for k
    proof -
      have "?L = L \<or> (\<exists>b. get_head (rf_chain r) < blk_id b \<and> ?L = L(blk_id b \<mapsto> b))"
        using l c(1) unfolding leads_def by blast
      then show ?thesis using that \<open>get_commit (rf_chain r) \<le> get_head (rf_chain r)\<close> by (auto split: if_splits)
    qed
    ultimately show ?thesis
      using between_join [OF app js(2) grow(1) _ commit] js(1) by simp
  qed
  moreover have "parents_ok ?L"
    using ledger_okD [OF grow(2)] grow(2)
    by (fastforce simp: parents_ok_def ledger_ok_def genesis_block_def)
  ultimately have "node_log E ?L h'" using ok' r' grow(3) by (simp add: node_log_def)
  with r' l grow(1,2) show ?thesis by (rule that)
qed


section \<open>The cluster\<close>

text \<open>The nodes that store a block, and whether they are more than half of the cluster.\<close>

definition stored_by :: "'db ext \<Rightarrow> node_id list \<Rightarrow> 'db cluster \<Rightarrow> block_id \<Rightarrow> node_id set" where
  "stored_by E ids s k = {n \<in> set ids. chain_block E (h_chain (cl_node s n)) k \<noteq> None}"

definition durable :: "'db ext \<Rightarrow> node_id list \<Rightarrow> 'db cluster \<Rightarrow> block_id \<Rightarrow> bool" where
  "durable E ids s k \<longleftrightarrow> length ids < 2 * card (stored_by E ids s k)"

text \<open>
  Every commit is durable, and the heads the leader has in its progress are stored by the nodes it has
  them of.
\<close>

definition log_inv :: "'db ext \<Rightarrow> node_id list \<Rightarrow> (block_id \<Rightarrow> block option) \<Rightarrow> 'db cluster \<Rightarrow> bool" where
  "log_inv E ids L s \<longleftrightarrow> ledger_ok L \<and> (\<forall>i \<in> set ids. node_log E L (cl_node s i))
     \<and> ((\<forall>i \<in> set ids. \<not> is_leader (cl_node s i)) \<longrightarrow> L = [genesis \<mapsto> genesis_block])
     \<and> (\<forall>i \<in> set ids. durable E ids s (get_commit (h_chain (cl_node s i))))
     \<and> (\<forall>i \<in> set ids. \<forall>r n k. cl_node s i = Leader r \<longrightarrow> head_of (ld_progress (rf_role r)) n = Some k \<longrightarrow>
          chain_block E (h_chain (cl_node s n)) k \<noteq> None)"

lemma log_invD:
  assumes "log_inv E ids L s"
  shows "ledger_ok L" "i \<in> set ids \<Longrightarrow> node_log E L (cl_node s i)"
    "(\<And>i. i \<in> set ids \<Longrightarrow> \<not> is_leader (cl_node s i)) \<Longrightarrow> L = [genesis \<mapsto> genesis_block]"
    "i \<in> set ids \<Longrightarrow> durable E ids s (get_commit (h_chain (cl_node s i)))"
    "i \<in> set ids \<Longrightarrow> cl_node s i = Leader r \<Longrightarrow> head_of (ld_progress (rf_role r)) n = Some k \<Longrightarrow>
      chain_block E (h_chain (cl_node s n)) k \<noteq> None"
  using assms unfolding log_inv_def by blast+

lemma node_logD:
  assumes "node_log E L h"
  shows "handle_ok E h" "chain_block E (h_chain h) \<subseteq>\<^sub>m L" "parents_ok (chain_block E (h_chain h))"
    "m \<in> set (sent (h_rpc h)) \<Longrightarrow> truthful E (h_id h) (h_chain h) (msg_command m)"
    "Apply b \<in> set (sent (h_fsm h)) \<Longrightarrow> chain_block E (h_chain h) (blk_id b) = Some b \<and> blk_id b \<le> get_commit (h_chain h)"
    "is_leader h \<Longrightarrow> chain_block E (h_chain h) = L"
    "is_leader h \<Longrightarrow> between L genesis (get_commit (h_chain h)) (applied_blocks (sent (h_fsm h)))"
  using assms
  by (auto simp: node_log_def between_def applied_blocks_mem [symmetric] less_imp_le split: if_splits)

lemma node_log_mono:
  assumes "node_log E L h" and "L \<subseteq>\<^sub>m L'" and "\<not> is_leader h"
  shows "node_log E L' h"
  using assms by (auto simp: node_log_def intro: map_le_trans)

lemma durable_mono:
  assumes "durable E ids s k" and "\<And>n. n \<in> stored_by E ids s k \<Longrightarrow> n \<in> stored_by E ids s' k'"
  shows "durable E ids s' k'"
proof -
  have "card (stored_by E ids s k) \<le> card (stored_by E ids s' k')"
    using assms(2) by (intro card_mono) (auto simp: stored_by_def)
  with assms(1) show ?thesis by (simp add: durable_def)
qed

text \<open>What is below a durable block is durable.\<close>

lemma durable_below:
  assumes "\<And>i. i \<in> set ids \<Longrightarrow> node_log E L (cl_node s i)" and "ledger_ok L"
    and "durable E ids s h" and "L k \<noteq> None" and "k \<le> h"
  shows "durable E ids s k"
  using assms(3)
proof (rule durable_mono)
  fix n
  assume "n \<in> stored_by E ids s h"
  then have n: "n \<in> set ids" "chain_block E (h_chain (cl_node s n)) h \<noteq> None" by (simp_all add: stored_by_def)
  have "chain_block E (h_chain (cl_node s n)) k \<noteq> None"
    by (rule part_below [OF assms(2) node_logD(2,3) [OF assms(1) [OF n(1)]] n(2) assms(4,5)])
  with n(1) show "n \<in> stored_by E ids s k" by (simp add: stored_by_def)
qed

text \<open>The block a leader commits is durable.\<close>

lemma committed_durable:
  assumes "\<And>i. i \<in> set ids \<Longrightarrow> node_log E L (cl_node s i)" and "ledger_ok L" and "distinct ids"
    and "leader_ok E r" and "set ids = cluster_ids r" and "committed_index (ld_progress (rf_role r)) = Inr q"
    and "L q \<noteq> None"
    and "\<And>n k. head_of (ld_progress (rf_role r)) n = Some k \<Longrightarrow> chain_block E (h_chain (cl_node s n)) k \<noteq> None"
  shows "durable E ids s q"
proof -
  let ?P = "ld_progress (rf_role r)"
  have rp: "rp_ok ?P" by (rule leader_okD(2) [OF assms(4)])
  have "dom (head_of ?P) = dom (map_of ?P)" by (auto simp: head_of_def dom_def)
  then have "fst ` set ?P = dom (head_of ?P)" by (simp add: dom_map_of_conv_image_fst)
  also have "\<dots> = set ids" using leader_okD(3) [OF assms(4)] assms(5) by simp
  finally have "card (fst ` set ?P) = length ids" using distinct_card [OF assms(3)] by simp
  then have len: "length ?P = length ids"
    using rp distinct_card [of "map fst ?P"] by (simp add: rp_ok_def)
  have "reached ?P q \<subseteq> stored_by E ids s q"
  proof
    fix n
    assume "n \<in> reached ?P q"
    then obtain h where h: "head_of ?P n = Some h" "q \<le> h" by (auto simp: reached_def)
    then have n: "n \<in> set ids" using leader_okD(3) [OF assms(4)] assms(5) by blast
    have "chain_block E (h_chain (cl_node s n)) q \<noteq> None"
      by (rule part_below [OF assms(2) node_logD(2,3) [OF assms(1) [OF n]] assms(8) [OF h(1)] assms(7) h(2)])
    with n show "n \<in> stored_by E ids s q" by (simp add: stored_by_def)
  qed
  then have "card (reached ?P q) \<le> card (stored_by E ids s q)"
    by (intro card_mono) (simp_all add: stored_by_def)
  with committed_index_counts(1) [OF rp assms(6)] len show ?thesis by (simp add: durable_def)
qed


text \<open>A command a node is given in the cluster: what it says of another node is so.\<close>

definition justified :: "'db ext \<Rightarrow> node_id list \<Rightarrow> (block_id \<Rightarrow> block option) \<Rightarrow> 'db cluster \<Rightarrow> command \<Rightarrow> bool" where
  "justified E ids L s cmd \<longleftrightarrow> carried L cmd
     \<and> (\<forall>(n, k) \<in> cmd_acks cmd. chain_block E (h_chain (cl_node s n)) k \<noteq> None)
     \<and> (\<forall>k \<in> cmd_commits cmd. \<exists>j \<in> set ids. k \<le> get_commit (h_chain (cl_node s j)))"

lemma delivered_justified:
  assumes "log_inv E ids L s" and "cluster_inv ids s" and "j \<in> set ids" and "m \<in> set (sent (h_rpc (cl_node s j)))"
  shows "justified E ids L s (msg_command m)"
proof -
  note j = log_invD(2) [OF assms(1,3)]
  have "h_id (cl_node s j) = j" using assms(2,3) by (simp add: cluster_inv_def node_ok_def)
  then have t: "truthful E j (h_chain (cl_node s j)) (msg_command m)" using node_logD(4) [OF j assms(4)] by simp
  have "carried L (msg_command m)"
    by (rule truthful_carried [OF t node_logD(2) [OF j] log_invD(1) [OF assms(1)]])
  with t assms(3) show ?thesis by (auto simp: justified_def truthful_def)
qed

lemma local_justified: "local_command cmd \<Longrightarrow> justified E ids L s cmd"
  by (cases cmd) (simp_all add: justified_def carried_def)

lemma member_progress:
  assumes "cluster_inv ids s" and "i \<in> set ids" and "cl_node s i = Leader r"
  shows "set ids = cluster_ids r"
proof -
  have "set (voters_of (cl_node s i)) = set ids" using assms(1,2) by (simp add: cluster_inv_def node_ok_def)
  then show ?thesis using assms(3) by (auto simp: voters_of_def cluster_ids_def)
qed

text \<open>What a step of node \<open>i\<close> does to the invariant, given what it does to the node.\<close>

lemma log_inv_node:
  fixes s :: "'db cluster" and i :: node_id and h :: "'db raft_handle"
  defines "s' \<equiv> s\<lparr>cl_node := (cl_node s)(i := h)\<rparr>"
  assumes "log_inv E ids L s" and "cluster_inv ids s'" and "i \<in> set ids" and "L \<subseteq>\<^sub>m L'" and "ledger_ok L'"
    and "node_log E L' h" and "\<And>k. k \<in> set ids \<Longrightarrow> k \<noteq> i \<Longrightarrow> is_leader (cl_node s k) \<Longrightarrow> L' = L"
    and "chain_block E (h_chain (cl_node s i)) \<subseteq>\<^sub>m chain_block E (h_chain h)"
    and "(\<And>k. k \<in> set ids \<Longrightarrow> \<not> is_leader (cl_node s' k)) \<Longrightarrow> L' = [genesis \<mapsto> genesis_block]"
    and "durable E ids s' (get_commit (h_chain h))"
    and "\<And>r n k. h = Leader r \<Longrightarrow> n \<in> set ids \<Longrightarrow> head_of (ld_progress (rf_role r)) n = Some k \<Longrightarrow>
      chain_block E (h_chain (cl_node s' n)) k \<noteq> None"
  shows "log_inv E ids L' s'"
proof -
  have grow: "chain_block E (h_chain (cl_node s n)) \<subseteq>\<^sub>m chain_block E (h_chain (cl_node s' n))" for n
    using assms(9) by (simp add: s'_def)
  have up: "chain_block E (h_chain (cl_node s' n)) k \<noteq> None" if "chain_block E (h_chain (cl_node s n)) k \<noteq> None" for n k
    using that map_le_Some [OF grow] by blast
  show ?thesis
    unfolding log_inv_def
  proof (intro conjI ballI allI impI)
    show "ledger_ok L'" by fact
    fix k
    assume k: "k \<in> set ids"
    show "node_log E L' (cl_node s' k)"
      using log_invD(2) [OF assms(2) k] assms(5,7) assms(8) [of k] k node_log_mono [of E L "cl_node s k" L']
      by (cases "k = i"; cases "is_leader (cl_node s k)") (auto simp: s'_def)
    show "durable E ids s' (get_commit (h_chain (cl_node s' k)))"
    proof (cases "k = i")
      case False
      have "durable E ids s' (get_commit (h_chain (cl_node s k)))"
        by (rule durable_mono [OF log_invD(4) [OF assms(2) k]]) (use up in \<open>auto simp: stored_by_def\<close>)
      with False show ?thesis by (simp add: s'_def)
    qed (use assms(11) in \<open>simp add: s'_def\<close>)
    fix r n x
    assume r: "cl_node s' k = Leader r" and x: "head_of (ld_progress (rf_role r)) n = Some x"
    have "handle_ok E (cl_node s' k)" using \<open>node_log E L' (cl_node s' k)\<close> by (rule node_logD(1))
    then have "n \<in> set ids"
      using r x leader_okD(3) [of E r] member_progress [OF assms(3) k r] by auto
    then show "chain_block E (h_chain (cl_node s' n)) x \<noteq> None"
      using r x k assms(12) [of r n x] up [OF log_invD(5) [OF assms(2) k _ x]] by (cases "k = i") (auto simp: s'_def)
  qed (use assms(10) in blast)
qed


text \<open>No node loses a block.\<close>

definition grown :: "'db ext \<Rightarrow> 'db cluster \<Rightarrow> 'db cluster \<Rightarrow> bool" where
  "grown E s s' \<longleftrightarrow> (\<forall>n. chain_block E (h_chain (cl_node s n)) \<subseteq>\<^sub>m chain_block E (h_chain (cl_node s' n)))"

lemma grown_trans: "grown E s t \<Longrightarrow> grown E t u \<Longrightarrow> grown E s u"
  unfolding grown_def by (blast intro: map_le_trans)

lemma leader_update:
  fixes s :: "'db cluster" and i :: node_id and h :: "'db raft_handle"
  defines "s' \<equiv> s\<lparr>cl_node := (cl_node s)(i := h)\<rparr>"
  assumes "log_inv E ids L s" and "cluster_inv ids s" and "cluster_inv ids s'" and "distinct ids" and "1 < length ids"
    and "i \<in> set ids" and "cl_node s i = Leader r" and "handle_apply E I (cl_node s i) cmd = Inr h"
    and "justified E ids L s cmd"
  shows "\<exists>L'. L \<subseteq>\<^sub>m L' \<and> log_inv E ids L' s' \<and> grown E s s'"
proof -
  note i = log_invD(2) [OF assms(2,7)]
  have carried: "carried L cmd" using assms(10) by (simp add: justified_def)
  obtain r' where r': "h = Leader r'" "rf_id r' = rf_id r" "leads E cmd r r'"
    "L \<subseteq>\<^sub>m chain_block E (rf_chain r')" "ledger_ok (chain_block E (rf_chain r'))"
    "node_log E (chain_block E (rf_chain r')) h"
    by (rule leader_step_log [OF i assms(8,9) log_invD(1) [OF assms(2)] carried])
  let ?L = "chain_block E (rf_chain r')"
  have self: "rf_id r = i" using assms(3,7,8) by (auto simp: cluster_inv_def node_ok_def)
  have chain: "chain_block E (h_chain (cl_node s i)) = L" using node_logD(6) [OF i] assms(8) by simp
  have only: "\<not> is_leader (cl_node s k)" if "k \<in> set ids" "k \<noteq> i" for k
    using leaders_agree [OF assms(3,5,6) that(1) assms(7)] that(2) assms(8) by auto
  have up: "chain_block E (h_chain (cl_node s' n)) k \<noteq> None" if "chain_block E (h_chain (cl_node s n)) k \<noteq> None" for n k
    using that map_le_Some [OF r'(4)] chain r'(1) by (cases "n = i") (auto simp: s'_def)
  have heads: "chain_block E (h_chain (cl_node s' n)) k \<noteq> None"
    if "head_of (ld_progress (rf_role r')) n = Some k" for n k
  proof -
    have "head_of (ld_progress (rf_role r)) n = Some k \<or> (n, k) \<in> cmd_acks cmd \<or> n = i \<and> ?L k \<noteq> None"
      using r'(3) that unfolding leads_def self by blast
    then have "chain_block E (h_chain (cl_node s n)) k \<noteq> None \<or> n = i \<and> ?L k \<noteq> None"
      using log_invD(5) [OF assms(2,7,8), of n k] assms(10) unfolding justified_def by blast
    then show ?thesis using up [of n k] r'(1) by (cases "n = i") (auto simp: s'_def)
  qed
  have nodes: "node_log E ?L (cl_node s' k)" if "k \<in> set ids" for k
    using that r'(6) node_log_mono [OF log_invD(2) [OF assms(2) that] r'(4)] only [of k]
    by (cases "k = i") (auto simp: s'_def)
  have ok: "leader_ok E r'" using node_logD(1) [OF r'(6)] r'(1) by simp
  have stays: "durable E ids s' (get_commit (rf_chain r))"
    using durable_mono [OF log_invD(4) [OF assms(2,7)], of s'] up assms(8) by (auto simp: stored_by_def)
  have new: "durable E ids s' q" if "committed_index (ld_progress (rf_role r')) = Inr q" "?L q \<noteq> None" for q
    by (rule committed_durable [OF nodes r'(5) assms(5) ok _ that heads])
      (use member_progress [OF assms(4,7), of r'] r'(1) in \<open>simp_all add: s'_def\<close>)
  have "durable E ids s' (get_commit (rf_chain r'))"
    using r'(3) stays new chain_store.committed_stored [OF leader_okD(1) [OF ok]] unfolding leads_def by metis
  moreover have "?L = [genesis \<mapsto> genesis_block]" if "\<And>k. k \<in> set ids \<Longrightarrow> \<not> is_leader (cl_node s' k)"
    using that [OF assms(7)] r'(1) by (simp add: s'_def)
  ultimately have "log_inv E ids ?L s'"
    unfolding s'_def
    by (intro log_inv_node [OF assms(2) _ assms(7) r'(4,5,6)])
      (use assms(4) r'(1,4) only chain heads in \<open>auto simp: s'_def\<close>)
  moreover have "grown E s s'" using r'(1,4) chain by (auto simp: grown_def s'_def)
  ultimately show ?thesis using r'(4) by blast
qed

lemma follower_update:
  fixes s :: "'db cluster" and i :: node_id and h :: "'db raft_handle"
  defines "s' \<equiv> s\<lparr>cl_node := (cl_node s)(i := h)\<rparr>"
  assumes "log_inv E ids L s" and "cluster_inv ids s" and "cluster_inv ids s'" and "distinct ids" and "1 < length ids"
    and "i \<in> set ids" and "\<not> is_leader (cl_node s i)" and "handle_apply E I (cl_node s i) cmd = Inr h"
    and "justified E ids L s cmd"
  shows "log_inv E ids L s'" and "grown E s s'"
proof -
  note i = log_invD(2) [OF assms(2,7)]
  have "carried L cmd" using assms(10) by (simp add: justified_def)
  have "\<not> is_leader (cl_node s k)" if "is_leader h" "k \<in> set ids" for k
    using leaders_agree [OF assms(4-6) that(2) assms(7)] that assms(8) by (cases "k = i") (auto simp: s'_def)
  then have gen: "is_leader h \<longrightarrow> L = [genesis \<mapsto> genesis_block]" using log_invD(3) [OF assms(2)] by blast
  have "h_id h = i" "h_id (cl_node s i) = i"
    using assms(3,4,7) by (auto simp: cluster_inv_def node_ok_def s'_def)
  then have id: "h_id h = h_id (cl_node s i)" by simp
  note step = follower_step_log [OF i assms(8,9) id log_invD(1) [OF assms(2)] \<open>carried L cmd\<close> gen]
  have up: "chain_block E (h_chain (cl_node s' n)) k \<noteq> None" if "chain_block E (h_chain (cl_node s n)) k \<noteq> None" for n k
    using that map_le_Some [OF step(2)] by (cases "n = i") (auto simp: s'_def)
  have "durable E ids s (get_commit (h_chain h))"
  proof (cases "get_commit (h_chain h) = get_commit (h_chain (cl_node s i))")
    case False
    then obtain j where j: "j \<in> set ids" "get_commit (h_chain h) \<le> get_commit (h_chain (cl_node s j))"
      using step(3) assms(10) by (auto simp: justified_def)
    have "chain_ok E (h_chain h)" using node_logD(1) [OF step(1)] by (cases h) (auto dest: leader_okD(1))
    then have "L (get_commit (h_chain h)) \<noteq> None"
      using chain_store.committed_stored map_le_Some [OF node_logD(2) [OF step(1)]] by blast
    then show ?thesis
      using durable_below [OF log_invD(2) [OF assms(2)] log_invD(1) [OF assms(2)] log_invD(4) [OF assms(2) j(1)] _ j(2)]
      by blast
  qed (use log_invD(4) [OF assms(2,7)] in simp)
  then have "durable E ids s' (get_commit (h_chain h))"
    by (rule durable_mono) (use up in \<open>auto simp: stored_by_def\<close>)
  moreover have "chain_block E (h_chain (cl_node s' n)) k \<noteq> None"
    if "h = Leader r" "n \<in> set ids" "head_of (ld_progress (rf_role r)) n = Some k" for r n k
  proof -
    have "k = genesis" using step(4) that unfolding new_leader_def by blast
    moreover have "chain_block E (h_chain (cl_node s n)) genesis \<noteq> None"
      using node_logD(3) [OF log_invD(2) [OF assms(2) that(2)]] by (auto simp: parents_ok_def)
    ultimately show ?thesis using up by blast
  qed
  moreover have "L = [genesis \<mapsto> genesis_block]" if "\<And>k. k \<in> set ids \<Longrightarrow> \<not> is_leader (cl_node s' k)"
  proof (rule log_invD(3) [OF assms(2)])
    fix k
    assume "k \<in> set ids"
    with that [of k] assms(8) show "\<not> is_leader (cl_node s k)" by (cases "k = i") (auto simp: s'_def)
  qed
  ultimately show "log_inv E ids L s'"
    using assms(4) step(1,2) log_invD(1) [OF assms(2)] unfolding s'_def
    by (intro log_inv_node [OF assms(2) _ assms(7) map_le_refl]) auto
  show "grown E s s'" using step(2) by (simp add: grown_def s'_def)
qed


lemma log_inv_step:
  assumes "log_inv E ids L s" and "cluster_inv ids s" and "distinct ids" and "1 < length ids"
    and "cluster_step E ids s s'"
  shows "\<exists>L'. L \<subseteq>\<^sub>m L' \<and> log_inv E ids L' s' \<and> grown E s s'"
proof -
  note inv' = cluster_step_inv [OF assms(2,5)]
  have update: "\<exists>L'. L \<subseteq>\<^sub>m L' \<and> log_inv E ids L' s' \<and> grown E s s'"
    if "s' = s\<lparr>cl_node := (cl_node s)(i := h)\<rparr>" "i \<in> set ids" "handle_apply E I (cl_node s i) cmd = Inr h"
      "justified E ids L s cmd" for i h I cmd
  proof (cases "cl_node s i")
    case (Leader r)
    then show ?thesis
      using leader_update [OF assms(1,2) _ assms(3,4) that(2) _ that(3,4)] inv' that(1) by simp
  qed (use follower_update [OF assms(1,2) _ assms(3,4) that(2) _ that(3,4)] inv' that(1) in \<open>auto intro!: exI [of _ L]\<close>)
  show ?thesis
    using assms(5)
  proof (cases rule: cluster_step.cases)
    case (deliver i j m I h)
    then show ?thesis using update delivered_justified [OF assms(1,2)] by blast
  next
    case (local i cmd I h)
    then show ?thesis using update local_justified by blast
  next
    case (crash i)
    then show ?thesis
      using assms(1) by (intro exI [of _ L]) (simp add: log_inv_def durable_def stored_by_def grown_def)
  qed
qed

lemma log_inv_reachable:
  assumes "rtranclp (cluster_step E ids) s s'" and "log_inv E ids L s" and "cluster_inv ids s"
    and "distinct ids" and "1 < length ids"
  shows "\<exists>L'. L \<subseteq>\<^sub>m L' \<and> log_inv E ids L' s' \<and> grown E s s'"
  using assms(1)
proof (induction rule: rtranclp_induct)
  case base
  show ?case using assms(2) by (intro exI [of _ L]) (simp add: grown_def)
next
  case (step t u)
  then obtain L1 where L1: "L \<subseteq>\<^sub>m L1" "log_inv E ids L1 t" "grown E s t" by blast
  have "cluster_inv ids t" using step(1) assms(3) by (rule cluster_reachable_inv)
  from log_inv_step [OF L1(2) this assms(4,5) step(2)] L1(1,3) show ?case by (blast intro: map_le_trans grown_trans)
qed

text \<open>The nodes start on empty databases.\<close>

definition cluster_fresh :: "'db ext \<Rightarrow> node_id list \<Rightarrow> 'db cluster \<Rightarrow> bool" where
  "cluster_fresh E ids s \<longleftrightarrow> (\<forall>i \<in> set ids. handle_ok E (cl_node s i)
     \<and> chain_block E (h_chain (cl_node s i)) = [genesis \<mapsto> genesis_block] \<and> sent (h_fsm (cl_node s i)) = [])"

lemma fresh_log_inv:
  assumes "cluster_init ids s" and "cluster_fresh E ids s" and "distinct ids" and "1 < length ids"
  shows "log_inv E ids [genesis \<mapsto> genesis_block] s"
proof -
  have f: "\<not> is_leader (cl_node s i)" "sent (h_rpc (cl_node s i)) = []" "handle_ok E (cl_node s i)"
    "chain_block E (h_chain (cl_node s i)) = [genesis \<mapsto> genesis_block]" "sent (h_fsm (cl_node s i)) = []"
    if "i \<in> set ids" for i
    using assms(1,2) that by (cases "cl_node s i", auto simp: cluster_init_def cluster_fresh_def)+
  have "parents_ok [genesis \<mapsto> genesis_block]"
    by (simp add: parents_ok_def genesis_block_def) (simp add: genesis_def)
  then have "node_log E [genesis \<mapsto> genesis_block] (cl_node s i)" if "i \<in> set ids" for i
    using f [OF that] by (simp add: node_log_def)
  moreover have "get_commit (h_chain (cl_node s i)) = genesis" if "i \<in> set ids" for i
  proof -
    have "chain_ok E (h_chain (cl_node s i))"
      using f(3) [OF that] by (cases "cl_node s i") (auto dest: leader_okD(1))
    then show ?thesis using chain_store.committed_stored [of E] f(4) [OF that] by (metis fun_upd_apply)
  qed
  moreover have "stored_by E ids s genesis = set ids" using f(4) by (auto simp: stored_by_def)
  then have "durable E ids s genesis" using assms(3,4) by (auto simp: durable_def distinct_card)
  moreover have "cl_node s i \<noteq> Leader r" if "i \<in> set ids" for i r using f(1) [OF that] by auto
  ultimately show ?thesis using ledger_genesis by (simp add: log_inv_def)
qed

lemma fresh_reachable:
  assumes "cluster_init ids s0" and "cluster_fresh E ids s0" and "distinct ids" and "1 < length ids"
    and "rtranclp (cluster_step E ids) s0 s"
  obtains L where "log_inv E ids L s" "cluster_inv ids s"
  using log_inv_reachable [OF assms(5) fresh_log_inv [OF assms(1-4)] cluster_init_inv [OF assms(1)] assms(3,4)]
    cluster_reachable_inv [OF assms(5) cluster_init_inv [OF assms(1)]] by blast

section \<open>Properties\<close>

text \<open>
  (C2) State machine safety.  In a cluster of at least two nodes on empty databases, however messages
  are delayed, lost, repeated and reordered and whichever nodes stop: two nodes never store different
  blocks under one identifier, at the same or at different moments, and never hand different blocks
  with one identifier to their state machines; and every block a node has handed to its state machine
  is in the chain of the leader at every later moment.
\<close>

theorem logs_agree:
  assumes "cluster_init ids s0" and "cluster_fresh E ids s0" and "distinct ids" and "1 < length ids"
    and "rtranclp (cluster_step E ids) s0 s" and "rtranclp (cluster_step E ids) s s'"
    and "i \<in> set ids" and "j \<in> set ids"
  shows "(chain_block E (h_chain (cl_node s i)) k = Some b \<longrightarrow>
          chain_block E (h_chain (cl_node s' j)) k = Some b' \<longrightarrow> b = b')
    \<and> (Apply b \<in> set (sent (h_fsm (cl_node s i))) \<longrightarrow>
        Apply b' \<in> set (sent (h_fsm (cl_node s' j))) \<longrightarrow> blk_id b = blk_id b' \<longrightarrow> b = b')
    \<and> (Apply b \<in> set (sent (h_fsm (cl_node s i))) \<longrightarrow> is_leader (cl_node s' j) \<longrightarrow>
        chain_block E (h_chain (cl_node s' j)) (blk_id b) = Some b)"
proof -
  obtain L where L: "log_inv E ids L s" "cluster_inv ids s" by (rule fresh_reachable [OF assms(1-5)])
  obtain L' where L': "L \<subseteq>\<^sub>m L'" "log_inv E ids L' s'"
    using log_inv_reachable [OF assms(6) L assms(3,4)] by blast
  note i = log_invD(2) [OF L(1) assms(7)] and j = log_invD(2) [OF L'(2) assms(8)]
  have stored: "L' k = Some b" if "chain_block E (h_chain (cl_node s i)) k = Some b" for k b
    using map_le_Some [OF map_le_trans [OF node_logD(2) [OF i] L'(1)]] that by blast
  have stored': "L' k = Some b" if "chain_block E (h_chain (cl_node s' j)) k = Some b" for k b
    using map_le_Some [OF node_logD(2) [OF j]] that by blast
  have applied: "L' (blk_id b) = Some b" if "Apply b \<in> set (sent (h_fsm (cl_node s i)))" for b
    using node_logD(5) [OF i that] stored by blast
  have applied': "L' (blk_id b) = Some b" if "Apply b \<in> set (sent (h_fsm (cl_node s' j)))" for b
    using node_logD(5) [OF j that] stored' by blast
  show ?thesis
    using stored stored' applied applied' node_logD(6) [OF j] by (metis option.inject)
qed

lemma demo_cluster_fresh: "cluster_fresh tree_ext [1, 2, 3] demo_cluster"
  by (simp add: cluster_fresh_def demo_cluster_def demo_member_def tree_chain_facts
      timeouts_ok_def state_default_def)

lemma demo_ids:
  "distinct [1, 2, 3 :: node_id]" "1 < length [1, 2, 3 :: node_id]"
  "1 \<in> set [1, 2, 3 :: node_id]" "2 \<in> set [1, 2, 3 :: node_id]"
  by simp_all

lemma demo_applied: "Apply one_block \<in> set (sent (h_fsm (cl_node replicated_cluster 1)))"
  by (simp add: replicated_cluster_def replication_messages)

theorem logs_agree_witness:
  "chain_block tree_ext (h_chain (cl_node replicated_cluster 1)) (BlockId_new 1) = Some one_block
   \<and> chain_block tree_ext (h_chain (cl_node replicated_cluster 2)) (BlockId_new 1) = Some one_block"
proof -
  have "is_leader (cl_node replicated_cluster 1)" "blk_id one_block = BlockId_new 1"
    "chain_block tree_ext (h_chain (cl_node replicated_cluster 2)) (BlockId_new 1) \<noteq> None"
    by (simp_all add: replicated_cluster_def replication_chains one_block_def)
  then show ?thesis
    using demo_applied
      logs_agree [OF demo_cluster_init demo_cluster_fresh demo_ids(1,2) demo_replication rtranclp.rtrancl_refl
        demo_ids(3,3), of genesis one_block one_block]
      logs_agree [OF demo_cluster_init demo_cluster_fresh demo_ids(1,2) demo_replication rtranclp.rtrancl_refl
        demo_ids(3,4), of "BlockId_new 1" one_block]
    by force
qed

text \<open>
  (C4) Committed blocks are durable.  Under the same conditions a block that some node, leader or
  follower, has handed to its state machine is stored by more than half of the nodes, at that and at
  every later moment.
\<close>

theorem applied_on_majority:
  assumes "cluster_init ids s0" and "cluster_fresh E ids s0" and "distinct ids" and "1 < length ids"
    and "rtranclp (cluster_step E ids) s0 s" and "rtranclp (cluster_step E ids) s s'"
    and "i \<in> set ids" and "Apply b \<in> set (sent (h_fsm (cl_node s i)))"
  shows "length ids < 2 * card {n \<in> set ids. chain_block E (h_chain (cl_node s' n)) (blk_id b) = Some b}"
proof -
  obtain L where L: "log_inv E ids L s" "cluster_inv ids s" by (rule fresh_reachable [OF assms(1-5)])
  obtain L' where L': "L \<subseteq>\<^sub>m L'" "log_inv E ids L' s'" and "grown E s s'"
    using log_inv_reachable [OF assms(6) L assms(3,4)] by blast
  then have grow: "chain_block E (h_chain (cl_node s' n)) k \<noteq> None"
    if "chain_block E (h_chain (cl_node s n)) k \<noteq> None" for n k
    using that unfolding grown_def by (metis map_le_Some not_None_eq)
  note i = log_invD(2) [OF L(1) assms(7)]
  note b = node_logD(5) [OF i assms(8)]
  have Lb: "L (blk_id b) = Some b" using b map_le_Some [OF node_logD(2) [OF i]] by blast
  have "durable E ids s (blk_id b)"
    using durable_below [OF log_invD(2) [OF L(1)] log_invD(1) [OF L(1)] log_invD(4) [OF L(1) assms(7)], of "blk_id b"] b Lb
    by blast
  then have "durable E ids s' (blk_id b)" by (rule durable_mono) (use grow in \<open>auto simp: stored_by_def\<close>)
  moreover have "stored_by E ids s' (blk_id b) =
      {n \<in> set ids. chain_block E (h_chain (cl_node s' n)) (blk_id b) = Some b}"
    using map_le_Some [OF node_logD(2) [OF log_invD(2) [OF L'(2)]]] map_le_Some [OF L'(1) Lb]
    unfolding stored_by_def by (metis (no_types, lifting) not_None_eq option.inject)
  ultimately show ?thesis by (simp add: durable_def)
qed

theorem applied_on_majority_witness:
  "2 \<le> card {n \<in> set [1, 2, 3]. chain_block tree_ext (h_chain (cl_node replicated_cluster n)) (BlockId_new 1) = Some one_block}"
  using applied_on_majority [OF demo_cluster_init demo_cluster_fresh demo_ids(1,2) demo_replication rtranclp.rtrancl_refl
      demo_ids(3) demo_applied]
  by (simp add: one_block_def)

text \<open>In a part of the ledger that holds the parents of its blocks every block is an ancestor of the larger ones.\<close>

lemma part_ancestor:
  assumes "ledger_ok L" and "C \<subseteq>\<^sub>m L" and "parents_ok C" and "C h \<noteq> None" and "C k \<noteq> None" and "k \<le> h"
  shows "ancestor C h k"
  using assms(4,6)
proof (induction "be_val (bid_bytes h)" arbitrary: h rule: less_induct)
  case less
  obtain b where b: "C h = Some b" using less.prems(1) by blast
  show ?case
  proof (cases "k = h")
    case False
    then have lt: "k < h" using less.prems(2) by simp
    have "h \<noteq> genesis" using lt genesis_least [of k] assms(5) parents_okD(1) [OF assms(3)] by fastforce
    have "k \<in> dom L" using assms(2,5) by (auto dest: map_le_Some)
    then have up: "k \<le> blk_next b" using ledger_okD(6) [OF assms(1) map_le_Some [OF assms(2) b] \<open>h \<noteq> genesis\<close> _ lt] by blast
    have next': "C (blk_next b) \<noteq> None" using parents_okD(2) [OF assms(3) b] .
    then have "id_ok (blk_next b)" using parents_okD(1) [OF assms(3)] by blast
    then have "be_val (bid_bytes (blk_next b)) < be_val (bid_bytes h)"
      using parents_okD(3) [OF assms(3) b \<open>h \<noteq> genesis\<close>] parents_okD(1) [OF assms(3) b] by (simp add: id_ok_less_iff)
    then have "ancestor C (blk_next b) k" using next' up by (rule less.hyps)
    with b show ?thesis by (rule ancestor.parent)
  qed (use b in \<open>auto intro: ancestor.here\<close>)
qed

text \<open>
  (C3) Log matching.  At every moment of such a cluster, two nodes that store a block with the same identifier store the same
  blocks up to it.  The blocks of a node up to any block it stores are exactly the ancestors of that block: the chain has no branches
  and no gaps, and it begins with the genesis.
\<close>

theorem log_matching:
  assumes "cluster_init ids s0" and "cluster_fresh E ids s0" and "distinct ids" and "1 < length ids"
    and "rtranclp (cluster_step E ids) s0 s" and "i \<in> set ids" and "j \<in> set ids"
    and "chain_block E (h_chain (cl_node s i)) h \<noteq> None" and "chain_block E (h_chain (cl_node s j)) h \<noteq> None"
  shows "(\<forall>k. k \<le> h \<longrightarrow> chain_block E (h_chain (cl_node s i)) k = chain_block E (h_chain (cl_node s j)) k)
    \<and> (\<forall>k. ancestor (chain_block E (h_chain (cl_node s i))) h k \<longleftrightarrow> chain_block E (h_chain (cl_node s i)) k \<noteq> None \<and> k \<le> h)
    \<and> ancestor (chain_block E (h_chain (cl_node s i))) h genesis"
proof -
  obtain L where L: "log_inv E ids L s" by (rule fresh_reachable [OF assms(1-5)])
  let ?C = "\<lambda>n. chain_block E (h_chain (cl_node s n))"
  note i = log_invD(2) [OF L assms(6)] and j = log_invD(2) [OF L assms(7)] and ok = log_invD(1) [OF L]
  have below: "?C n k = L k" if "node_log E L (cl_node s n)" "?C n h \<noteq> None" "k \<le> h" for n k
  proof (cases "L k")
    case None
    then show ?thesis using map_le_Some [OF node_logD(2) [OF that(1)], of k] by (cases "?C n k") auto
  next
    case (Some b)
    then have "?C n k \<noteq> None" using part_below [OF ok node_logD(2,3) [OF that(1)] that(2) _ that(3)] by simp
    then show ?thesis using map_le_Some [OF node_logD(2) [OF that(1)], of k] Some by auto
  qed
  have "ancestor (?C i) h k \<longleftrightarrow> ?C i k \<noteq> None \<and> k \<le> h" for k
    using part_ancestor [OF ok node_logD(2,3) [OF i] assms(8)] ancestor_stored [of "?C i" h k]
      ancestor_le [OF _ node_logD(3) [OF i], of h k] by blast
  moreover have "ancestor (?C i) h genesis" using walk_reaches_genesis [OF node_logD(3) [OF i]] assms(8) by blast
  moreover have "?C i k = ?C j k" if "k \<le> h" for k
    using below [OF i assms(8) that] below [OF j assms(9) that] by simp
  ultimately show ?thesis by blast
qed

theorem log_matching_witness:
  "ancestor (chain_block tree_ext (h_chain (cl_node replicated_cluster 1))) (BlockId_new 1) genesis
   \<and> chain_block tree_ext (h_chain (cl_node replicated_cluster 1)) genesis
       = chain_block tree_ext (h_chain (cl_node replicated_cluster 2)) genesis"
proof -
  obtain L where "log_inv tree_ext [1, 2, 3] L replicated_cluster"
    by (rule fresh_reachable [OF demo_cluster_init demo_cluster_fresh demo_ids(1,2) demo_replication])
  then have "chain_block tree_ext (h_chain (cl_node replicated_cluster 1)) (BlockId_new 1) \<noteq> None"
    using node_logD(5) [OF log_invD(2) [OF _ demo_ids(3)] demo_applied] by (simp add: one_block_def)
  moreover have "chain_block tree_ext (h_chain (cl_node replicated_cluster 2)) (BlockId_new 1) \<noteq> None"
    by (simp add: replicated_cluster_def replication_chains)
  ultimately have "ancestor (chain_block tree_ext (h_chain (cl_node replicated_cluster 1))) (BlockId_new 1) genesis
      \<and> (\<forall>k \<le> BlockId_new 1. chain_block tree_ext (h_chain (cl_node replicated_cluster 1)) k
          = chain_block tree_ext (h_chain (cl_node replicated_cluster 2)) k)"
    using log_matching [OF demo_cluster_init demo_cluster_fresh demo_ids(1,2) demo_replication demo_ids(3,4)] by blast
  moreover have "genesis \<le> BlockId_new 1" by (simp add: genesis_def)
  ultimately show ?thesis by blast
qed

end
