(* ===== verification/Restart.thy ===== *)
theory Restart
  imports Agreement
begin

text \<open>
  Restarting nodes.  A node that is started again opens the database it left behind and begins with the
  default state (\<^verbatim>\<open>follower.rs\<close>, \<^verbatim>\<open>Raft::new\<close>): neither its term nor its vote is stored, and of its chain only
  the commit is found again.  The theory adds this step to the cluster and runs it.
\<close>

section \<open>Steps\<close>

inductive restart_step :: "'db ext \<Rightarrow> node_id list \<Rightarrow> 'db cluster \<Rightarrow> 'db cluster \<Rightarrow> bool"
  for E and ids where
  step: "cluster_step E ids s s' \<Longrightarrow> restart_step E ids s s'"
| restart: "i \<in> set ids \<Longrightarrow>
    handle_new E I (Inr (ch_db (h_chain (cl_node s i)))) (h_config (cl_node s i)) unbounded_channel unbounded_channel = Inr h \<Longrightarrow>
    restart_step E ids s (s\<lparr>cl_node := (cl_node s)(i := h), cl_up := (cl_up s)(i := True)\<rparr>)"

lemma cluster_restart: "rtranclp (cluster_step E ids) s s' \<Longrightarrow> rtranclp (restart_step E ids) s s'"
  by (induction rule: rtranclp_induct) (auto intro: restart_step.step rtranclp.rtrancl_into_rtrancl)

section \<open>A run with a restart\<close>

text \<open>
  The run of the cluster of three nodes goes on: node 2, which stores the committed block, is started again,
  node 3, which does not, asks for votes and gets the one of node 2, and takes a request.
\<close>

definition other_block :: block where
  "other_block = \<lparr>blk_id = BlockId_new 1, blk_next = genesis, blk_data = [8]\<rparr>"

definition other_chain :: "tree chain" where
  "other_chain = fst (projr (chain_append tree_ext tree_chain \<lparr>ub_data = [8]\<rparr>))"

definition other_request :: client_request where
  "other_request = \<lparr>cr_id = 6, cr_address = Client, cr_proposal = Proposal [8]\<rparr>"

definition other_vote_request :: message where
  "other_vote_request = message_new (Peer 3) Peers (VoteRequest 1 3 1 genesis)"

definition other_vote :: message where
  "other_vote = message_new (Peer 2) (Peer 3) (VoteResponse 0 2 True)"

definition reopened_chain :: "tree chain" where
  "reopened_chain = projr (chain_new tree_ext (Inr (ch_db two_chain)))"

definition reopened :: "tree raft_handle" where
  "reopened = projr (handle_new tree_ext (demo_input 9) (Inr (ch_db two_chain)) (demo_config 2 [1, 3])
     unbounded_channel unbounded_channel)"

definition asking_again :: "tree raft_handle" where
  "asking_again = projr (handle_apply tree_ext (demo_input 9) (demo_member 3 [1, 2]) Tick)"

definition voting_again :: "tree raft_handle" where
  "voting_again = projr (handle_apply tree_ext (demo_input 9) reopened (msg_command other_vote_request))"

definition elected_again :: "tree raft_handle" where
  "elected_again = projr (handle_apply tree_ext (demo_input 9) asking_again (msg_command other_vote))"

definition appending_again :: "tree raft_handle" where
  "appending_again = projr (handle_apply tree_ext (demo_input 9) elected_again (ClientRequest other_request))"

lemma other_chain_facts:
  "chain_append tree_ext tree_chain \<lparr>ub_data = [8]\<rparr> = Inr (other_chain, BlockId_new 1)"
  "chain_block tree_ext other_chain (BlockId_new 1) = Some other_block"
  "ch_head other_chain = BlockId_new 1" "ch_commit other_chain = genesis"
proof -
  have lt: "ch_head tree_chain < BlockId_new (ch_id_gen tree_chain)"
    by (simp add: tree_chain_facts genesis_def)
  obtain c where c: "chain_append tree_ext tree_chain \<lparr>ub_data = [8]\<rparr> =
      Inr (c, BlockId_new (ch_id_gen tree_chain))" "chain_ok tree_ext c"
    "chain_block tree_ext c = (chain_block tree_ext tree_chain)(BlockId_new (ch_id_gen tree_chain) \<mapsto>
       \<lparr>blk_id = BlockId_new (ch_id_gen tree_chain), blk_next = ch_head tree_chain,
        blk_data = ub_data \<lparr>ub_data = [8]\<rparr>\<rparr>)"
    "ch_head c = BlockId_new (ch_id_gen tree_chain)" "ch_commit c = ch_commit tree_chain"
    "ch_id_gen c = ch_id_gen tree_chain + 1"
    by (rule chain_append_ok [OF tree_chain_facts(1) lt])
  have "other_chain = c" using c(1) by (simp add: other_chain_def)
  then show "chain_append tree_ext tree_chain \<lparr>ub_data = [8]\<rparr> = Inr (other_chain, BlockId_new 1)"
    "chain_block tree_ext other_chain (BlockId_new 1) = Some other_block"
    "ch_head other_chain = BlockId_new 1" "ch_commit other_chain = genesis"
    using c by (simp_all add: tree_chain_facts other_block_def)
qed

lemma reopened_chain_facts:
  "chain_new tree_ext (Inr (ch_db two_chain)) = Inr reopened_chain"
  "ch_head reopened_chain = genesis" "ch_commit reopened_chain = genesis"
proof -
  have "\<not> isl (chain_new tree_ext (Inr (ch_db two_chain)))" by code_simp
  then show "chain_new tree_ext (Inr (ch_db two_chain)) = Inr reopened_chain"
    unfolding reopened_chain_def by (rule Inr_projr)
  show "ch_head reopened_chain = genesis" "ch_commit reopened_chain = genesis" by code_simp+
qed

lemmas restart_eval = demo_eval message_new_def handle_new_def follower_new_def config_validate_def follower_init_def
  MAX_PROTOCOL_VERSION_def from_secs_def unbounded_channel_def reopened_chain_facts other_chain_facts
  other_vote_request_def other_vote_def other_request_def leader_apply_client_request_def leader_client_append_def
  leader_apply_append_response_def rp_advance_def rp_remove_def leader_commit_def committed_index_def
  chan_send_def demo_raft_def increment_def push_rpc_def with_role_def progress_new_def replicate_from_probe_def genesis_one

lemma restart_steps:
  "handle_new tree_ext (demo_input 9) (Inr (ch_db two_chain)) (demo_config 2 [1, 3]) unbounded_channel unbounded_channel = Inr reopened"
  "handle_apply tree_ext (demo_input 9) (demo_member 3 [1, 2]) Tick = Inr asking_again"
  "handle_apply tree_ext (demo_input 9) reopened (msg_command other_vote_request) = Inr voting_again"
  "handle_apply tree_ext (demo_input 9) asking_again (msg_command other_vote) = Inr elected_again"
  "handle_apply tree_ext (demo_input 9) elected_again (ClientRequest other_request) = Inr appending_again"
  unfolding reopened_def asking_again_def voting_again_def elected_again_def appending_again_def
  by (rule Inr_projr, simp add: restart_eval flip: genesis_def)+


lemma restart_messages:
  "other_vote_request \<in> set (sent (h_rpc asking_again))" "other_vote \<in> set (sent (h_rpc voting_again))"
  by (simp_all add: reopened_def asking_again_def voting_again_def restart_eval flip: genesis_def)

fun h_term :: "'db raft_handle \<Rightarrow> term_id" where
  "h_term (Follower r) = current_term (rf_state r)"
| "h_term (Candidate r) = current_term (rf_state r)"
| "h_term (Leader r) = current_term (rf_state r)"

lemma restart_outcome:
  "is_leader appending_again" "h_chain appending_again = other_chain" "h_term appending_again = 1"
  by (simp_all add: asking_again_def elected_again_def appending_again_def restart_eval flip: genesis_def)

lemma before_restart:
  "h_chain storing = two_chain" "h_config storing = demo_config 2 [1, 3]" "h_term committing = 1"
  by (simp_all add: appended_def sending_def storing_def committing_def replicate_eval genesis_one demo_entries_def
      demo_ack_def flip: genesis_def)

definition diverged_cluster :: "tree cluster" where
  "diverged_cluster = demo_cluster\<lparr>cl_node := (cl_node demo_cluster)(1 := committing, 2 := voting_again, 3 := appending_again)\<rparr>"

lemma demo_restart: "rtranclp (restart_step tree_ext [1, 2, 3]) replicated_cluster diverged_cluster"
proof -
  let ?ids = "[1, 2, 3] :: node_id list"
  define s1 where "s1 = replicated_cluster\<lparr>cl_node := (cl_node replicated_cluster)(2 := reopened),
    cl_up := (cl_up replicated_cluster)(2 := True)\<rparr>"
  define s2 where "s2 = s1\<lparr>cl_node := (cl_node s1)(3 := asking_again)\<rparr>"
  define s3 where "s3 = s2\<lparr>cl_node := (cl_node s2)(2 := voting_again)\<rparr>"
  define s4 where "s4 = s3\<lparr>cl_node := (cl_node s3)(3 := elected_again)\<rparr>"
  define s5 where "s5 = s4\<lparr>cl_node := (cl_node s4)(3 := appending_again)\<rparr>"
  have up: "cl_up s1 i" "cl_up s2 i" "cl_up s3 i" "cl_up s4 i" for i
    by (simp_all add: s1_def s2_def s3_def s4_def replicated_cluster_def demo_cluster_def)
  have at: "cl_node replicated_cluster 2 = storing" "cl_node s1 3 = demo_member 3 [1, 2]" "cl_node s2 2 = reopened"
    "cl_node s2 3 = asking_again" "cl_node s3 2 = voting_again" "cl_node s3 3 = asking_again"
    "cl_node s4 3 = elected_again"
    by (simp_all add: s1_def s2_def s3_def s4_def replicated_cluster_def demo_cluster_def)
  have 1: "restart_step tree_ext ?ids replicated_cluster s1"
    unfolding s1_def
    by (rule restart_step.restart [where I = "demo_input 9"]) (simp_all add: at before_restart restart_steps)
  have 2: "restart_step tree_ext ?ids s1 s2"
    unfolding s2_def
    by (rule restart_step.step [OF cluster_step.local [where cmd = Tick and I = "demo_input 9"]])
      (simp_all add: up at restart_steps)
  have 3: "restart_step tree_ext ?ids s2 s3"
    unfolding s3_def
    by (rule restart_step.step [OF cluster_step.deliver [where j = 3 and m = other_vote_request and I = "demo_input 9"]])
      (simp_all add: up at restart_steps restart_messages addressed_def, simp add: other_vote_request_def message_new_def)
  have 4: "restart_step tree_ext ?ids s3 s4"
    unfolding s4_def
    by (rule restart_step.step [OF cluster_step.deliver [where j = 2 and m = other_vote and I = "demo_input 9"]])
      (simp_all add: up at restart_steps restart_messages addressed_def, simp add: other_vote_def message_new_def)
  have 5: "restart_step tree_ext ?ids s4 s5"
    unfolding s5_def
    by (rule restart_step.step [OF cluster_step.local [where cmd = "ClientRequest other_request" and I = "demo_input 9"]])
      (simp_all add: up at restart_steps)
  have "rtranclp (restart_step tree_ext ?ids) replicated_cluster s5"
    using 1 2 3 4 5 by (meson converse_rtranclp_into_rtranclp r_into_rtranclp)
  moreover have "s5 = diverged_cluster"
    by (simp add: s1_def s2_def s3_def s4_def s5_def diverged_cluster_def replicated_cluster_def demo_cluster_def fun_eq_iff)
  ultimately show ?thesis by simp
qed

section \<open>Property\<close>


end
