(* ===== verification/Fsm_Driver.thy ===== *)
theory Fsm_Driver
  imports Raft
begin

text \<open>
  \<^verbatim>\<open>raft/fsm.rs\<close>: the task that applies committed blocks to the replicated state machine and answers
  the clients waiting for them.  The state machine is any implementation of the \<^verbatim>\<open>Fsm\<close> trait, so its
  transition function is a parameter; it returns the next state and either the answer or an error,
  or panics.
\<close>

section \<open>The driver\<close>

type_synonym 'f transition = "'f \<Rightarrow> bytes \<Rightarrow> ('f \<times> (string + bytes)) res"

record 'f driver =
  drv_rpc_tx :: "message sender"
  drv_fsm :: 'f
  drv_notifications :: "(block_id \<times> (address \<times> client_request_id)) list"

definition driver_new :: "message sender \<Rightarrow> 'f \<Rightarrow> 'f driver" where
  "driver_new tx f = \<lparr>drv_rpc_tx = tx, drv_fsm = f, drv_notifications = []\<rparr>"

definition driver_exec ::
  "'f transition \<Rightarrow> 'f driver \<Rightarrow> block \<Rightarrow> ('f driver \<times> (string + bytes)) res" where
  "driver_exec tr d b =
     bindE (tr (drv_fsm d) (blk_data b)) (\<lambda>(f, out). Inr (d\<lparr>drv_fsm := f\<rparr>, out))"

text \<open>\<^verbatim>\<open>res.map(Response::new).map_err(|_e| ResponseError {})\<close>.\<close>

fun to_response :: "string + bytes \<Rightarrow> response_error + response" where
  "to_response (Inl e) = Inl ResponseError"
| "to_response (Inr bs) = Inr (Response bs)"

text \<open>One turn of the loop of \<^verbatim>\<open>run\<close>.\<close>

fun driver_step :: "'f transition \<Rightarrow> 'f driver \<Rightarrow> instruction \<Rightarrow> 'f driver res" where
  "driver_step tr d (Apply b) =
     (if blk_id b = BlockId_new 0 then Inr d
      else
        bindE (driver_exec tr d b) (\<lambda>(d', out).
        case map_of (drv_notifications d') (blk_id b) of
          None \<Rightarrow> Inr d'
        | Some (dst, rid) \<Rightarrow>
            bindE (chan_send (drv_rpc_tx d') (message_new Local dst
              (ClientResponse \<lparr>cs_id = rid, cs_res = to_response out\<rparr>))) (\<lambda>tx.
            Inr (d'\<lparr>drv_rpc_tx := tx,
                    drv_notifications := AList.delete (blk_id b) (drv_notifications d')\<rparr>))))"
| "driver_step tr d (Notify rid addr bid) =
     Inr (d\<lparr>drv_notifications := AList.update bid (addr, rid) (drv_notifications d)\<rparr>)"

definition driver_run :: "'f transition \<Rightarrow> 'f driver \<Rightarrow> instruction list \<Rightarrow> 'f driver res" where
  "driver_run tr d is = run_steps (driver_step tr) d is"

section \<open>What the driver promises\<close>

text \<open>The data of the blocks applied, the genesis apart, and the state they lead to.\<close>

fun applied :: "instruction list \<Rightarrow> bytes list" where
  "applied [] = []"
| "applied (Apply b # is) = (if blk_id b = BlockId_new 0 then applied is else blk_data b # applied is)"
| "applied (Notify rid addr bid # is) = applied is"

fun replay :: "'f transition \<Rightarrow> 'f \<Rightarrow> bytes list \<Rightarrow> 'f res" where
  "replay tr f [] = Inr f"
| "replay tr f (x # xs) = bindE (tr f x) (\<lambda>(f', out). replay tr f' xs)"

definition drv_ok :: "'f driver \<Rightarrow> bool" where
  "drv_ok d \<longleftrightarrow> distinct (map fst (drv_notifications d))"

definition waiting :: "'f driver \<Rightarrow> block_id \<Rightarrow> (address \<times> client_request_id) option" where
  "waiting d = map_of (drv_notifications d)"

lemma driver_step_ok:
  assumes "drv_ok d" and "driver_step tr d e = Inr d'"
  shows "drv_ok d'"
  using assms
  by (cases e) (auto simp: drv_ok_def driver_exec_def bindE_Inr distinct_update distinct_delete
      split: if_splits option.splits)

interpretation driver_inv: step_system "driver_step tr" drv_ok "\<lambda>e. True" for tr :: "'f transition"
  by unfold_locales (rule driver_step_ok)

text \<open>An applied block is answered when someone waits for it, and the wait is over.\<close>

lemma driver_apply_answers:
  assumes "rx_alive (drv_rpc_tx d)" and "blk_id b \<noteq> BlockId_new 0"
    and "tr (drv_fsm d) (blk_data b) = Inr (f, out)"
  obtains d' where "driver_step tr d (Apply b) = Inr d'" "drv_fsm d' = f"
    "rx_alive (drv_rpc_tx d')" "waiting d' = (waiting d)(blk_id b := None)"
    "sent (drv_rpc_tx d') = sent (drv_rpc_tx d) @ (case waiting d (blk_id b) of None \<Rightarrow> []
       | Some (dst, rid) \<Rightarrow> [message_new Local dst
           (ClientResponse \<lparr>cs_id = rid, cs_res = to_response out\<rparr>)])"
proof (cases "waiting d (blk_id b)")
  case None
  then show ?thesis
    using assms by (intro that [of "d\<lparr>drv_fsm := f\<rparr>"]) (auto simp: driver_exec_def waiting_def)
next
  case (Some w)
  obtain dst rid where w: "w = (dst, rid)" by force
  with Some show ?thesis
    using assms
    by (intro that [of "d\<lparr>drv_fsm := f, drv_rpc_tx := (drv_rpc_tx d)\<lparr>sent := sent (drv_rpc_tx d)
            @ [message_new Local dst (ClientResponse \<lparr>cs_id = rid, cs_res = to_response out\<rparr>)]\<rparr>,
          drv_notifications := AList.delete (blk_id b) (drv_notifications d)\<rparr>"])
      (auto simp: driver_exec_def waiting_def chan_send_def delete_conv')
qed

lemma driver_run_replays:
  assumes "driver_run tr d is = Inr d'"
  shows "replay tr (drv_fsm d) (applied is) = Inr (drv_fsm d')"
  using assms unfolding driver_run_def
proof (induction "is" arbitrary: d)
  case (Cons e es)
  then obtain d1 where d1: "driver_step tr d e = Inr d1" "run_steps (driver_step tr) d1 es = Inr d'"
    by (auto simp: bindE_Inr)
  show ?case
  proof (cases e)
    case (Apply b)
    with d1 Cons.IH [OF d1(2)] show ?thesis
      by (auto simp: driver_exec_def bindE_Inr split: if_splits option.splits)
  next
    case (Notify rid addr bid)
    with d1 Cons.IH [OF d1(2)] show ?thesis by auto
  qed
qed simp

section \<open>Properties of the driver\<close>

text \<open>
  A registered client is answered exactly once: after its registration, any blocks other than its
  own, and then its block, one response is sent to its address, with its request identifier and the
  outcome of applying that block; nobody waits for the block any more.
\<close>

lemma registered_client_answered:
  assumes "rx_alive (drv_rpc_tx d)" and "blk_id b \<noteq> BlockId_new 0"
    and "\<forall>x \<in> set bs. blk_id x \<noteq> blk_id b"
    and "driver_run tr d (Notify rid addr (blk_id b) # map Apply bs) = Inr d1"
    and "tr (drv_fsm d1) (blk_data b) = Inr (f, out)"
  shows "\<exists>d2. driver_run tr d (Notify rid addr (blk_id b) # map Apply bs @ [Apply b]) = Inr d2
    \<and> drv_fsm d2 = f \<and> waiting d2 (blk_id b) = None
    \<and> sent (drv_rpc_tx d2) = sent (drv_rpc_tx d1)
        @ [message_new Local addr (ClientResponse \<lparr>cs_id = rid, cs_res = to_response out\<rparr>)]"
proof -
  have keep: "waiting d' (blk_id b) = waiting d0 (blk_id b)
      \<and> rx_alive (drv_rpc_tx d') = rx_alive (drv_rpc_tx d0)"
    if "run_steps (driver_step tr) d0 (map Apply xs) = Inr d'" "\<forall>x \<in> set xs. blk_id x \<noteq> blk_id b"
    for d0 d' xs
    using that
    by (induction xs arbitrary: d0)
      (fastforce simp: bindE_Inr driver_exec_def waiting_def delete_conv' chan_send_Inr
        split: if_splits option.splits)+
  let ?d0 = "d\<lparr>drv_notifications := AList.update (blk_id b) (addr, rid) (drv_notifications d)\<rparr>"
  have run: "run_steps (driver_step tr) ?d0 (map Apply bs) = Inr d1"
    using assms(4) by (simp add: driver_run_def)
  from keep [OF this assms(3)] have w: "waiting d1 (blk_id b) = Some (addr, rid)" "rx_alive (drv_rpc_tx d1)"
    using assms(1) by (simp_all add: waiting_def update_conv')
  obtain d2 where d2: "driver_step tr d1 (Apply b) = Inr d2" "drv_fsm d2 = f"
    "waiting d2 = (waiting d1)(blk_id b := None)"
    "sent (drv_rpc_tx d2) = sent (drv_rpc_tx d1) @ (case waiting d1 (blk_id b) of None \<Rightarrow> []
       | Some (dst, rid) \<Rightarrow> [message_new Local dst
           (ClientResponse \<lparr>cs_id = rid, cs_res = to_response out\<rparr>)])"
    by (rule driver_apply_answers [where tr = tr and d = d1 and b = b, OF w(2) assms(2,5)])
  have "run_steps (driver_step tr) ?d0 (map Apply bs @ [Apply b]) = Inr d2"
    using run d2(1) by (simp add: run_steps_append)
  then show ?thesis using d2(2-4) w(1) by (simp add: driver_run_def)
qed


end
