(* ===== verification/Server.thy ===== *)
theory Server
  imports Raft_Handle Fsm_Driver
begin

text \<open>
  \<^verbatim>\<open>raft/server.rs\<close>: the event loop that feeds ticks, messages of other nodes, messages of its own raft
  node and state machine driver, and client proposals to the node; \<^verbatim>\<open>raft/tcp.rs\<close>: the task that hands
  outgoing messages to the connections of the other nodes; \<^verbatim>\<open>raft/client.rs\<close>: the client's side.
\<close>

section \<open>The event loop\<close>

text \<open>
  The sending half of the channel on which a request is answered: the one a client holds the other
  half of, or the one the loop makes for a request that another node has passed on, whose other half
  is dropped at once.
\<close>

datatype 'c reply_tx = ClientTx 'c | DroppedTx

record ('db, 'c) server =
  sv_raft :: "'db raft_handle"
  sv_tcp_tx :: "message sender"
  sv_requests :: "(client_request_id \<times> 'c reply_tx) list"
  sv_replies :: "('c \<times> (response_error + response)) list"

text \<open>
  \<open>listening c\<close> says whether client \<open>c\<close> still waits when the loop answers it.
\<close>

datatype 'c event =
    EvTick input
  | EvTcp input message
  | EvRpc input "'c \<Rightarrow> bool" message
  | EvClient input client_request_id proposal 'c

definition TICK :: duration where
  "TICK = from_millis 100"

definition server_apply ::
  "'db ext \<Rightarrow> input \<Rightarrow> ('db, 'c) server \<Rightarrow> command \<Rightarrow> ('db, 'c) server res" where
  "server_apply E I s cmd =
     bindE (handle_apply E I (sv_raft s) cmd) (\<lambda>h. Inr (s\<lparr>sv_raft := h\<rparr>))"

definition forward :: "('db, 'c) server \<Rightarrow> message \<Rightarrow> ('db, 'c) server res" where
  "forward s msg = bindE (chan_send (sv_tcp_tx s) msg) (\<lambda>tx. Inr (s\<lparr>sv_tcp_tx := tx\<rparr>))"

definition answer ::
  "('c \<Rightarrow> bool) \<Rightarrow> ('db, 'c) server \<Rightarrow> client_response \<Rightarrow> ('db, 'c) server res" where
  "answer listening s res =
     (let s' = s\<lparr>sv_requests := AList.delete (cs_id res) (sv_requests s)\<rparr>
      in case map_of (sv_requests s) (cs_id res) of
           Some (ClientTx c) \<Rightarrow>
             (if listening c then Inr (s'\<lparr>sv_replies := sv_replies s @ [(c, cs_res res)]\<rparr>)
              else Inl (Panic ''the channel was dropped''))
         | Some DroppedTx \<Rightarrow> Inl (Panic ''the channel was dropped'')
         | None \<Rightarrow> Inl (Panic ''could not find response tx''))"

text \<open>The branch for messages of other nodes.\<close>

definition on_tcp ::
  "'db ext \<Rightarrow> input \<Rightarrow> ('db, 'c) server \<Rightarrow> message \<Rightarrow> ('db, 'c) server res" where
  "on_tcp E I s msg =
     (case (msg_to msg, msg_command msg) of
        (Peer _, ClientRequest req) \<Rightarrow>
          server_apply E I (s\<lparr>sv_requests := AList.update (cr_id req) DroppedTx (sv_requests s)\<rparr>)
            (msg_command msg)
      | _ \<Rightarrow> server_apply E I s (msg_command msg))"

text \<open>The branch for messages of the node itself and of its driver.\<close>

definition on_rpc ::
  "'db ext \<Rightarrow> input \<Rightarrow> ('c \<Rightarrow> bool) \<Rightarrow> ('db, 'c) server \<Rightarrow> message \<Rightarrow> ('db, 'c) server res" where
  "on_rpc E I listening s msg =
     (case msg_to msg of
        Peer _ \<Rightarrow> forward s msg
      | Peers \<Rightarrow> forward s msg
      | Local \<Rightarrow> server_apply E I s (msg_command msg)
      | Client \<Rightarrow>
          (case msg_command msg of
             ClientResponse res \<Rightarrow> answer listening s res
           | _ \<Rightarrow> Inl (Error ''unexpected message'')))"

definition on_client ::
  "'db ext \<Rightarrow> input \<Rightarrow> ('db, 'c) server \<Rightarrow> client_request_id \<Rightarrow> proposal \<Rightarrow> 'c \<Rightarrow> ('db, 'c) server res" where
  "on_client E I s rid p c =
     server_apply E I (s\<lparr>sv_requests := AList.update rid (ClientTx c) (sv_requests s)\<rparr>)
       (ClientRequest \<lparr>cr_id = rid, cr_address = Client, cr_proposal = p\<rparr>)"

fun event_step :: "'db ext \<Rightarrow> ('db, 'c) server \<Rightarrow> 'c event \<Rightarrow> ('db, 'c) server res" where
  "event_step E s (EvTick I) = server_apply E I s Tick"
| "event_step E s (EvTcp I msg) = on_tcp E I s msg"
| "event_step E s (EvRpc I listening msg) = on_rpc E I listening s msg"
| "event_step E s (EvClient I rid p c) = on_client E I s rid p c"

text \<open>The loop up to a shutdown; it starts with no request.\<close>

definition event_loop ::
  "'db ext \<Rightarrow> 'db raft_handle \<Rightarrow> message sender \<Rightarrow> 'c event list \<Rightarrow> ('db, 'c) server res" where
  "event_loop E raft tcp_tx es =
     run_steps (event_step E)
       \<lparr>sv_raft = raft, sv_tcp_tx = tcp_tx, sv_requests = [], sv_replies = []\<rparr> es"

section \<open>Outgoing connections\<close>

record peer_tx =
  pt_queue :: "message list"
  pt_open :: bool

definition channel_capacity :: nat where
  "channel_capacity = 1000"

datatype try_send_result = Sent peer_tx | Full | Closed

definition try_send :: "peer_tx \<Rightarrow> message \<Rightarrow> try_send_result" where
  "try_send tx m =
     (if \<not> pt_open tx then Closed
      else if channel_capacity \<le> length (pt_queue tx) then Full
      else Sent (tx\<lparr>pt_queue := pt_queue tx @ [m]\<rparr>))"

type_synonym node_txs = "(node_id \<times> peer_tx) list"

definition send_task_init :: "raft_node list \<Rightarrow> node_txs" where
  "send_task_init nodes =
     fold (\<lambda>n txs. AList.update (nd_id n) \<lparr>pt_queue = [], pt_open = True\<rparr> txs) nodes []"

definition send_to :: "message \<Rightarrow> node_id \<Rightarrow> node_txs \<Rightarrow> node_txs res" where
  "send_to m n txs =
     (case map_of txs n of
        None \<Rightarrow> Inr txs
      | Some tx \<Rightarrow>
          (case try_send tx m of
             Sent tx' \<Rightarrow> Inr (AList.update n tx' txs)
           | Full \<Rightarrow> Inr txs
           | Closed \<Rightarrow> Inl (Error ''could not send message'')))"

definition send_message :: "node_id \<Rightarrow> node_txs \<Rightarrow> message \<Rightarrow> node_txs res" where
  "send_message self txs msg =
     (let m = (if msg_from msg = Local then msg\<lparr>msg_from := Peer self\<rparr> else msg)
      in case msg_to m of
           Peers \<Rightarrow> foldE (send_to m) (map fst txs) txs
         | Peer p \<Rightarrow> foldE (send_to m) [p] txs
         | _ \<Rightarrow> Inr txs)"

text \<open>\<^verbatim>\<open>backoff = backoff.checked_mul(2).unwrap_or(backoff)\<close>, in seconds.\<close>

definition next_backoff :: "u64 \<Rightarrow> u64" where
  "next_backoff b = (if 2 * unat b < 2 ^ 64 then 2 * b else b)"

text \<open>
  The task of one connection.  \<^verbatim>\<open>send_messages\<close> takes messages from the queue and writes them;
  \<open>oks\<close> tells which writes succeed, and the result is what was written, what is left in the queue, and
  whether a write failed.  The message whose write failed has left the queue.
\<close>

fun send_messages :: "bool list \<Rightarrow> message list \<Rightarrow> message list \<times> message list \<times> bool" where
  "send_messages oks [] = ([], [], False)"
| "send_messages [] (m # q) = ([], m # q, False)"
| "send_messages (True # oks) (m # q) =
     (let (w, left, failed) = send_messages oks q in (m # w, left, failed))"
| "send_messages (False # oks) (m # q) = ([], q, True)"

datatype connect = Refused | Socket "bool list"

record peer_link =
  pl_tx :: peer_tx
  pl_backoff :: u64
  pl_slept :: "u64 list"
  pl_written :: "message list"

text \<open>
  \<^verbatim>\<open>connect_and_send\<close> over the outcomes of its attempts to connect.  A connection is left only when a
  write fails, and then the task ends and its half of the queue is dropped.
\<close>

fun connect_and_send :: "connect list \<Rightarrow> peer_link \<Rightarrow> peer_link" where
  "connect_and_send [] l = l"
| "connect_and_send (Refused # cs) l =
     connect_and_send cs (l\<lparr>pl_slept := pl_slept l @ [pl_backoff l], pl_backoff := next_backoff (pl_backoff l)\<rparr>)"
| "connect_and_send (Socket oks # cs) l =
     (let (w, left, failed) = send_messages oks (pt_queue (pl_tx l))
      in l\<lparr>pl_tx := \<lparr>pt_queue = left, pt_open = \<not> failed\<rparr>, pl_written := pl_written l @ w\<rparr>)"

section \<open>The client\<close>

text \<open>
  \<open>sent_ok\<close> says whether the server still receives proposals, \<open>reply\<close> is what the answer channel
  yields: nothing when the server drops it.
\<close>

definition client_request_result ::
  "bool \<Rightarrow> (response_error + response) option \<Rightarrow> response res" where
  "client_request_result sent_ok reply =
     (if \<not> sent_ok then Inl (Error ''channel closed'')
      else case reply of
        None \<Rightarrow> Inl (Error ''channel closed'')
      | Some (Inl e) \<Rightarrow> Inl (Error ''error executing request ResponseError'')
      | Some (Inr r) \<Rightarrow> Inr r)"

definition client_propose :: "bool \<Rightarrow> (response_error + response) option \<Rightarrow> bytes res" where
  "client_propose sent_ok reply =
     bindE (client_request_result sent_ok reply) (\<lambda>r. Inr (response_get r))"


section \<open>Invariant of the loop\<close>

definition server_ok :: "'db ext \<Rightarrow> ('db, 'c) server \<Rightarrow> bool" where
  "server_ok E s \<longleftrightarrow> handle_ok E (sv_raft s) \<and> distinct (map fst (sv_requests s))"

fun event_ok :: "'c event \<Rightarrow> bool" where
  "event_ok (EvTcp I m) \<longleftrightarrow> cmd_ok (msg_command m)"
| "event_ok (EvRpc I listening m) \<longleftrightarrow> cmd_ok (msg_command m)"
| "event_ok ev \<longleftrightarrow> True"

lemma server_apply_Inr:
  "server_apply E I s cmd = Inr s' \<longleftrightarrow>
     (\<exists>h. handle_apply E I (sv_raft s) cmd = Inr h \<and> s' = s\<lparr>sv_raft := h\<rparr>)"
  by (auto simp: server_apply_def bindE_Inr)

lemma server_apply_ok:
  assumes "server_apply E I s cmd = Inr s'" and "server_ok E s" and "cmd_ok cmd"
  shows "server_ok E s'"
  using assms by (auto simp: server_apply_Inr server_ok_def intro: handle_apply_inv)

lemma server_ok_requests [simp]:
  "server_ok E s \<Longrightarrow> server_ok E (s\<lparr>sv_requests := AList.update i tx (sv_requests s)\<rparr>)"
  by (simp add: server_ok_def distinct_update)

lemma event_step_ok:
  assumes "server_ok E s" and "event_ok ev" and "event_step E s ev = Inr s'"
  shows "server_ok E s'"
proof (cases ev)
  case (EvTcp I m)
  have "\<exists>t. server_ok E t \<and> server_apply E I t (msg_command m) = Inr s'"
    using assms EvTcp
    by (cases "msg_to m"; cases "msg_command m") (auto simp: on_tcp_def intro: server_ok_requests)
  with assms(2) EvTcp show ?thesis by (auto intro: server_apply_ok)
next
  case (EvRpc I listening m)
  have "server_apply E I s (msg_command m) = Inr s' \<or> server_ok E s'"
    using assms EvRpc
    by (auto simp: on_rpc_def forward_def answer_def server_ok_def bindE_Inr distinct_delete Let_def
        split: address.splits command.splits option.splits reply_tx.splits if_splits)
  with assms(1,2) EvRpc show ?thesis by (auto intro: server_apply_ok)
next
  case (EvClient I rid p c)
  with assms show ?thesis
    by (auto simp: on_client_def intro: server_apply_ok [OF _ server_ok_requests])
qed (use assms in \<open>auto intro: server_apply_ok\<close>)

interpretation server_inv: step_system "event_step E" "server_ok E" event_ok for E :: "'db ext"
  by unfold_locales (rule event_step_ok)

section \<open>Routing\<close>

definition stamp :: "node_id \<Rightarrow> message \<Rightarrow> message" where
  "stamp self m = (if msg_from m = Local then m\<lparr>msg_from := Peer self\<rparr> else m)"

definition enqueue :: "message \<Rightarrow> peer_tx \<Rightarrow> peer_tx" where
  "enqueue m tx =
     (if length (pt_queue tx) < channel_capacity then tx\<lparr>pt_queue := pt_queue tx @ [m]\<rparr> else tx)"

lemma send_to_open:
  assumes "distinct (map fst txs)" and "\<forall>tx \<in> snd ` set txs. pt_open tx"
  obtains txs' where "send_to m n txs = Inr txs'" "map fst txs' = map fst txs"
    "\<forall>tx \<in> snd ` set txs'. pt_open tx"
    "map_of txs' = (\<lambda>k. if k = n then map_option (enqueue m) (map_of txs k) else map_of txs k)"
proof (cases "map_of txs n")
  case None
  then show ?thesis
    using assms by (intro that [of txs]) (auto simp: send_to_def fun_eq_iff)
next
  case (Some tx)
  have op: "pt_open tx" using assms(2) map_of_SomeD [OF Some] by force
  let ?txs = "AList.update n (enqueue m tx) txs"
  have keys: "map fst ?txs = map fst txs"
    using Some by (simp add: update_keys) (metis domI dom_map_of_conv_image_fst set_map)
  have m: "map_of ?txs = (map_of txs)(n \<mapsto> enqueue m tx)" by (simp add: update_conv')
  have pto: "\<forall>y \<in> snd ` set ?txs. pt_open y"
  proof
    fix y assume "y \<in> snd ` set ?txs"
    then obtain k where "(k, y) \<in> set ?txs" by (metis imageE prod.collapse)
    then have "map_of ?txs k = Some y" using assms(1) keys by simp
    then have "y = enqueue m tx \<or> (k, y) \<in> set txs"
      by (auto simp: m split: if_splits dest: map_of_SomeD)
    then show "pt_open y"
      using assms(2) op by (force simp: enqueue_def)
  qed
  show ?thesis
  proof (cases "length (pt_queue tx) < channel_capacity")
    case True
    have "send_to m n txs = Inr ?txs"
      using Some op True by (simp add: send_to_def try_send_def enqueue_def)
    moreover have "map_of ?txs =
        (\<lambda>k. if k = n then map_option (enqueue m) (map_of txs k) else map_of txs k)"
      using Some by (simp add: m fun_eq_iff)
    ultimately show ?thesis using keys pto by (intro that [of ?txs]) assumption+
  next
    case False
    have "send_to m n txs = Inr txs"
      using Some op False by (simp add: send_to_def try_send_def)
    moreover have "map_of txs =
        (\<lambda>k. if k = n then map_option (enqueue m) (map_of txs k) else map_of txs k)"
      using Some False by (simp add: enqueue_def fun_eq_iff)
    ultimately show ?thesis using assms(2) by (intro that [of txs]) (assumption | rule refl)+
  qed
qed

lemma send_all_open:
  assumes "distinct ns" and "distinct (map fst txs)" and "\<forall>tx \<in> snd ` set txs. pt_open tx"
  obtains txs' where "foldE (send_to m) ns txs = Inr txs'"
    "map_of txs' = (\<lambda>k. if k \<in> set ns then map_option (enqueue m) (map_of txs k) else map_of txs k)"
  using assms
proof (induction ns arbitrary: txs thesis)
  case (Cons n ns)
  obtain t1 where t1: "send_to m n txs = Inr t1" "map fst t1 = map fst txs"
    "\<forall>tx \<in> snd ` set t1. pt_open tx"
    "map_of t1 = (\<lambda>k. if k = n then map_option (enqueue m) (map_of txs k) else map_of txs k)"
    by (rule send_to_open [OF Cons.prems(3,4)])
  have d: "distinct ns" "distinct (map fst t1)" using Cons.prems(2,3) t1(2) by simp_all
  obtain txs' where "foldE (send_to m) ns t1 = Inr txs'"
    "map_of txs' = (\<lambda>k. if k \<in> set ns then map_option (enqueue m) (map_of t1 k) else map_of t1 k)"
    by (rule Cons.IH [OF _ d t1(3)])
  then show ?case
    using t1(1,4) Cons.prems(2) by (intro Cons.prems(1) [of txs']) (auto simp: fun_eq_iff)
qed simp

lemma tcp_request_pending:
  "event_step E s (EvTcp J (message_new src (Peer l) (ClientRequest q))) = Inr s' \<Longrightarrow>
     map_of (sv_requests s') (cr_id q) = Some DroppedTx"
  by (simp add: on_tcp_def message_new_def server_apply_Inr) (elim exE conjE, simp add: update_conv')

text \<open>A closed queue among the addressees ends the sender.\<close>

lemma send_all_closed:
  assumes "n \<in> set ns" and "map_of txs n = Some tx" and "\<not> pt_open tx"
  shows "foldE (send_to m) ns txs = Inl (Error ''could not send message'')"
  using assms(1,2)
proof (induction ns arbitrary: txs)
  case (Cons k ns)
  show ?case
  proof (cases "k = n")
    case True
    then show ?thesis using Cons.prems(2) assms(3) by (simp add: send_to_def try_send_def)
  next
    case False
    have "send_to m k txs = Inl (Error ''could not send message'')
        \<or> (\<exists>txs'. send_to m k txs = Inr txs' \<and> map_of txs' n = Some tx)"
      using False Cons.prems(2)
      by (auto simp: send_to_def update_conv' split: option.split try_send_result.split)
    then show ?thesis using Cons False by auto
  qed
qed simp

lemma send_messages_fails:
  assumes "j < length q"
  shows "send_messages (replicate j True @ False # oks) q = (take j q, drop (Suc j) q, True)"
  using assms
proof (induction j arbitrary: q)
  case 0
  then show ?case by (cases q) simp_all
next
  case (Suc j)
  then show ?case by (cases q) simp_all
qed

text \<open>
  Starting from one second the waiting time doubles with every failed attempt
  and stops growing at 2^63 seconds, without an overflow.
\<close>

lemma backoff_pow:
  "(next_backoff ^^ k) 1 = 2 ^ min k 63"
proof (induction k)
  case (Suc k)
  have u: "unat ((2 :: u64) ^ n) = 2 ^ n" if "n < 64" for n
  proof -
    have "(2 :: u64) ^ n = word_of_nat (2 ^ n)" by simp
    moreover have "(2 :: nat) ^ n < 2 ^ 64" using that by (intro power_strict_increasing) simp_all
    ultimately show ?thesis by (simp only: unat_of_nat) simp
  qed
  show ?case
  proof (cases "k < 63")
    case True
    then have "2 * (2 :: nat) ^ k < 2 ^ 64"
      using power_strict_increasing [of "Suc k" 64 "2 :: nat"] by simp
    with True Suc u [of k] show ?thesis by (simp add: next_backoff_def min_def)
  next
    case False
    then have "min k 63 = 63" and "min (Suc k) 63 = 63" by simp_all
    with Suc u [of 63] show ?thesis by (simp add: next_backoff_def)
  qed
qed simp

lemma connect_refused:
  "connect_and_send (replicate k Refused @ cs) l =
     connect_and_send cs (l\<lparr>pl_slept := pl_slept l @ map (\<lambda>i. (next_backoff ^^ i) (pl_backoff l)) [0..<k],
       pl_backoff := (next_backoff ^^ k) (pl_backoff l)\<rparr>)"
  by (induction k arbitrary: l)
    (simp_all add: funpow_swap1 upt_conv_Cons map_Suc_upt [symmetric] comp_def del: upt_Suc map_Suc_upt)

section \<open>Properties of the server\<close>

text \<open>
  Routing.  With all connections open, a message reaches exactly the queues it is addressed to:
  all of them for a broadcast, the one of the addressed node otherwise, none for other addresses; a
  full queue drops it silently, and a message the node's own driver sent is stamped with the node's
  identifier.
\<close>

lemma send_message_routes:
  assumes "distinct (map fst txs)" and "\<forall>tx \<in> snd ` set txs. pt_open tx"
  shows "\<exists>txs'. send_message self txs msg = Inr txs'
    \<and> (\<forall>n. map_of txs' n =
         (if msg_to msg = Peers \<or> msg_to msg = Peer n
          then map_option (enqueue (stamp self msg)) (map_of txs n) else map_of txs n))"
proof -
  have dst: "msg_to (stamp self msg) = msg_to msg" by (simp add: stamp_def)
  show ?thesis
  proof (cases "msg_to msg")
    case Peers
    obtain txs' where "foldE (send_to (stamp self msg)) (map fst txs) txs = Inr txs'"
      "map_of txs' = (\<lambda>k. if k \<in> set (map fst txs)
        then map_option (enqueue (stamp self msg)) (map_of txs k) else map_of txs k)"
      by (rule send_all_open [OF assms(1) assms])
    moreover have "map_of txs n = None" if "n \<notin> fst ` set txs" for n
      using that by (simp add: map_of_eq_None_iff)
    ultimately show ?thesis
      using Peers by (auto simp: send_message_def stamp_def Let_def)
  next
    case (Peer p)
    have one: "distinct [p]" by simp
    obtain txs' where "foldE (send_to (stamp self msg)) [p] txs = Inr txs'"
      "map_of txs' = (\<lambda>k. if k \<in> set [p]
        then map_option (enqueue (stamp self msg)) (map_of txs k) else map_of txs k)"
      by (rule send_all_open [OF one assms])
    then show ?thesis
      using Peer by (auto simp: send_message_def stamp_def Let_def)
  qed (use dst in \<open>auto simp: send_message_def stamp_def Let_def\<close>)
qed

text \<open>
  (C24) A connection that breaks stops the node.  The task of a connection waits 1, 2, 4, ... seconds
  after refused attempts, without an overflow.  Once connected it never reconnects: when a write fails,
  the message is lost and the task ends, and the next message for that node, or for all nodes, makes
  the sending task of this node return an error.
\<close>

theorem broken_connection_stops_sender:
  assumes "pl_backoff l = 1" and "pl_slept l = []" and "j < length (pt_queue (pl_tx l))"
    and "connect_and_send (replicate k Refused @ Socket (replicate j True @ False # oks) # cs) l = l'"
    and "map_of txs n = Some (pl_tx l')" and "msg_to msg = Peers \<or> msg_to msg = Peer n"
  shows "pl_slept l' = map (\<lambda>i. 2 ^ min i 63) [0..<k]
    \<and> pl_written l' = pl_written l @ take j (pt_queue (pl_tx l))
    \<and> pt_queue (pl_tx l') = drop (Suc j) (pt_queue (pl_tx l))
    \<and> send_message self txs msg = Inl (Error ''could not send message'')"
proof -
  have l': "l' = l\<lparr>pl_slept := map (\<lambda>i. 2 ^ min i 63) [0..<k], pl_backoff := 2 ^ min k 63,
      pl_tx := \<lparr>pt_queue = drop (Suc j) (pt_queue (pl_tx l)), pt_open = False\<rparr>,
      pl_written := pl_written l @ take j (pt_queue (pl_tx l))\<rparr>"
    using assms(1-4) by (simp add: connect_refused send_messages_fails backoff_pow)
  then have closed: "\<not> pt_open (pl_tx l')" by simp
  have key: "n \<in> set (map fst txs)" using map_of_SomeD [OF assms(5)] by force
  have "send_message self txs msg = Inl (Error ''could not send message'')"
    using assms(6) send_all_closed [OF key assms(5) closed] send_all_closed [OF _ assms(5) closed, of "[n]"]
    by (auto simp: send_message_def Let_def)
  with l' show ?thesis by simp
qed

theorem broken_connection_stops_sender_witness:
  "\<exists>l' :: peer_link. pl_slept l' = [1, 2] \<and> pl_written l' = [] \<and> send_message 1 [(2, \<lparr>pt_queue = [], pt_open = True\<rparr>), (3, pl_tx l')]
      (message_new (Peer 1) Peers (Heartbeat 1 genesis 1)) = Inl (Error ''could not send message'')"
proof -
  let ?l = "\<lparr>pl_tx = \<lparr>pt_queue = [message_new (Peer 1) (Peer 3) Noop], pt_open = True\<rparr>, pl_backoff = 1,
    pl_slept = [], pl_written = []\<rparr>"
  let ?r = "connect_and_send (replicate 2 Refused @ Socket (replicate 0 True @ False # []) # []) ?l"
  let ?txs = "[(2, \<lparr>pt_queue = [], pt_open = True\<rparr>), (3, pl_tx ?r)] :: node_txs"
  have pre: "pl_backoff ?l = 1" "pl_slept ?l = []" "0 < length (pt_queue (pl_tx ?l))" by simp_all
  have "map_of ?txs 3 = Some (pl_tx ?r)" "msg_to (message_new (Peer 1) Peers (Heartbeat 1 genesis 1)) = Peers
      \<or> msg_to (message_new (Peer 1) Peers (Heartbeat 1 genesis 1)) = Peer 3"
    by (simp_all add: message_new_def)
  from broken_connection_stops_sender [OF pre refl this, of 1] show ?thesis
    by (intro exI [of _ ?r]) (simp add: upt_rec numeral_2_eq_2)
qed



text \<open>
  (C23) A request a candidate queues.  It keeps the client address \<^verbatim>\<open>Address::Client\<close>, and after the
  candidate has become a follower the next heartbeat sends it to the leader with that address.  The
  leader's loop has no client for it: when its own driver later answers the request, the loop of the
  leader panics, whatever the leader's state was.
\<close>

theorem queued_request_stops_leader:
  fixes s :: "('db, 'c) server" and sl sl' :: "('db, 'c) server"
  assumes "sv_raft s = Candidate r"
    and "run_steps (event_step E) s [EvClient I1 rid p c,
        EvTcp I2 (message_new (Peer l) Peers (Heartbeat t1 c1 l)),
        EvTcp I3 (message_new (Peer l) Peers (Heartbeat t2 c2 l))] = Inr s'"
  defines "m \<equiv> message_new (Peer (rf_id r)) (Peer l)
      (ClientRequest \<lparr>cr_id = rid, cr_address = Client, cr_proposal = p\<rparr>)"
  shows "m \<in> set (sent (h_rpc (sv_raft s')))
    \<and> (event_step E sl (EvTcp J m) = Inr sl' \<longrightarrow>
        event_step E sl' (EvRpc K listening
          (message_new Local Client (ClientResponse \<lparr>cs_id = rid, cs_res = x\<rparr>)))
        = Inl (Panic ''the channel was dropped''))"
proof
  let ?q = "\<lparr>cr_id = rid, cr_address = Client, cr_proposal = p\<rparr>"
  let ?r2 = "\<lambda>has. push_rpc (with_role (r\<lparr>rf_role := (rf_role r)\<lparr>
         cd_queued_reqs := cd_queued_reqs (rf_role r) @ [?q],
         cd_election := election_reset (cd_election (rf_role r))\<rparr>,
       rf_state := (rf_state r)\<lparr>current_term := t1, voted_for := Some l\<rparr>\<rparr>)
     \<lparr>fl_leader_id = None, fl_proxied_reqs = {}, fl_queued_reqs = cd_queued_reqs (rf_role r) @ [?q]\<rparr>)
     (Peer l) (HeartbeatResponse (get_commit (rf_chain r)) has)"
  obtain has where h: "follower_apply_heartbeat E I3 (?r2 has) l t2 c2 = Inr (sv_raft s')"
    using assms(1,2)
    by (auto simp: bindE_Inr on_client_def on_tcp_def message_new_def server_apply_Inr
        candidate_apply_client_request_def candidate_apply_heartbeat_def raft_term_candidate
        follower_from_candidate_def raft_send_Inr Let_def)
  define r2 where "r2 = ?r2 has"
  have r2: "rf_id r2 = rf_id r" "?q \<in> set (fl_queued_reqs (rf_role r2))"
    by (simp_all add: r2_def)
  from h [folded r2_def] show "m \<in> set (sent (h_rpc (sv_raft s')))"
  proof (rule heartbeat_steps)
    fix r1 r3 has
    assume r1: "r1 = flushed l (r2\<lparr>rf_state := rf_state r1, rf_role := (rf_role r2)\<lparr>fl_leader_id := Some l\<rparr>\<rparr>)"
      and r3: "follower_advance_commit E r1 c2 has = Inr r3"
      and s': "sv_raft s' = Follower (push_rpc r3 (Peer l) (HeartbeatResponse (get_commit (rf_chain r3)) has))"
    have "m \<in> set (sent (rpc_tx r1))"
      by (subst r1) (use r2 in \<open>auto simp: flushed_def m_def\<close>)
    moreover have "rpc_tx r3 = rpc_tx r1"
      using r3 by (rule advance_commit_cases) auto
    ultimately show ?thesis by (simp add: s')
  qed
  show "event_step E sl (EvTcp J m) = Inr sl' \<longrightarrow>
        event_step E sl' (EvRpc K listening
          (message_new Local Client (ClientResponse \<lparr>cs_id = rid, cs_res = x\<rparr>)))
        = Inl (Panic ''the channel was dropped'')"
    using tcp_request_pending [of E sl J "Peer (rf_id r)" l ?q sl']
    by (simp add: m_def on_rpc_def message_new_def answer_def)
qed

definition demo_server :: "tree raft_handle \<Rightarrow> (tree, nat) server" where
  "demo_server h = \<lparr>sv_raft = h, sv_tcp_tx = \<lparr>sent = [], rx_alive = True\<rparr>, sv_requests = [], sv_replies = []\<rparr>"

definition demo_candidate :: "(tree, candidate) raft" where
  "demo_candidate = demo_raft 2 [1, 3] \<lparr>cd_election = election_new [1, 3, 2], cd_queued_reqs = []\<rparr> tree_chain"

lemma demo_candidate_run:
  "\<exists>s'. run_steps (event_step tree_ext) (demo_server (Candidate demo_candidate))
     [EvClient (demo_input 1) 9 (Proposal [2]) 5,
      EvTcp (demo_input 2) (message_new (Peer 1) Peers (Heartbeat 4 genesis 1)),
      EvTcp (demo_input 3) (message_new (Peer 1) Peers (Heartbeat 4 genesis 1))] = Inr s'"
proof -
  have has: "chain_has tree_ext tree_chain genesis = Inr True"
    using chain_has_block [OF tree_chain_facts(1), of genesis]
    by (simp add: tree_chain_facts genesis_def)
  show ?thesis
    by (simp add: demo_server_def demo_candidate_def on_client_def on_tcp_def server_apply_def message_new_def
        candidate_apply_client_request_def candidate_apply_heartbeat_def has raft_term_candidate
        raft_send_eq follower_from_candidate_def follower_apply_heartbeat_def set_election_timeout_def
        get_randomized_timeout_def demo_config_def demo_input_def state_default_def raft_term_follower
        flush_queued_def follower_advance_commit_def get_commit_def tree_chain_facts from_millis_def)
qed

theorem queued_request_stops_leader_witness:
  "\<exists>(s' :: (tree, nat) server) (sl :: (tree, nat) server). message_new (Peer 2) (Peer 1)
        (ClientRequest \<lparr>cr_id = 9, cr_address = Client, cr_proposal = Proposal [2]\<rparr>)
      \<in> set (sent (h_rpc (sv_raft s')))
    \<and> is_leader (sv_raft sl)
    \<and> event_step tree_ext sl (EvRpc (demo_input 5) (\<lambda>_. True)
          (message_new Local Client (ClientResponse \<lparr>cs_id = 9, cs_res = Inr (Response [])\<rparr>)))
        = Inl (Panic ''the channel was dropped'')"
proof -
  let ?req = "\<lparr>cr_id = 9, cr_address = Client, cr_proposal = Proposal [2]\<rparr>"
  let ?r = "demo_leader one_chain"
  have c: "sv_raft (demo_server (Candidate demo_candidate)) = Candidate demo_candidate"
    "rf_id demo_candidate = 2"
    by (simp_all add: demo_server_def demo_candidate_def)
  obtain s' where s': "run_steps (event_step tree_ext) (demo_server (Candidate demo_candidate))
     [EvClient (demo_input 1) 9 (Proposal [2]) 5,
      EvTcp (demo_input 2) (message_new (Peer 1) Peers (Heartbeat 4 genesis 1)),
      EvTcp (demo_input 3) (message_new (Peer 1) Peers (Heartbeat 4 genesis 1))] = Inr s'"
    using demo_candidate_run by (elim exE)
  have lt: "get_head (rf_chain ?r) < BlockId_new 2"
    and i: "BlockId_new 2 = BlockId_new (ch_id_gen (rf_chain ?r))"
    by (simp_all add: get_head_def one_chain_facts)
  have small: "bid_bytes (BlockId_new 2) < commit_key" by code_simp
  obtain r' where r': "leader_apply tree_ext (demo_input 4) ?r (ClientRequest ?req) = Inr (Leader r')"
    by (rule client_request_ok [OF demo_leader_ok [OF one_chain_facts(2,3)]
          demo_leader_simps(7) lt i small, where I = "demo_input 4" and req = ?req])
  let ?sl = "(demo_server (Leader r'))\<lparr>sv_requests := [(9, DroppedTx)]\<rparr>"
  have "event_step tree_ext (demo_server (Leader ?r))
      (EvTcp (demo_input 4) (message_new (Peer 2) (Peer 1) (ClientRequest ?req))) = Inr ?sl"
    using r' by (simp add: on_tcp_def message_new_def server_apply_def demo_server_def)
  with queued_request_stops_leader [OF c(1) s', where sl = "demo_server (Leader ?r)"
      and J = "demo_input 4" and sl' = ?sl and K = "demo_input 5" and listening = "\<lambda>_. True"
      and x = "Inr (Response [])", unfolded c]
  have "message_new (Peer 2) (Peer 1) (ClientRequest ?req) \<in> set (sent (h_rpc (sv_raft s')))"
    and "event_step tree_ext ?sl (EvRpc (demo_input 5) (\<lambda>_. True)
          (message_new Local Client (ClientResponse \<lparr>cs_id = 9, cs_res = Inr (Response [])\<rparr>)))
        = Inl (Panic ''the channel was dropped'')"
    by blast+
  then show ?thesis
    by (intro exI [of _ s'] exI [of _ ?sl] conjI) (assumption | simp add: demo_server_def)+
qed

end
