(* ===== verification/Display.thy ===== *)
theory Display
  imports Prelude "HOL-Library.Char_ord"
begin

text \<open>
  The part of the standard library's formatting the broker uses: decimal numbers, as in
  \<^verbatim>\<open>format!("{}.log", offset)\<close> and in the keys of the metadata store, and the loop of
  \<^verbatim>\<open>Write::write_all\<close>.  A Rust string is the sequence of its UTF-8 bytes.
\<close>

section \<open>Decimal numbers\<close>

definition dec_digit :: "nat \<Rightarrow> char" where
  "dec_digit d = char_of (48 + d)"

fun dec_nat :: "nat \<Rightarrow> string" where
  "dec_nat n = (if n < 10 then [dec_digit n] else dec_nat (n div 10) @ [dec_digit (n mod 10)])"

declare dec_nat.simps [simp del]

definition dec_u64 :: "u64 \<Rightarrow> string" where
  "dec_u64 w = dec_nat (unat w)"

type_synonym i16 = "16 word"
type_synonym i32 = "32 word"

definition dec_i32 :: "i32 \<Rightarrow> string" where
  "dec_i32 w = (if sint w < 0 then CHR ''-'' # dec_nat (nat (- sint w)) else dec_nat (nat (sint w)))"

definition utf8 :: "string \<Rightarrow> bytes" where
  "utf8 s = map (\<lambda>c. word_of_nat (of_char c)) s"

section \<open>Writing a whole buffer\<close>

text \<open>
  The default \<^verbatim>\<open>write_all\<close> of a writer: it writes until nothing is left, and fails when the writer
  takes no byte.
\<close>

lemma bindE_cong [fundef_cong]:
  "r = r' \<Longrightarrow> (\<And>x. r' = Inr x \<Longrightarrow> f x = g x) \<Longrightarrow> bindE r f = bindE r' g"
  by (cases r') auto

function write_all :: "('s \<Rightarrow> bytes \<Rightarrow> ('s \<times> nat) res) \<Rightarrow> 's \<Rightarrow> bytes \<Rightarrow> 's res" where
  "write_all w s buf =
     (if buf = [] then Inr s
      else bindE (w s buf) (\<lambda>(s', n).
        if n = 0 then Inl (Error ''failed to write whole buffer'')
        else write_all w s' (drop n buf)))"
  by pat_completeness auto

termination
  by (relation "measure (\<lambda>(w, s, buf). length buf)") auto

declare write_all.simps [simp del]

text \<open>A writer that takes the whole buffer is called once, and not at all for an empty buffer.\<close>

lemma write_all_Nil [simp]: "write_all w s [] = Inr s"
  by (simp add: write_all.simps)

lemma write_all_once:
  assumes "buf \<noteq> []" and "\<And>s' n. w s buf = Inr (s', n) \<Longrightarrow> n = length buf"
  shows "write_all w s buf = bindE (w s buf) (\<lambda>(s', _). Inr s')"
  using assms by (cases "w s buf") (auto simp: write_all.simps [of w s buf])

section \<open>Decimal numbers: lemmas\<close>

definition digit_val :: "char \<Rightarrow> nat" where
  "digit_val c = of_char c - 48"

definition dec_val :: "string \<Rightarrow> nat" where
  "dec_val s = foldl (\<lambda>a c. a * 10 + digit_val c) 0 s"

lemma of_char_dec_digit: "d < 10 \<Longrightarrow> (of_char (dec_digit d) :: nat) = 48 + d"
  by (simp add: dec_digit_def)

lemma digit_val_digit [simp]: "d < 10 \<Longrightarrow> digit_val (dec_digit d) = d"
  by (simp add: digit_val_def of_char_dec_digit)

lemma dec_val_dec_nat [simp]: "dec_val (dec_nat n) = n"
proof (induction n rule: dec_nat.induct)
  case (1 n)
  show ?case
    using 1 by (subst dec_nat.simps) (simp add: dec_val_def)
qed

lemma dec_nat_inject [simp]: "dec_nat a = dec_nat b \<longleftrightarrow> a = b"
  by (metis dec_val_dec_nat)

lemma dec_nat_digits: "c \<in> set (dec_nat n) \<Longrightarrow> 48 \<le> (of_char c :: nat) \<and> of_char c < (58 :: nat)"
proof (induction n rule: dec_nat.induct)
  case (1 n)
  from 1(2) show ?case
    using 1(1) by (subst (asm) dec_nat.simps) (auto simp: of_char_dec_digit split: if_splits)
qed

lemma dec_nat_not:
  assumes "(of_char c :: nat) < 48 \<or> 58 \<le> (of_char c :: nat)"
  shows "c \<notin> set (dec_nat n)"
  using dec_nat_digits [of c n] assms by auto

lemma dec_nat_Nil [simp]: "dec_nat n \<noteq> []"
  by (subst dec_nat.simps) simp

lemma dec_u64_inject [simp]: "dec_u64 a = dec_u64 b \<longleftrightarrow> a = b"
  by (simp add: dec_u64_def word_unat_eq_iff)

lemma dec_i32_inject [simp]: "dec_i32 a = dec_i32 b \<longleftrightarrow> a = b"
proof
  have minus: "CHR ''-'' # xs \<noteq> dec_nat n" for xs n
    using dec_nat_not [of "CHR ''-''" n] by (auto dest: sym)
  assume "dec_i32 a = dec_i32 b"
  then have "sint a = sint b"
    using minus minus [symmetric] by (auto simp: dec_i32_def split: if_splits)
  then show "a = b" by (rule signed_word_eqI)
qed simp

lemma dec_i32_no_colon: "CHR '':'' \<notin> set (dec_i32 w)"
  using dec_nat_not [of "CHR '':''"] by (auto simp: dec_i32_def)

lemma utf8_inject [simp]: "utf8 a = utf8 b \<longleftrightarrow> a = b"
proof -
  have "inj (\<lambda>c. word_of_nat (of_char c) :: byte)"
  proof (rule injI)
    fix c d assume "(word_of_nat (of_char c) :: byte) = word_of_nat (of_char d)"
    then have "(of_char c :: nat) mod 256 = of_char d mod 256"
      by (simp add: word_unat_eq_iff unat_of_nat)
    then show "c = d" by (simp add: of_char_mod_256)
  qed
  then show ?thesis by (simp add: utf8_def)
qed

lemma utf8_simps [simp]: "utf8 (a @ b) = utf8 a @ utf8 b" "utf8 [] = []" "length (utf8 a) = length a"
  by (simp_all add: utf8_def)

end
