(* ===== verification/Broker_State.thy ===== *)
theory Broker_State
  imports Rpc Display "HOL-Library.Finite_Map"
begin

text \<open>
  The data of the broker: topics, partitions, groups and brokers (\<^verbatim>\<open>broker/state/\<close>), the broker
  configuration (\<^verbatim>\<open>broker/config.rs\<close>) and the state transitions that are replicated
  (\<^verbatim>\<open>broker/fsm.rs\<close>).  A hash map is a finite map; the order in which one is iterated is not
  specified by the standard library and is a parameter.  The sled tree and bincode at the types
  below are parameters as well, collected in \<open>store_env\<close>.
\<close>

section \<open>Data\<close>

type_synonym broker_id = i32
type_synonym partition_idx = i32

record topic =
  tp_id :: uuid
  tp_name :: string
  tp_partitions :: "(partition_idx, broker_id list) fmap"
  tp_internal :: bool

record partition =
  pa_id :: uuid
  pa_idx :: partition_idx
  pa_topic :: string
  pa_isr :: "i32 list"
  pa_assigned_replicas :: "i32 list"
  pa_leader :: broker_id

record group =
  gr_id :: string

record peer =
  pe_id :: broker_id
  pe_ip :: ip_addr
  pe_port :: u16

record broker_config =
  bc_id :: broker_id
  bc_ip :: ip_addr
  bc_port :: u16
  bc_data_dir :: string
  bc_state_file :: string
  bc_peers :: "peer list"

datatype transition =
    EnsureTopic topic
  | EnsurePartition partition
  | EnsureBroker peer

section \<open>The parameters\<close>

record 'db store_env =
  st_sled :: "'db sled"
  ser_topics :: "(string, topic) fmap \<Rightarrow> bytes option"
  de_topics :: "bytes \<Rightarrow> (string, topic) fmap option"
  de_groups :: "bytes \<Rightarrow> (string, group) fmap option"
  ser_topic :: "topic \<Rightarrow> bytes option"
  ser_partition :: "partition \<Rightarrow> bytes option"
  de_partition :: "bytes \<Rightarrow> partition option"
  ser_peer :: "peer \<Rightarrow> bytes option"
  ser_transition :: "transition \<Rightarrow> bytes option"
  de_transition :: "bytes \<Rightarrow> transition option"
  iter_topics :: "(string, topic) fmap \<Rightarrow> (string \<times> topic) list"
  iter_partitions :: "(partition_idx, broker_id list) fmap \<Rightarrow> (partition_idx \<times> broker_id list) list"

text \<open>
  What is relied on: sled is an ordered map, bincode serialises every value and reads back what it
  wrote, and an iteration over a hash map visits every entry once.
\<close>

definition round_trips :: "('a \<Rightarrow> bytes option) \<Rightarrow> (bytes \<Rightarrow> 'a option) \<Rightarrow> bool" where
  "round_trips ser de \<longleftrightarrow> (\<forall>x. \<exists>v. ser x = Some v \<and> de v = Some x)"

definition iterates :: "(('k, 'v) fmap \<Rightarrow> ('k \<times> 'v) list) \<Rightarrow> bool" where
  "iterates it \<longleftrightarrow> (\<forall>m. distinct (map fst (it m)) \<and> map_of (it m) = fmlookup m)"

definition store_env_ok :: "'db store_env \<Rightarrow> bool" where
  "store_env_ok S \<longleftrightarrow> sled_ok (st_sled S)
     \<and> round_trips (ser_topics S) (de_topics S)
     \<and> round_trips (ser_partition S) (de_partition S)
     \<and> round_trips (ser_transition S) (de_transition S)
     \<and> (\<forall>t. ser_topic S t \<noteq> None) \<and> (\<forall>p. ser_peer S p \<noteq> None)
     \<and> iterates (iter_topics S) \<and> iterates (iter_partitions S)"

lemma round_tripsE:
  assumes "round_trips ser de"
  obtains v where "ser x = Some v" "de v = Some x"
  using assms unfolding round_trips_def by blast

lemma store_env_okD:
  assumes "store_env_ok S"
  shows "sled_ok (st_sled S)" "round_trips (ser_topics S) (de_topics S)"
    "round_trips (ser_partition S) (de_partition S)" "round_trips (ser_transition S) (de_transition S)"
    "\<exists>v. ser_topic S t = Some v" "\<exists>v. ser_peer S p = Some v"
    "iterates (iter_topics S)" "iterates (iter_partitions S)"
  using assms by (simp_all add: store_env_ok_def)

section \<open>A concrete instance\<close>

text \<open>
  A small self-delimiting encoding: a value is a sequence of byte strings, each escaped.
\<close>

fun enc_strs :: "bytes list \<Rightarrow> bytes" where
  "enc_strs [] = []"
| "enc_strs (x # xs) = esc x @ enc_strs xs"

lemma unesc_length: "unesc v = Some (x, r) \<Longrightarrow> length r < length v"
proof (induction v arbitrary: x r rule: unesc.induct)
  case (1 h t)
  then show ?case
    by (auto split: if_splits list.splits) (metis Suc_lessD less_SucI)
qed simp

function dec_strs :: "bytes \<Rightarrow> bytes list option" where
  "dec_strs v =
     (if v = [] then Some []
      else case unesc v of
        None \<Rightarrow> None
      | Some (x, r) \<Rightarrow> map_option ((#) x) (dec_strs r))"
  by pat_completeness auto

termination
  by (relation "measure length") (auto simp: unesc_length)

declare dec_strs.simps [simp del]

lemma dec_enc_strs [simp]: "dec_strs (enc_strs xs) = Some xs"
proof (induction xs)
  case (Cons x xs)
  have "esc x @ enc_strs xs \<noteq> []" by (cases x) simp_all
  then show ?case using Cons by (subst dec_strs.simps) simp
qed (simp add: dec_strs.simps)

definition enc_word :: "'a :: len word \<Rightarrow> bytes" where
  "enc_word w = map (\<lambda>i. word_of_nat (unat w div 256 ^ i)) (rev [0..<16])"

definition dec_word :: "bytes \<Rightarrow> 'a :: len word" where
  "dec_word bs = word_of_nat (be_val bs)"

lemma dec_enc_word [simp]:
  fixes w :: "'a :: len word"
  assumes "LENGTH('a) \<le> 128"
  shows "dec_word (enc_word w) = w"
proof -
  have "be_val (enc_word w) = unat w mod 256 ^ 16"
    unfolding enc_word_def by (rule be_val_digits)
  moreover have "unat w < 256 ^ 16"
  proof -
    have "unat w < 2 ^ LENGTH('a)" by (rule unsigned_less)
    also have "\<dots> \<le> 2 ^ 128" using assms by (intro power_increasing) simp_all
    finally show ?thesis by simp
  qed
  ultimately show ?thesis by (simp add: dec_word_def)
qed


text \<open>Codecs are built from codecs.\<close>

definition enc_pair :: "('a \<Rightarrow> bytes) \<Rightarrow> ('b \<Rightarrow> bytes) \<Rightarrow> 'a \<times> 'b \<Rightarrow> bytes" where
  "enc_pair f g p = enc_strs [f (fst p), g (snd p)]"

definition dec_pair :: "(bytes \<Rightarrow> 'a option) \<Rightarrow> (bytes \<Rightarrow> 'b option) \<Rightarrow> bytes \<Rightarrow> ('a \<times> 'b) option" where
  "dec_pair d e v =
     (case dec_strs v of
        Some [a, b] \<Rightarrow> Option.bind (d a) (\<lambda>x. Option.bind (e b) (\<lambda>y. Some (x, y)))
      | _ \<Rightarrow> None)"

definition enc_list :: "('a \<Rightarrow> bytes) \<Rightarrow> 'a list \<Rightarrow> bytes" where
  "enc_list f xs = enc_strs (map f xs)"

definition dec_list :: "(bytes \<Rightarrow> 'a option) \<Rightarrow> bytes \<Rightarrow> 'a list option" where
  "dec_list d v = Option.bind (dec_strs v) (\<lambda>xs. those (map d xs))"

definition enc_fmap :: "('k :: linorder \<times> 'v \<Rightarrow> bytes) \<Rightarrow> ('k, 'v) fmap \<Rightarrow> bytes" where
  "enc_fmap f m = enc_list f (sorted_list_of_fmap m)"

definition dec_fmap :: "(bytes \<Rightarrow> ('k \<times> 'v) option) \<Rightarrow> bytes \<Rightarrow> ('k, 'v) fmap option" where
  "dec_fmap d v = map_option fmap_of_list (dec_list d v)"

lemma codec_pair:
  assumes "codec f d" and "codec g e"
  shows "codec (enc_pair f g) (dec_pair d e)"
  using assms by (simp add: codec_def enc_pair_def dec_pair_def del: enc_strs.simps)

lemma codec_list:
  assumes "codec f d"
  shows "codec (enc_list f) (dec_list d)"
proof -
  have "those (map d (map f xs)) = Some xs" for xs
    using assms by (induction xs) (simp_all add: codec_def)
  then show ?thesis by (simp add: codec_def enc_list_def dec_list_def)
qed

lemma codec_fmap:
  assumes "codec f d"
  shows "codec (enc_fmap f) (dec_fmap d)"
proof -
  have "fmap_of_list (sorted_list_of_fmap m) = m" for m :: "('a, 'b) fmap"
    by (rule fmap_ext) (simp add: fmap_of_list.rep_eq)
  then show ?thesis
    using codec_list [OF assms] by (simp add: codec_def enc_fmap_def dec_fmap_def)
qed

lemma codec_via:
  assumes "codec f d" and "\<And>x. back (to x) = x"
  shows "codec (\<lambda>x. f (to x)) (\<lambda>v. map_option back (d v))"
  using assms by (simp add: codec_def)

lemma codec_word: "LENGTH('a) \<le> 128 \<Longrightarrow> codec enc_word (\<lambda>v. Some (dec_word v :: 'a :: len word))"
  by (simp add: codec_def)

definition un_utf8 :: "bytes \<Rightarrow> string" where
  "un_utf8 bs = map (\<lambda>b. char_of (unat b)) bs"

lemma codec_string: "codec utf8 (\<lambda>v. Some (un_utf8 v))"
proof -
  have "char_of (unat (word_of_nat (of_char c) :: byte)) = c" for c
    by (simp add: unat_of_nat of_char_mod_256)
  then show ?thesis by (simp add: codec_def utf8_def un_utf8_def map_idI)
qed

definition enc_bool :: "bool \<Rightarrow> bytes" where
  "enc_bool b = (if b then [1] else [])"

lemma codec_bool: "codec enc_bool (\<lambda>v. Some (v \<noteq> []))"
  by (simp add: codec_def enc_bool_def)

fun enc_ip :: "ip_addr \<Rightarrow> bytes" where
  "enc_ip (V4 a) = 0 # enc_word a"
| "enc_ip (V6 a) = 1 # enc_word a"

fun dec_ip :: "bytes \<Rightarrow> ip_addr option" where
  "dec_ip (h # t) = Some (if h = 0 then V4 (dec_word t) else V6 (dec_word t))"
| "dec_ip [] = None"

lemma codec_ip: "codec enc_ip dec_ip"
proof
  show "dec_ip (enc_ip a) = Some a" for a by (cases a) simp_all
qed

definition enc_i32s :: "i32 list \<Rightarrow> bytes" where "enc_i32s = enc_list enc_word"
definition dec_i32s :: "bytes \<Rightarrow> i32 list option" where "dec_i32s = dec_list (\<lambda>v. Some (dec_word v))"

definition enc_topic :: "topic \<Rightarrow> bytes" where
  "enc_topic t = enc_pair (enc_pair enc_word utf8) (enc_pair (enc_fmap (enc_pair enc_word enc_i32s)) enc_bool)
     ((tp_id t, tp_name t), (tp_partitions t, tp_internal t))"

definition dec_topic :: "bytes \<Rightarrow> topic option" where
  "dec_topic v = map_option (\<lambda>((i, n), (ps, b)). \<lparr>tp_id = i, tp_name = n, tp_partitions = ps, tp_internal = b\<rparr>)
     (dec_pair (dec_pair (\<lambda>v. Some (dec_word v)) (\<lambda>v. Some (un_utf8 v)))
       (dec_pair (dec_fmap (dec_pair (\<lambda>v. Some (dec_word v)) dec_i32s)) (\<lambda>v. Some (v \<noteq> []))) v)"

definition enc_partition :: "partition \<Rightarrow> bytes" where
  "enc_partition p = enc_pair (enc_pair enc_word (enc_pair enc_word utf8)) (enc_pair enc_i32s (enc_pair enc_i32s enc_word))
     ((pa_id p, (pa_idx p, pa_topic p)), (pa_isr p, (pa_assigned_replicas p, pa_leader p)))"

definition dec_partition :: "bytes \<Rightarrow> partition option" where
  "dec_partition v = map_option (\<lambda>((i, (x, t)), (s, (a, l))). \<lparr>pa_id = i, pa_idx = x, pa_topic = t, pa_isr = s,
       pa_assigned_replicas = a, pa_leader = l\<rparr>)
     (dec_pair (dec_pair (\<lambda>v. Some (dec_word v)) (dec_pair (\<lambda>v. Some (dec_word v)) (\<lambda>v. Some (un_utf8 v))))
       (dec_pair dec_i32s (dec_pair dec_i32s (\<lambda>v. Some (dec_word v)))) v)"

definition enc_peer :: "peer \<Rightarrow> bytes" where
  "enc_peer p = enc_pair enc_word (enc_pair enc_ip enc_word) (pe_id p, (pe_ip p, pe_port p))"

definition dec_peer :: "bytes \<Rightarrow> peer option" where
  "dec_peer v = map_option (\<lambda>(i, (a, p)). \<lparr>pe_id = i, pe_ip = a, pe_port = p\<rparr>)
     (dec_pair (\<lambda>v. Some (dec_word v)) (dec_pair dec_ip (\<lambda>v. Some (dec_word v))) v)"

fun enc_transition :: "transition \<Rightarrow> bytes" where
  "enc_transition (EnsureTopic t) = 0 # enc_topic t"
| "enc_transition (EnsurePartition p) = 1 # enc_partition p"
| "enc_transition (EnsureBroker b) = 2 # enc_peer b"

definition dec_transition :: "bytes \<Rightarrow> transition option" where
  "dec_transition v =
     (case v of [] \<Rightarrow> None
      | h # t \<Rightarrow> if h = 0 then map_option EnsureTopic (dec_topic t)
          else if h = 1 then map_option EnsurePartition (dec_partition t)
          else map_option EnsureBroker (dec_peer t))"

lemma codec_i32s: "codec enc_i32s dec_i32s"
  unfolding enc_i32s_def dec_i32s_def by (intro codec_list codec_word) simp

lemmas codec_rules = codec_pair codec_fmap codec_word codec_string codec_bool codec_ip codec_i32s

interpretation topic_codec: codec enc_topic dec_topic
  unfolding enc_topic_def dec_topic_def
  by (rule codec_via) (intro codec_rules, simp_all)

interpretation partition_codec: codec enc_partition dec_partition
  unfolding enc_partition_def dec_partition_def
  by (rule codec_via) (intro codec_rules, simp_all)

interpretation peer_codec: codec enc_peer dec_peer
  unfolding enc_peer_def dec_peer_def
  by (rule codec_via) (intro codec_rules, simp_all)

interpretation transition_codec: codec enc_transition dec_transition
proof
  show "dec_transition (enc_transition t) = Some t" for t
    by (cases t) (simp_all add: dec_transition_def topic_codec.dec_enc partition_codec.dec_enc peer_codec.dec_enc)
qed

definition tree_store :: "tree store_env" where
  "tree_store = \<lparr>st_sled = tree_sled,
     ser_topics = (\<lambda>m. Some (enc_fmap (enc_pair utf8 enc_topic) m)),
     de_topics = dec_fmap (dec_pair (\<lambda>v. Some (un_utf8 v)) dec_topic),
     de_groups = (\<lambda>v. None), ser_topic = (\<lambda>t. Some (enc_topic t)),
     ser_partition = (\<lambda>p. Some (enc_partition p)), de_partition = dec_partition,
     ser_peer = (\<lambda>p. Some (enc_peer p)),
     ser_transition = (\<lambda>t. Some (enc_transition t)), de_transition = dec_transition,
     iter_topics = sorted_list_of_fmap, iter_partitions = sorted_list_of_fmap\<rparr>"

lemma iterates_sorted: "iterates sorted_list_of_fmap"
proof -
  have "distinct (map fst (sorted_list_of_fmap m))" for m :: "('a, 'b) fmap"
    by (simp add: sorted_list_of_fmap_def o_def sorted_list_of_fset.rep_eq)
  then show ?thesis by (simp add: iterates_def)
qed

lemma tree_store_ok: "store_env_ok tree_store"
proof -
  have "codec (enc_fmap (enc_pair utf8 enc_topic)) (dec_fmap (dec_pair (\<lambda>v. Some (un_utf8 v)) dec_topic))"
    by (intro codec_rules topic_codec.codec_axioms)
  then show ?thesis
    by (simp add: store_env_ok_def tree_store_def tree_sled_ok round_trips_def codec_def iterates_sorted
        partition_codec.dec_enc transition_codec.dec_enc)
qed

end
