(* ===== verification/Broker_Store.thy ===== *)
theory Broker_Store
  imports Broker_State
begin

text \<open>
  \<^verbatim>\<open>broker/state/mod.rs\<close> and \<^verbatim>\<open>broker/fsm.rs\<close>: the metadata of the cluster in a sled tree, and the
  replicated state machine that changes it.  All topics are one entry of the tree, every partition
  and every broker is an entry of its own.
\<close>

section \<open>The store\<close>

definition store_get :: "'db store_env \<Rightarrow> 'db \<Rightarrow> string \<Rightarrow> (bytes \<Rightarrow> 'a option) \<Rightarrow> 'a option res" where
  "store_get S db key de =
     bindE (tryS (db_get (st_sled S) db (utf8 key))) (\<lambda>found.
     case found of
       None \<Rightarrow> Inr None
     | Some x \<Rightarrow> (case de x of None \<Rightarrow> Inl (Error ''could not deserialize'') | Some t \<Rightarrow> Inr (Some t)))"

definition store_insert :: "'db store_env \<Rightarrow> 'db \<Rightarrow> string \<Rightarrow> bytes option \<Rightarrow> 'db res" where
  "store_insert S db key serialized =
     (case serialized of
        None \<Rightarrow> Inl (Error ''could not serialize'')
      | Some v \<Rightarrow> tryS (db_insert (st_sled S) db (utf8 key) v))"

definition get_topics :: "'db store_env \<Rightarrow> 'db \<Rightarrow> (string, topic) fmap res" where
  "get_topics S db =
     bindE (store_get S db ''topics'' (de_topics S)) (\<lambda>m. Inr (case m of None \<Rightarrow> fmempty | Some m \<Rightarrow> m))"

definition create_topic :: "'db store_env \<Rightarrow> 'db \<Rightarrow> topic \<Rightarrow> ('db \<times> topic) res" where
  "create_topic S db topic =
     bindE (get_topics S db) (\<lambda>topics.
     let topics' = (if fmlookup topics (tp_name topic) = None then fmupd (tp_name topic) topic topics
                    else topics)
     in bindE (store_insert S db ''topics'' (ser_topics S topics')) (\<lambda>db'. Inr (db', topic)))"

definition topic_exists :: "'db store_env \<Rightarrow> 'db \<Rightarrow> string \<Rightarrow> bool res" where
  "topic_exists S db name = bindE (get_topics S db) (\<lambda>m. Inr (fmlookup m name \<noteq> None))"

definition get_topic :: "'db store_env \<Rightarrow> 'db \<Rightarrow> string \<Rightarrow> topic option res" where
  "get_topic S db name = bindE (get_topics S db) (\<lambda>m. Inr (fmlookup m name))"

definition get_groups :: "'db store_env \<Rightarrow> 'db \<Rightarrow> (string, group) fmap res" where
  "get_groups S db =
     bindE (store_get S db ''groups'' (de_groups S)) (\<lambda>m. Inr (case m of None \<Rightarrow> fmempty | Some m \<Rightarrow> m))"

definition partition_key :: "string \<Rightarrow> partition_idx \<Rightarrow> string" where
  "partition_key topic idx = topic @ '':partition:'' @ dec_i32 idx"

definition create_partition :: "'db store_env \<Rightarrow> 'db \<Rightarrow> partition \<Rightarrow> ('db \<times> partition) res" where
  "create_partition S db p =
     bindE (store_insert S db (partition_key (pa_topic p) (pa_idx p)) (ser_partition S p)) (\<lambda>db'. Inr (db', p))"

definition broker_key :: "broker_id \<Rightarrow> string" where
  "broker_key i = ''broker:'' @ dec_i32 i"

definition create_broker :: "'db store_env \<Rightarrow> 'db \<Rightarrow> peer \<Rightarrow> ('db \<times> peer) res" where
  "create_broker S db b =
     bindE (store_insert S db (broker_key (pe_id b)) (ser_peer S b)) (\<lambda>db'. Inr (db', b))"

definition get_partition :: "'db store_env \<Rightarrow> 'db \<Rightarrow> string \<Rightarrow> partition_idx \<Rightarrow> partition option res" where
  "get_partition S db topic idx = store_get S db (partition_key topic idx) (de_partition S)"

section \<open>The state machine\<close>

text \<open>
  A transition returns the next state and the answer; an error is an answer too, and leaves what was
  written before it in the tree.
\<close>

definition answer_with :: "bytes option \<Rightarrow> string + bytes" where
  "answer_with v = (case v of None \<Rightarrow> Inl ''could not serialize'' | Some bs \<Rightarrow> Inr bs)"

definition settle :: "'db \<Rightarrow> ('db \<times> 'a) res \<Rightarrow> ('a \<Rightarrow> bytes option) \<Rightarrow> ('db \<times> (string + bytes)) res" where
  "settle db r ser =
     (case r of
        Inl (Error e) \<Rightarrow> Inr (db, Inl e)
      | Inl (Panic e) \<Rightarrow> Inl (Panic e)
      | Inr (db', x) \<Rightarrow> Inr (db', answer_with (ser x)))"

definition ensure_topic :: "'db store_env \<Rightarrow> 'db \<Rightarrow> topic \<Rightarrow> ('db \<times> (string + bytes)) res" where
  "ensure_topic S db t = settle db (create_topic S db t) (ser_topic S)"

definition ensure_partition :: "'db store_env \<Rightarrow> 'db \<Rightarrow> partition \<Rightarrow> ('db \<times> (string + bytes)) res" where
  "ensure_partition S db p = settle db (create_partition S db p) (ser_partition S)"

definition ensure_broker :: "'db store_env \<Rightarrow> 'db \<Rightarrow> peer \<Rightarrow> ('db \<times> (string + bytes)) res" where
  "ensure_broker S db b = settle db (create_broker S db b) (ser_peer S)"

definition josefine_transition :: "'db store_env \<Rightarrow> 'db \<Rightarrow> bytes \<Rightarrow> ('db \<times> (string + bytes)) res" where
  "josefine_transition S db input =
     (case de_transition S input of
        None \<Rightarrow> Inr (db, Inl ''could not deserialize'')
      | Some (EnsureTopic t) \<Rightarrow> ensure_topic S db t
      | Some (EnsurePartition p) \<Rightarrow> ensure_partition S db p
      | Some (EnsureBroker b) \<Rightarrow> ensure_broker S db b)"

section \<open>Keys do not clash\<close>

lemma last_split_unique:
  assumes "xs @ c # d = ys @ c # e" and "c \<notin> set d" and "c \<notin> set e"
  shows "xs = ys \<and> d = e"
proof -
  have "takeWhile (\<lambda>x. x \<noteq> c) (rev (zs @ c # f)) = rev f" if "c \<notin> set f" for zs f
    using that by (auto simp: takeWhile_tail takeWhile_append2)
  from this [OF assms(2), of xs] this [OF assms(3), of ys] assms(1) have "d = e"
    by (metis rev_rev_ident)
  with assms(1) show ?thesis by simp
qed

lemma partition_key_split: "partition_key t i = (t @ '':partition'') @ CHR '':'' # dec_i32 i"
  by (simp add: partition_key_def)

lemma partition_key_inject [simp]:
  "partition_key t i = partition_key u j \<longleftrightarrow> t = u \<and> i = j"
proof
  assume "partition_key t i = partition_key u j"
  then have "t @ '':partition'' = u @ '':partition'' \<and> dec_i32 i = dec_i32 j"
    unfolding partition_key_split by (rule last_split_unique) (rule dec_i32_no_colon)+
  then show "t = u \<and> i = j" by simp
qed simp

lemma broker_key_not_partition [simp]: "broker_key i \<noteq> partition_key t j"
proof
  assume "broker_key i = partition_key t j"
  then have "''broker'' @ CHR '':'' # dec_i32 i = (t @ '':partition'') @ CHR '':'' # dec_i32 j"
    by (simp add: broker_key_def partition_key_def)
  from last_split_unique [OF this dec_i32_no_colon dec_i32_no_colon]
  have "CHR '':'' \<in> set ''broker''" by (simp del: set_simps)
  then show False by simp
qed

lemma topics_key_other [simp]:
  "''topics'' \<noteq> partition_key t i" "''topics'' \<noteq> broker_key i"
proof -
  have "CHR '':'' \<in> set (partition_key t i)" "CHR '':'' \<notin> set ''topics''"
    by (simp_all add: partition_key_def)
  then show "''topics'' \<noteq> partition_key t i" by metis
qed (simp add: broker_key_def)

lemmas keys_differ [simp] = topics_key_other(1) [symmetric] topics_key_other(2) [symmetric]
  broker_key_not_partition [symmetric]

section \<open>Interface: a metadata store\<close>

text \<open>
  What the state machine and the request handlers rely on: creating a topic adds it unless the name
  is taken, creating a partition replaces the entry of its topic and index, and nothing else
  changes.
\<close>

definition with_topic :: "topic \<Rightarrow> (string, topic) fmap \<Rightarrow> (string, topic) fmap" where
  "with_topic t m = (if fmlookup m (tp_name t) = None then fmupd (tp_name t) t m else m)"

definition with_partition ::
  "partition \<Rightarrow> (string \<Rightarrow> partition_idx \<Rightarrow> partition option) \<Rightarrow> string \<Rightarrow> partition_idx \<Rightarrow> partition option" where
  "with_partition p ps n i = (if n = pa_topic p \<and> i = pa_idx p then Some p else ps n i)"

locale metadata_store =
  fixes ok :: "'s \<Rightarrow> bool"
    and topics :: "'s \<Rightarrow> (string, topic) fmap"
    and parts :: "'s \<Rightarrow> string \<Rightarrow> partition_idx \<Rightarrow> partition option"
    and mk_topic :: "'s \<Rightarrow> topic \<Rightarrow> ('s \<times> topic) res"
    and mk_partition :: "'s \<Rightarrow> partition \<Rightarrow> ('s \<times> partition) res"
    and mk_broker :: "'s \<Rightarrow> peer \<Rightarrow> ('s \<times> peer) res"
  assumes topic_law: "ok s \<Longrightarrow> \<exists>s'. mk_topic s t = Inr (s', t) \<and> ok s'
      \<and> topics s' = with_topic t (topics s) \<and> parts s' = parts s"
    and partition_law: "ok s \<Longrightarrow> \<exists>s'. mk_partition s p = Inr (s', p) \<and> ok s'
      \<and> topics s' = topics s \<and> parts s' = with_partition p (parts s)"
    and broker_law: "ok s \<Longrightarrow> \<exists>s'. mk_broker s b = Inr (s', b) \<and> ok s'
      \<and> topics s' = topics s \<and> parts s' = parts s"
begin

lemma topic_kept:
  assumes "ok s" and "mk_topic s t = Inr (s', t')"
  shows "fmlookup (topics s') (tp_name t) \<noteq> None"
    and "fmlookup (topics s) n = Some u \<Longrightarrow> fmlookup (topics s') n = Some u"
  using topic_law [OF assms(1), of t] assms(2) by (auto simp: with_topic_def)

lemma partitions_all:
  assumes "ok s"
  shows "\<exists>s'. foldE (\<lambda>p s. bindE (mk_partition s p) (\<lambda>(s', _). Inr s')) ps s = Inr s' \<and> ok s'
    \<and> topics s' = topics s \<and> parts s' = fold with_partition ps (parts s)"
  using assms
proof (induction ps arbitrary: s)
  case (Cons p ps)
  obtain s1 where s1: "mk_partition s p = Inr (s1, p)" "ok s1" "topics s1 = topics s"
    "parts s1 = with_partition p (parts s)"
    using partition_law [OF Cons.prems] by blast
  with Cons.IH [OF s1(2)] show ?case by simp
qed simp

end

section \<open>The store keeps the interface\<close>

definition topics_of :: "'db store_env \<Rightarrow> 'db \<Rightarrow> (string, topic) fmap" where
  "topics_of S db =
     (case db_lookup (st_sled S) db (utf8 ''topics'') of None \<Rightarrow> fmempty | Some v \<Rightarrow> the (de_topics S v))"

definition partition_of :: "'db store_env \<Rightarrow> 'db \<Rightarrow> string \<Rightarrow> partition_idx \<Rightarrow> partition option" where
  "partition_of S db n i =
     (case db_lookup (st_sled S) db (utf8 (partition_key n i)) of None \<Rightarrow> None | Some v \<Rightarrow> de_partition S v)"

definition store_ok :: "'db store_env \<Rightarrow> 'db \<Rightarrow> bool" where
  "store_ok S db \<longleftrightarrow> store_env_ok S
     \<and> (\<forall>v. db_lookup (st_sled S) db (utf8 ''topics'') = Some v \<longrightarrow> de_topics S v \<noteq> None)
     \<and> (\<forall>n i v. db_lookup (st_sled S) db (utf8 (partition_key n i)) = Some v \<longrightarrow> de_partition S v \<noteq> None)"

lemma get_topics_eq [simp]:
  assumes "store_ok S db"
  shows "get_topics S db = Inr (topics_of S db)"
proof -
  note sled = sled_okD(3) [OF store_env_okD(1), of S db]
  show ?thesis
    using assms by (auto simp: store_ok_def get_topics_def store_get_def sled topics_of_def
        split: option.splits)
qed

lemma get_partition_eq [simp]:
  assumes "store_ok S db"
  shows "get_partition S db n i = Inr (partition_of S db n i)"
proof (cases "db_lookup (st_sled S) db (utf8 (partition_key n i))")
  case (Some v)
  then obtain p where "de_partition S v = Some p" using assms unfolding store_ok_def by blast
  with Some assms show ?thesis
    by (simp add: store_ok_def get_partition_def store_get_def sled_okD(3) store_env_okD(1) partition_of_def)
qed (use assms in \<open>simp add: store_ok_def get_partition_def store_get_def sled_okD(3) store_env_okD(1)
  partition_of_def\<close>)

text \<open>Writing an entry of the store.\<close>

lemma store_insertE:
  assumes "store_ok S db"
  obtains db' where "store_insert S db key (Some v) = Inr db'"
    "db_lookup (st_sled S) db' = (db_lookup (st_sled S) db)(utf8 key \<mapsto> v)"
proof -
  have "sled_ok (st_sled S)" using assms by (simp add: store_ok_def store_env_okD)
  then obtain db' where "db_insert (st_sled S) db (utf8 key) v = Inr db'"
    "db_lookup (st_sled S) db' = (db_lookup (st_sled S) db)(utf8 key \<mapsto> v)"
    by (rule sled_insertE)
  then show ?thesis by (intro that [of db']) (simp_all add: store_insert_def)
qed

lemma create_topic_law:
  assumes "store_ok S db"
  shows "\<exists>db'. create_topic S db t = Inr (db', t) \<and> store_ok S db'
    \<and> topics_of S db' = with_topic t (topics_of S db) \<and> partition_of S db' = partition_of S db"
proof -
  have env: "store_env_ok S" using assms by (simp add: store_ok_def)
  obtain v where v: "ser_topics S (with_topic t (topics_of S db)) = Some v"
    "de_topics S v = Some (with_topic t (topics_of S db))"
    by (rule round_tripsE [OF store_env_okD(2) [OF env]])
  obtain db' where db': "store_insert S db ''topics'' (Some v) = Inr db'"
    "db_lookup (st_sled S) db' = (db_lookup (st_sled S) db)(utf8 ''topics'' \<mapsto> v)"
    by (rule store_insertE [OF assms])
  have "create_topic S db t = Inr (db', t)"
    using assms v db'(1) by (simp add: create_topic_def with_topic_def Let_def)
  moreover have "store_ok S db'"
    using assms env v db' by (simp add: store_ok_def)
  moreover have "topics_of S db' = with_topic t (topics_of S db)" "partition_of S db' = partition_of S db"
    using v db' by (simp_all add: topics_of_def partition_of_def fun_eq_iff)
  ultimately show ?thesis by blast
qed

lemma create_partition_law:
  assumes "store_ok S db"
  shows "\<exists>db'. create_partition S db p = Inr (db', p) \<and> store_ok S db'
    \<and> topics_of S db' = topics_of S db \<and> partition_of S db' = with_partition p (partition_of S db)"
proof -
  let ?key = "partition_key (pa_topic p) (pa_idx p)"
  have env: "store_env_ok S" using assms by (simp add: store_ok_def)
  obtain v where v: "ser_partition S p = Some v" "de_partition S v = Some p"
    by (rule round_tripsE [OF store_env_okD(3) [OF env]])
  obtain db' where db': "store_insert S db ?key (Some v) = Inr db'"
    "db_lookup (st_sled S) db' = (db_lookup (st_sled S) db)(utf8 ?key \<mapsto> v)"
    by (rule store_insertE [OF assms])
  have "create_partition S db p = Inr (db', p)"
    using v db'(1) by (simp add: create_partition_def)
  moreover have "store_ok S db'"
    using assms env v db' by (auto simp: store_ok_def)
  moreover have "topics_of S db' = topics_of S db" "partition_of S db' = with_partition p (partition_of S db)"
    using v db' by (simp_all add: topics_of_def partition_of_def with_partition_def fun_eq_iff)
  ultimately show ?thesis by blast
qed

lemma create_broker_law:
  assumes "store_ok S db"
  shows "\<exists>db'. create_broker S db b = Inr (db', b) \<and> store_ok S db'
    \<and> topics_of S db' = topics_of S db \<and> partition_of S db' = partition_of S db"
proof -
  have env: "store_env_ok S" using assms by (simp add: store_ok_def)
  obtain v where v: "ser_peer S b = Some v" using store_env_okD(6) [OF env] by blast
  obtain db' where db': "store_insert S db (broker_key (pe_id b)) (Some v) = Inr db'"
    "db_lookup (st_sled S) db' = (db_lookup (st_sled S) db)(utf8 (broker_key (pe_id b)) \<mapsto> v)"
    by (rule store_insertE [OF assms])
  then show ?thesis
    using assms env v topics_key_other(2) [of "pe_id b"] broker_key_not_partition [of "pe_id b"]
    by (simp add: create_broker_def store_ok_def topics_of_def partition_of_def fun_eq_iff)
qed

interpretation sled_store: metadata_store "store_ok S" "topics_of S" "partition_of S"
  "create_topic S" "create_partition S" "create_broker S" for S :: "'db store_env"
  by unfold_locales (rule create_topic_law create_partition_law create_broker_law, assumption)+


section \<open>The metadata of the cluster\<close>

definition metadata ::
  "'db store_env \<Rightarrow> 'db \<Rightarrow> (string, topic) fmap \<times> (string \<Rightarrow> partition_idx \<Rightarrow> partition option)" where
  "metadata S db = (topics_of S db, partition_of S db)"

fun metadata_step ::
  "transition \<Rightarrow> (string, topic) fmap \<times> (string \<Rightarrow> partition_idx \<Rightarrow> partition option) \<Rightarrow>
   (string, topic) fmap \<times> (string \<Rightarrow> partition_idx \<Rightarrow> partition option)" where
  "metadata_step (EnsureTopic t) (ts, ps) = (with_topic t ts, ps)"
| "metadata_step (EnsurePartition p) (ts, ps) = (ts, with_partition p ps)"
| "metadata_step (EnsureBroker b) m = m"

lemma josefine_decodes:
  assumes "store_ok S db" and "de_transition S input = Some tr"
  shows "\<exists>db' out. josefine_transition S db input = Inr (db', Inr out) \<and> store_ok S db'
    \<and> metadata S db' = metadata_step tr (metadata S db)"
proof -
  have env: "store_env_ok S" using assms(1) by (simp add: store_ok_def)
  show ?thesis
  proof (cases tr)
    case (EnsureTopic t)
    obtain v where "ser_topic S t = Some v" using store_env_okD(5) [OF env] by blast
    then show ?thesis
      using sled_store.topic_law [OF assms(1), of t] assms(2) EnsureTopic
      by (auto simp: josefine_transition_def ensure_topic_def settle_def answer_with_def metadata_def)
  next
    case (EnsurePartition p)
    obtain v where "ser_partition S p = Some v" by (rule round_tripsE [OF store_env_okD(3) [OF env]])
    then show ?thesis
      using sled_store.partition_law [OF assms(1), of p] assms(2) EnsurePartition
      by (auto simp: josefine_transition_def ensure_partition_def settle_def answer_with_def metadata_def)
  next
    case (EnsureBroker b)
    obtain v where "ser_peer S b = Some v" using store_env_okD(6) [OF env] by blast
    then show ?thesis
      using sled_store.broker_law [OF assms(1), of b] assms(2) EnsureBroker
      by (auto simp: josefine_transition_def ensure_broker_def settle_def answer_with_def metadata_def)
  qed
qed

section \<open>Properties of the store\<close>

text \<open>
  (C18) Creating and looking up.  A topic whose name is free is found afterwards as it was created; a
  taken name keeps its first topic.  A partition is found under its topic and index, also when an
  earlier one is there.  No other topic and no other partition is affected, whatever their names
  are.
\<close>

theorem store_round_trip:
  assumes "store_ok S db"
  shows "\<exists>db1 db2. create_topic S db t = Inr (db1, t) \<and> create_partition S db1 p = Inr (db2, p)
    \<and> topic_exists S db2 (tp_name t) = Inr True
    \<and> (\<forall>n. get_topic S db2 n = (if n = tp_name t \<and> topic_exists S db n = Inr False
           then Inr (Some t) else get_topic S db n))
    \<and> (\<forall>n i. get_partition S db2 n i = (if n = pa_topic p \<and> i = pa_idx p
           then Inr (Some p) else get_partition S db n i))"
proof -
  obtain db1 where db1: "create_topic S db t = Inr (db1, t)" "store_ok S db1"
    "topics_of S db1 = with_topic t (topics_of S db)" "partition_of S db1 = partition_of S db"
    using sled_store.topic_law [OF assms] by blast
  obtain db2 where db2: "create_partition S db1 p = Inr (db2, p)" "store_ok S db2"
    "topics_of S db2 = topics_of S db1" "partition_of S db2 = with_partition p (partition_of S db1)"
    using sled_store.partition_law [OF db1(2)] by blast
  from db1 db2 assms show ?thesis
    by (intro exI [of _ db1] exI [of _ db2])
      (auto simp: topic_exists_def get_topic_def with_topic_def with_partition_def)
qed

text \<open>
  The state machine refines the metadata: a transition that decodes is answered without an
  error and does to the topics and partitions what the abstract step does; one that does not decode
  is answered with an error and changes nothing.
\<close>

lemma transition_refines_metadata:
  assumes "store_ok S db"
  shows "case de_transition S input of
      None \<Rightarrow> \<exists>e. josefine_transition S db input = Inr (db, Inl e)
    | Some tr \<Rightarrow> \<exists>db' out. josefine_transition S db input = Inr (db', Inr out) \<and> store_ok S db'
        \<and> metadata S db' = metadata_step tr (metadata S db)"
  using josefine_decodes [OF assms, of input]
  by (cases "de_transition S input") (simp_all add: josefine_transition_def)

section \<open>A concrete store\<close>

definition demo_topic :: topic where
  "demo_topic = \<lparr>tp_id = 5, tp_name = ''logs'', tp_partitions = fmupd 0 [1] fmempty, tp_internal = False\<rparr>"

definition demo_partition :: partition where
  "demo_partition = \<lparr>pa_id = 6, pa_idx = 0, pa_topic = ''logs'', pa_isr = [1], pa_assigned_replicas = [1],
     pa_leader = 1\<rparr>"

lemma empty_store_ok: "store_ok tree_store RBT.empty"
  and empty_topics: "topics_of tree_store RBT.empty = fmempty"
proof -
  have "db_lookup (st_sled tree_store) RBT.empty k = None" for k
    by (simp add: tree_store_def tree_sled_lookup)
  then show "store_ok tree_store RBT.empty" "topics_of tree_store RBT.empty = fmempty"
    by (simp_all add: store_ok_def tree_store_ok topics_of_def)
qed

theorem store_round_trip_witness:
  "\<exists>db1 db2. create_topic tree_store RBT.empty demo_topic = Inr (db1, demo_topic)
    \<and> create_partition tree_store db1 demo_partition = Inr (db2, demo_partition)
    \<and> get_topic tree_store db2 ''logs'' = Inr (Some demo_topic)
    \<and> get_partition tree_store db2 ''logs'' 0 = Inr (Some demo_partition)"
proof -
  have "topic_exists tree_store RBT.empty ''logs'' = Inr False"
    by (simp add: topic_exists_def empty_store_ok empty_topics)
  with store_round_trip [OF empty_store_ok, of demo_topic demo_partition] show ?thesis
    by (auto simp: demo_topic_def demo_partition_def)
qed

end
