(* ===== verification/Broker_Log.thy ===== *)
theory Broker_Log
  imports Display
begin

text \<open>
  \<^verbatim>\<open>broker/log/\<close>: the on-disk log of a partition.  A log is a list of segments, a segment is a data
  file and a memory-mapped index, and an index entry is sixteen bytes.  The integer encoding of the
  byteorder crate and the mapping of the memmap crate are parameters; files and slices are those of
  the standard library.
\<close>

section \<open>The parameters\<close>

text \<open>
  \<open>bo_write_u64\<close> is what writing an integer appends to a vector, \<open>bo_read_u64\<close> what reading one from
  a buffer yields, nothing when the buffer is too short; \<open>map_mut\<close> gives the bytes of the memory a
  file is mapped to.
\<close>

record log_env =
  bo_write_u64 :: "u64 \<Rightarrow> bytes"
  bo_read_u64 :: "bytes \<Rightarrow> u64 option"
  map_mut :: "bytes \<Rightarrow> bytes option"
  log_checks :: bool

text \<open>
  The documented behaviour: \<^verbatim>\<open>BigEndian\<close> integers are eight bytes, most significant first, and a
  mapping shows the contents of the file.
\<close>

definition log_env_ok :: "log_env \<Rightarrow> bool" where
  "log_env_ok L \<longleftrightarrow>
     (\<forall>w. bo_write_u64 L w = to_be_bytes w)
   \<and> (\<forall>bs. bo_read_u64 L bs = (if length bs < 8 then None else Some (from_be_bytes (take 8 bs))))
   \<and> (\<forall>f. map_mut L f = Some f)"

section \<open>Index entries\<close>

record entry =
  en_offset :: u64
  en_position :: u64

definition Entry_new :: "u64 \<Rightarrow> u64 \<Rightarrow> entry" where
  "Entry_new offset position = \<lparr>en_offset = offset, en_position = position\<rparr>"

definition entry_to_bytes :: "log_env \<Rightarrow> entry \<Rightarrow> bytes" where
  "entry_to_bytes L e = bo_write_u64 L (en_offset e) @ bo_write_u64 L (en_position e)"

definition entry_from_bytes :: "log_env \<Rightarrow> bytes \<Rightarrow> entry res" where
  "entry_from_bytes L bs =
     bindE (assertE (length bs = 16) ''assertion failed'') (\<lambda>_.
     bindE (expectE (bo_read_u64 L (take 8 bs)) ''unwrap'') (\<lambda>offset.
     bindE (expectE (bo_read_u64 L (take 16 (drop 8 bs))) ''unwrap'') (\<lambda>position.
     Inr \<lparr>en_offset = offset, en_position = position\<rparr>)))"

section \<open>The index\<close>

text \<open>
  A directory gives the contents of the file of a name, empty when the file is created, nothing when
  it cannot be opened.
\<close>

type_synonym directory = "string \<Rightarrow> bytes option"

definition MAX_BYTES_INDEX :: nat where
  "MAX_BYTES_INDEX = 10 * 1024 * 1024"

record index =
  ix_base_offset :: u64
  ix_mmap :: bytes

text \<open>\<^verbatim>\<open>File::set_len\<close> cuts a file or fills it up with zeros.\<close>

definition set_len :: "bytes \<Rightarrow> nat \<Rightarrow> bytes" where
  "set_len f n = take n f @ replicate (n - length f) 0"

definition index_new :: "log_env \<Rightarrow> directory \<Rightarrow> u64 \<Rightarrow> index res" where
  "index_new L dir base_offset =
     bindE (expectE (dir (dec_u64 base_offset @ ''.index'')) ''could not create index file'') (\<lambda>file.
     bindE (expectE (map_mut L (set_len file MAX_BYTES_INDEX)) ''unwrap'') (\<lambda>mmap.
     Inr \<lparr>ix_base_offset = base_offset, ix_mmap = mmap\<rparr>))"

definition index_write_at :: "index \<Rightarrow> bytes \<Rightarrow> u64 \<Rightarrow> index res" where
  "index_write_at ix bs offset =
     (let m = ix_mmap ix; o' = unat offset
      in if length m < o' then Inl (Panic ''range start index out of range for slice'')
         else if length m < o' + length bs then Inl (Panic ''failed to write whole buffer'')
         else Inr (ix\<lparr>ix_mmap := take o' m @ bs @ drop (o' + length bs) m\<rparr>))"

definition index_write_entry :: "log_env \<Rightarrow> index \<Rightarrow> entry \<Rightarrow> index res" where
  "index_write_entry L ix entry =
     bindE (sub_u64 (log_checks L) (en_offset entry) (ix_base_offset ix)) (\<lambda>rel.
     let e = entry\<lparr>en_offset := rel\<rparr>
     in index_write_at ix (entry_to_bytes L e) (en_offset e))"

definition index_read_entry :: "log_env \<Rightarrow> index \<Rightarrow> u64 \<Rightarrow> entry res" where
  "index_read_entry L ix offset =
     (if length (ix_mmap ix) < unat offset + 16 then Inl (Panic ''range end index out of range for slice'')
      else
        bindE (entry_from_bytes L (take 16 (drop (unat offset) (ix_mmap ix)))) (\<lambda>entry.
        bindE (add_u64 (log_checks L) (en_offset entry) (ix_base_offset ix)) (\<lambda>abs.
        Inr (entry\<lparr>en_offset := abs\<rparr>))))"

text \<open>\<^verbatim>\<open>slice::windows\<close> and \<^verbatim>\<open>Iterator::position\<close>.\<close>

definition windows :: "nat \<Rightarrow> bytes \<Rightarrow> bytes list" where
  "windows n xs = map (\<lambda>i. take n (drop i xs)) [0..<Suc (length xs) - n]"

fun positionE :: "('a \<Rightarrow> bool res) \<Rightarrow> 'a list \<Rightarrow> nat option res" where
  "positionE p [] = Inr None"
| "positionE p (x # xs) =
     bindE (p x) (\<lambda>b. if b then Inr (Some 0) else
       bindE (positionE p xs) (\<lambda>i. Inr (map_option Suc i)))"

definition index_find_entry :: "log_env \<Rightarrow> index \<Rightarrow> u64 \<Rightarrow> entry option res" where
  "index_find_entry L ix offset =
     bindE (positionE (\<lambda>x. bindE (entry_from_bytes L x) (\<lambda>e. Inr (en_offset e = offset)))
       (windows 16 (ix_mmap ix))) (\<lambda>pos.
     case pos of
       None \<Rightarrow> Inr None
     | Some idx \<Rightarrow>
         bindE (entry_from_bytes L (take 16 (drop idx (ix_mmap ix)))) (\<lambda>e. Inr (Some e)))"

section \<open>Segments\<close>

text \<open>
  An open file is its contents and a cursor that reads and writes share.  \<open>io\<close> says whether the
  operating system carries out the operation.
\<close>

record file_handle =
  fi_content :: bytes
  fi_pos :: nat

definition file_write_all :: "bool \<Rightarrow> file_handle \<Rightarrow> bytes \<Rightarrow> file_handle res" where
  "file_write_all io f buf =
     (if io then
        Inr \<lparr>fi_content = take (fi_pos f) (fi_content f) @ buf @ drop (fi_pos f + length buf) (fi_content f),
             fi_pos = fi_pos f + length buf\<rparr>
      else Inl (Error ''io''))"

definition file_read :: "bool \<Rightarrow> file_handle \<Rightarrow> nat \<Rightarrow> (file_handle \<times> bytes) res" where
  "file_read io f n =
     (if io then
        let bs = take n (drop (fi_pos f) (fi_content f))
        in Inr (f\<lparr>fi_pos := fi_pos f + length bs\<rparr>, bs)
      else Inl (Error ''io''))"

definition MAX_SEGMENT_BYES :: u64 where
  "MAX_SEGMENT_BYES = 1024 * 1024 * 1024"

record segment =
  sg_next_offset :: u64
  sg_bytes :: u64
  sg_log :: file_handle
  sg_index :: index

definition log_name :: "u64 \<Rightarrow> string" where
  "log_name offset = dec_u64 offset @ ''.log''"

definition segment_new :: "log_env \<Rightarrow> directory \<Rightarrow> u64 \<Rightarrow> segment res" where
  "segment_new L dir base_offset =
     bindE (index_new L dir base_offset) (\<lambda>index.
     bindE (expectE (dir (log_name base_offset)) ''could not create segment file'') (\<lambda>file.
     Inr \<lparr>sg_next_offset = 0, sg_bytes = 0, sg_log = \<lparr>fi_content = file, fi_pos = 0\<rparr>, sg_index = index\<rparr>))"

definition segment_full :: "segment \<Rightarrow> bool" where
  "segment_full s \<longleftrightarrow> sg_bytes s \<ge> MAX_SEGMENT_BYES"

definition segment_write :: "log_env \<Rightarrow> bool \<Rightarrow> segment \<Rightarrow> bytes \<Rightarrow> (segment \<times> nat) res" where
  "segment_write L io s buf =
     bindE (file_write_all io (sg_log s) buf) (\<lambda>log.
     bindE (index_write_entry L (sg_index s) (Entry_new (sg_next_offset s) (sg_bytes s))) (\<lambda>index.
     bindE (add_u64 (log_checks L) (sg_next_offset s) 1) (\<lambda>next_offset.
     bindE (add_u64 (log_checks L) (sg_bytes s) (word_of_nat (length buf))) (\<lambda>total.
     Inr (\<lparr>sg_next_offset = next_offset, sg_bytes = total, sg_log = log, sg_index = index\<rparr>,
          length buf)))))"

definition segment_read :: "bool \<Rightarrow> segment \<Rightarrow> nat \<Rightarrow> (segment \<times> bytes) res" where
  "segment_read io s n =
     bindE (file_read io (sg_log s) n) (\<lambda>(f, bs). Inr (s\<lparr>sg_log := f\<rparr>, bs))"

section \<open>The log\<close>

record log =
  lg_path :: directory
  lg_segments :: "segment list"
  lg_active_segment :: nat

text \<open>\<open>path\<close> is nothing when the directory cannot be created.\<close>

definition log_new :: "log_env \<Rightarrow> directory option \<Rightarrow> log res" where
  "log_new L path =
     bindE (expectE path ''could not create log dir'') (\<lambda>dir.
     bindE (segment_new L dir 0) (\<lambda>segment.
     Inr \<lparr>lg_path = dir, lg_segments = [segment], lg_active_segment = 0\<rparr>))"

definition active_segment :: "log \<Rightarrow> segment res" where
  "active_segment lg =
     (if lg_active_segment lg < length (lg_segments lg)
      then Inr (lg_segments lg ! lg_active_segment lg) else Inl (Panic ''index out of bounds''))"

definition newest_offset :: "log \<Rightarrow> u64 res" where
  "newest_offset lg = bindE (active_segment lg) (\<lambda>s. Inr (sg_next_offset s))"

definition roll_segment :: "log_env \<Rightarrow> log \<Rightarrow> log res" where
  "roll_segment L lg =
     bindE (active_segment lg) (\<lambda>s.
     if segment_full s then
       bindE (newest_offset lg) (\<lambda>base.
       bindE (segment_new L (lg_path lg) base) (\<lambda>segment.
       Inr (lg\<lparr>lg_active_segment := length (lg_segments lg),
               lg_segments := lg_segments lg @ [segment]\<rparr>)))
     else Inr lg)"

definition log_write :: "log_env \<Rightarrow> bool \<Rightarrow> log \<Rightarrow> bytes \<Rightarrow> (log \<times> nat) res" where
  "log_write L io lg buf =
     bindE (roll_segment L lg) (\<lambda>lg'.
     bindE (active_segment lg') (\<lambda>s.
     bindE (write_all (segment_write L io) s buf) (\<lambda>s'.
     Inr (lg'\<lparr>lg_segments := (lg_segments lg')[lg_active_segment lg' := s']\<rparr>, length buf))))"

definition log_read :: "bool \<Rightarrow> log \<Rightarrow> nat \<Rightarrow> (log \<times> bytes) res" where
  "log_read io lg n =
     bindE (active_segment lg) (\<lambda>s.
     bindE (segment_read io s n) (\<lambda>(s', bs).
     Inr (lg\<lparr>lg_segments := (lg_segments lg)[lg_active_segment lg := s']\<rparr>, bs)))"

text \<open>\<^verbatim>\<open>_Reader\<close> of \<^verbatim>\<open>reader.rs\<close>, which has no operations yet.\<close>

record reader =
  rd_segment :: segment
  rd_segments :: "segment list"
  rd_index :: nat
  rd_offset :: u64

text \<open>
  Only the index is ever synchronised, and by nobody: flushing a log asks its active segment, which does nothing.  \<open>flushed\<close> says whether the
  mapped file could be written back.
\<close>

definition index_sync :: "bool \<Rightarrow> index \<Rightarrow> index res" where
  "index_sync flushed ix = (if flushed then Inr ix else Inl (Panic ''unwrap''))"

definition segment_flush :: "segment \<Rightarrow> segment res" where
  "segment_flush s = Inr s"

definition log_flush :: "log \<Rightarrow> log res" where
  "log_flush l = bindE (active_segment l) (\<lambda>s. bindE (segment_flush s) (\<lambda>_. Inr l))"

section \<open>Entries and the index: lemmas\<close>

lemma log_env_okD [simp]:
  assumes "log_env_ok L"
  shows "bo_write_u64 L w = to_be_bytes w"
    and "length bs = 8 \<Longrightarrow> bo_read_u64 L bs = Some (from_be_bytes bs)"
    and "map_mut L f = Some f"
  using assms by (simp_all add: log_env_ok_def)

lemma length_entry_to_bytes [simp]: "log_env_ok L \<Longrightarrow> length (entry_to_bytes L e) = 16"
  by (simp add: entry_to_bytes_def)

lemma entry_from_halves:
  assumes "log_env_ok L" and "length a = 8" and "length b = 8"
  shows "entry_from_bytes L (a @ b) = Inr \<lparr>en_offset = from_be_bytes a, en_position = from_be_bytes b\<rparr>"
  using assms by (simp add: entry_from_bytes_def)

lemma entry_from_to [simp]: "log_env_ok L \<Longrightarrow> entry_from_bytes L (entry_to_bytes L e) = Inr e"
  by (simp add: entry_to_bytes_def entry_from_halves)

lemma entry_from_short: "length bs \<noteq> 16 \<Longrightarrow> entry_from_bytes L bs = Inl (Panic ''assertion failed'')"
  by (simp add: entry_from_bytes_def)

lemma length_set_len [simp]: "length (set_len f n) = n"
  by (simp add: set_len_def)

lemma sub_u64_le: "b \<le> a \<Longrightarrow> sub_u64 checks a b = Inr (a - b)"
  by (simp add: sub_u64_def not_less)

lemma add_u64_sub:
  assumes "b \<le> (a :: u64)"
  shows "add_u64 checks (a - b) b = Inr a"
proof -
  have "unat (a - b) + unat b = unat a"
    using assms by (simp add: unat_sub word_le_nat_alt)
  then show ?thesis
    using unsigned_less [of a, where 'a = nat] by (simp add: add_u64_def)
qed

text \<open>The bytes a write at \<open>o\<close> leaves behind.\<close>

definition overwrite :: "bytes \<Rightarrow> nat \<Rightarrow> bytes \<Rightarrow> bytes" where
  "overwrite m i bs = take i m @ bs @ drop (i + length bs) m"

lemma length_overwrite [simp]: "i + length bs \<le> length m \<Longrightarrow> length (overwrite m i bs) = length m"
  by (simp add: overwrite_def)

lemma nth_overwrite:
  assumes "i + length bs \<le> length m" and "j < length m"
  shows "overwrite m i bs ! j = (if i \<le> j \<and> j < i + length bs then bs ! (j - i) else m ! j)"
  using assms by (auto simp: overwrite_def nth_append)

lemma write_entry_fits:
  assumes "log_env_ok L" and "ix_base_offset ix \<le> en_offset e"
    and "unat (en_offset e - ix_base_offset ix) + 16 \<le> length (ix_mmap ix)"
  shows "index_write_entry L ix e = Inr (ix\<lparr>ix_mmap := overwrite (ix_mmap ix)
    (unat (en_offset e - ix_base_offset ix))
    (entry_to_bytes L (e\<lparr>en_offset := en_offset e - ix_base_offset ix\<rparr>))\<rparr>)"
  using assms by (simp add: index_write_entry_def index_write_at_def sub_u64_le overwrite_def Let_def)

lemma write_entry_panics:
  assumes "log_env_ok L"
    and "length (ix_mmap ix) < unat (en_offset e - ix_base_offset ix) + 16"
  shows "\<exists>m. index_write_entry L ix e = Inl (Panic m)"
  using assms by (auto simp: index_write_entry_def index_write_at_def sub_u64_def Let_def)

lemma take_drop_overwrite [simp]:
  "i + length bs \<le> length m \<Longrightarrow> take (length bs) (drop i (overwrite m i bs)) = bs"
  by (simp add: overwrite_def)

lemma read_entry_fits:
  assumes "unat i + 16 \<le> length (ix_mmap ix)"
  shows "index_read_entry L ix i =
    bindE (entry_from_bytes L (take 16 (drop (unat i) (ix_mmap ix)))) (\<lambda>entry.
    bindE (add_u64 (log_checks L) (en_offset entry) (ix_base_offset ix)) (\<lambda>abs.
    Inr (entry\<lparr>en_offset := abs\<rparr>)))"
  using assms by (simp add: index_read_entry_def)

lemma read_entry_panics:
  "length (ix_mmap ix) < unat i + 16 \<Longrightarrow> \<exists>m. index_read_entry L ix i = Inl (Panic m)"
  by (simp add: index_read_entry_def)

text \<open>Splitting a number into its upper seven bytes and its lowest one.\<close>

lemma be_val_append: "be_val (xs @ ys) = be_val xs * 256 ^ length ys + be_val ys"
  by (induction xs) (simp_all add: algebra_simps power_add)

lemma be_val_upper:
  "be_val (take 7 (to_be_bytes w)) = unat w div 256" "be_val (drop 7 (to_be_bytes w)) = unat w mod 256"
proof -
  have eq: "unat w = be_val (take 7 (to_be_bytes w)) * 256 + be_val (drop 7 (to_be_bytes w))"
    using be_val_append [of "take 7 (to_be_bytes w)" "drop 7 (to_be_bytes w)"] by simp
  have less: "be_val (drop 7 (to_be_bytes w)) < 256"
    using be_val_less [of "drop 7 (to_be_bytes w)"] by simp
  show "be_val (take 7 (to_be_bytes w)) = unat w div 256"
    "be_val (drop 7 (to_be_bytes w)) = unat w mod 256"
    by (subst eq, use less in simp)+
qed

lemma to_be_bytes_small:
  assumes "unat w < 2 ^ 56"
  shows "hd (to_be_bytes w) = 0"
proof -
  have "hd (to_be_bytes w) = word_of_nat (unat w div 256 ^ 7)"
    by (simp add: to_be_bytes_digits hd_map hd_rev)
  moreover have "unat w div 256 ^ 7 = 0"
    using assms by (intro div_less) simp
  ultimately show ?thesis by simp
qed


text \<open>Searching finds the first window with the offset that is looked for.\<close>

lemma positionE_Some:
  "positionE p xs = Inr (Some i) \<Longrightarrow>
     i < length xs \<and> p (xs ! i) = Inr True \<and> (\<forall>j < i. p (xs ! j) = Inr False)"
proof (induction xs arbitrary: i)
  case (Cons x xs)
  then show ?case by (cases i) (auto simp: bindE_Inr less_Suc_eq_0_disj split: if_splits)
qed simp

lemma find_entry_sound:
  assumes "index_find_entry L ix offset = Inr (Some e)"
  shows "en_offset e = offset \<and> (\<exists>i. i + 16 \<le> length (ix_mmap ix)
    \<and> entry_from_bytes L (take 16 (drop i (ix_mmap ix))) = Inr e)"
proof -
  obtain i where i: "positionE (\<lambda>x. bindE (entry_from_bytes L x) (\<lambda>e. Inr (en_offset e = offset)))
      (windows 16 (ix_mmap ix)) = Inr (Some i)"
    and e: "entry_from_bytes L (take 16 (drop i (ix_mmap ix))) = Inr e"
    using assms by (auto simp: index_find_entry_def bindE_Inr split: option.splits)
  from positionE_Some [OF i] e show ?thesis
    by (intro conjI exI [of _ i]) (auto simp: windows_def bindE_Inr)
qed

section \<open>Overlapping entries\<close>

lemma unat_word_of_nat: "n < 2 ^ 64 \<Longrightarrow> unat (word_of_nat n :: u64) = n"
  by (simp only: unat_of_nat) simp

text \<open>
  What is read at an entry after the next one has been written: the first byte of the entry, then
  fifteen bytes of the next one.
\<close>

lemma overlap_bytes:
  assumes "length a = 16" and "length b = 16" and "i + 17 \<le> length m"
  shows "take 16 (drop i (overwrite (overwrite m i a) (Suc i) b)) = hd a # take 15 b"
  using assms by (cases a) (simp_all add: overwrite_def drop_Suc_Cons)

lemma overlap_entry:
  assumes "log_env_ok L" and "unat r < 2 ^ 56" and "unat (r + 1) = Suc (unat r)"
  shows "entry_from_bytes L (hd (entry_to_bytes L \<lparr>en_offset = r, en_position = p\<rparr>)
      # take 15 (entry_to_bytes L \<lparr>en_offset = r + 1, en_position = q\<rparr>)) =
    Inr \<lparr>en_offset = word_of_nat (Suc (unat r) div 256),
         en_position = word_of_nat (Suc (unat r) mod 256 * 2 ^ 56 + unat q div 256)\<rparr>"
proof -
  let ?o = "to_be_bytes (r + 1)" and ?q = "to_be_bytes q"
  have "hd (entry_to_bytes L \<lparr>en_offset = r, en_position = p\<rparr>) = 0"
    using assms to_be_bytes_small [of r] length_to_be_bytes [of r]
    by (cases "to_be_bytes r") (simp_all add: entry_to_bytes_def del: length_to_be_bytes)
  moreover have "take 15 (?o @ ?q) = take 7 ?o @ drop 7 ?o @ take 7 ?q"
    by simp
  ultimately have split: "hd (entry_to_bytes L \<lparr>en_offset = r, en_position = p\<rparr>)
      # take 15 (entry_to_bytes L \<lparr>en_offset = r + 1, en_position = q\<rparr>)
      = (0 # take 7 ?o) @ (drop 7 ?o @ take 7 ?q)"
    using assms(1) by (simp add: entry_to_bytes_def)
  have "from_be_bytes (0 # take 7 ?o) = word_of_nat (Suc (unat r) div 256)"
    using assms(3) by (simp add: from_be_bytes_def be_val_upper)
  moreover have "from_be_bytes (drop 7 ?o @ take 7 ?q)
      = word_of_nat (Suc (unat r) mod 256 * 2 ^ 56 + unat q div 256)"
    using assms(3) by (simp add: from_be_bytes_def be_val_append be_val_upper)
  ultimately show ?thesis
    unfolding split using assms(1) by (subst entry_from_halves) simp_all
qed

section \<open>Properties of the index\<close>

text \<open>
  The index.  An entry whose place lies within the file is read back as it was written, and no
  byte outside its sixteen changes; one whose place does not panics, in writing and in reading.
\<close>

lemma index_write_read:
  assumes "log_env_ok L" and "ix_base_offset ix \<le> en_offset e"
  defines "rel \<equiv> en_offset e - ix_base_offset ix"
  shows "if unat rel + 16 \<le> length (ix_mmap ix) then
     \<exists>ix'. index_write_entry L ix e = Inr ix' \<and> index_read_entry L ix' rel = Inr e
       \<and> ix_base_offset ix' = ix_base_offset ix \<and> length (ix_mmap ix') = length (ix_mmap ix)
       \<and> (\<forall>j < length (ix_mmap ix). j < unat rel \<or> unat rel + 16 \<le> j \<longrightarrow> ix_mmap ix' ! j = ix_mmap ix ! j)
   else (\<exists>m. index_write_entry L ix e = Inl (Panic m)) \<and> (\<exists>m. index_read_entry L ix rel = Inl (Panic m))"
proof (cases "unat rel + 16 \<le> length (ix_mmap ix)")
  case True
  let ?e = "e\<lparr>en_offset := rel\<rparr>"
  let ?ix = "ix\<lparr>ix_mmap := overwrite (ix_mmap ix) (unat rel) (entry_to_bytes L ?e)\<rparr>"
  have "take 16 (drop (unat rel) (ix_mmap ?ix)) = entry_to_bytes L ?e"
    using take_drop_overwrite [of "unat rel" "entry_to_bytes L ?e" "ix_mmap ix"] True assms(1) by simp
  then have "index_read_entry L ?ix rel = Inr e"
    using True assms(1) add_u64_sub [OF assms(2)]
    by (simp add: read_entry_fits rel_def)
  moreover have "index_write_entry L ix e = Inr ?ix"
    using write_entry_fits [OF assms(1,2)] True by (simp add: rel_def)
  ultimately show ?thesis
    using True assms(1) by (auto simp: nth_overwrite)
next
  case False
  then show ?thesis
    using write_entry_panics [OF assms(1), of ix e] read_entry_panics [of ix rel] by (simp add: rel_def)
qed

text \<open>
  Consecutive entries overlap.  An entry takes sixteen bytes but is placed at the byte of its
  offset, so the entry of the next offset overwrites all but its first byte.  Reading the earlier
  entry afterwards gives a position made of the lowest byte of the next offset and the upper bytes
  of the next position.
\<close>

lemma index_entries_overlap:
  assumes "log_env_ok L" and "unat rel + 17 \<le> length (ix_mmap ix)"
    and "length (ix_mmap ix) = MAX_BYTES_INDEX" and "unat (ix_base_offset ix) + unat rel < 2 ^ 63"
  defines "nxt \<equiv> Suc (unat rel)"
  shows "\<exists>ix1 ix2 e. index_write_entry L ix (Entry_new (ix_base_offset ix + rel) p) = Inr ix1
    \<and> index_write_entry L ix1 (Entry_new (ix_base_offset ix + rel + 1) q) = Inr ix2
    \<and> index_read_entry L ix2 rel = Inr e
    \<and> unat (en_offset e) = unat (ix_base_offset ix) + nxt div 256
    \<and> unat (en_position e) = nxt mod 256 * 2 ^ 56 + unat q div 256"
proof -
  let ?b = "ix_base_offset ix"
  have small: "unat rel < 2 ^ 56"
    using assms(2,3) by (simp add: MAX_BYTES_INDEX_def)
  have sums: "unat (?b + rel) = unat ?b + unat rel" "unat (?b + rel + 1) = unat ?b + Suc (unat rel)"
    "unat (rel + 1) = Suc (unat rel)"
    using assms(4) small by (simp_all add: unat_word_ariths)
  have le: "?b \<le> ?b + rel" "?b \<le> ?b + rel + 1"
    using sums by (simp_all add: word_le_nat_alt)
  let ?a = "entry_to_bytes L \<lparr>en_offset = rel, en_position = p\<rparr>"
  let ?c = "entry_to_bytes L \<lparr>en_offset = rel + 1, en_position = q\<rparr>"
  let ?ix1 = "ix\<lparr>ix_mmap := overwrite (ix_mmap ix) (unat rel) ?a\<rparr>"
  let ?ix2 = "ix\<lparr>ix_mmap := overwrite (overwrite (ix_mmap ix) (unat rel) ?a) (Suc (unat rel)) ?c\<rparr>"
  have w1: "index_write_entry L ix (Entry_new (?b + rel) p) = Inr ?ix1"
    using write_entry_fits [OF assms(1), of ix "Entry_new (?b + rel) p"] le assms(2)
    by (simp add: Entry_new_def)
  have w2: "index_write_entry L ?ix1 (Entry_new (?b + rel + 1) q) = Inr ?ix2"
    using write_entry_fits [OF assms(1), of ?ix1 "Entry_new (?b + rel + 1) q"] le assms(1,2) sums(3)
    by (simp add: Entry_new_def)
  let ?o = "word_of_nat (nxt div 256) :: u64"
  let ?p = "word_of_nat (nxt mod 256 * 2 ^ 56 + unat q div 256) :: u64"
  have "take 16 (drop (unat rel) (ix_mmap ?ix2)) = hd ?a # take 15 ?c"
    using overlap_bytes [of ?a ?c "unat rel" "ix_mmap ix"] assms(1,2) by simp
  then have e: "entry_from_bytes L (take 16 (drop (unat rel) (ix_mmap ?ix2))) =
      Inr \<lparr>en_offset = ?o, en_position = ?p\<rparr>"
    using overlap_entry [OF assms(1) small sums(3), of p q] by (simp add: nxt_def)
  have o: "unat ?o = nxt div 256"
    by (rule unat_word_of_nat) (use small in \<open>simp add: nxt_def\<close>)
  have "nxt mod 256 < 256" and "unat q div 256 < 2 ^ 56"
    using unsigned_less [of q, where 'a = nat] by (simp_all add: less_mult_imp_div_less)
  then have "nxt mod 256 * 2 ^ 56 + unat q div 256 < 2 ^ 64" by simp
  then have p: "unat ?p = nxt mod 256 * 2 ^ 56 + unat q div 256" by (rule unat_word_of_nat)
  have "unat ?o + unat ?b < 2 ^ 64"
    using o assms(4) by (simp add: nxt_def)
  then have "index_read_entry L ?ix2 rel = Inr \<lparr>en_offset = ?o + ?b, en_position = ?p\<rparr>"
    and "unat (?o + ?b) = unat ?b + nxt div 256"
    using assms(1,2) e o by (simp_all add: read_entry_fits add_u64_def unat_word_ariths)
  with w1 w2 p show ?thesis by (intro exI conjI) (assumption | simp)+
qed

section \<open>The log: lemmas\<close>

lemma dec_u64_0 [simp]: "dec_u64 0 = ''0''"
  by code_simp

text \<open>A segment that started at offset 0 over a file with the contents \<open>old\<close> and was given \<open>bufs\<close>.\<close>

definition segment_state :: "bytes \<Rightarrow> bytes list \<Rightarrow> segment \<Rightarrow> bool" where
  "segment_state old bufs s \<longleftrightarrow>
     sg_next_offset s = word_of_nat (length bufs) \<and> sg_bytes s = word_of_nat (length (concat bufs))
   \<and> sg_log s = \<lparr>fi_content = concat bufs @ drop (length (concat bufs)) old, fi_pos = length (concat bufs)\<rparr>
   \<and> ix_base_offset (sg_index s) = 0 \<and> length (ix_mmap (sg_index s)) = MAX_BYTES_INDEX"

definition write_records :: "log_env \<Rightarrow> log \<Rightarrow> bytes list \<Rightarrow> log res" where
  "write_records L lg bufs =
     foldE (\<lambda>buf lg. bindE (log_write L True lg buf) (\<lambda>(lg', _). Inr lg')) bufs lg"

lemma segment_write_length: "segment_write L io s buf = Inr (s', n) \<Longrightarrow> n = length buf"
  by (auto simp: segment_write_def bindE_Inr)

lemma segment_write_all:
  "buf \<noteq> [] \<Longrightarrow> write_all (segment_write L io) s buf = bindE (segment_write L io s buf) (\<lambda>(s', _). Inr s')"
  by (rule write_all_once) (auto dest: segment_write_length)

lemma add_u64_nat:
  "m + n < 2 ^ 64 \<Longrightarrow> add_u64 checks (word_of_nat m) (word_of_nat n) = Inr (word_of_nat (m + n))"
  by (simp add: add_u64_def unat_word_of_nat)

lemma segment_write_state:
  assumes "log_env_ok L" and "segment_state old bufs s" and "length bufs + 16 \<le> MAX_BYTES_INDEX"
    and "length (concat bufs) + length buf < 2 ^ 64"
  obtains s' where "segment_write L True s buf = Inr (s', length buf)" "segment_state old (bufs @ [buf]) s'"
proof -
  let ?n = "length bufs" and ?t = "length (concat bufs)"
  have n: "unat (word_of_nat ?n :: u64) = ?n"
    using assms(3) by (intro unat_word_of_nat) (simp add: MAX_BYTES_INDEX_def)
  obtain ix where ix: "index_write_entry L (sg_index s) (Entry_new (sg_next_offset s) (sg_bytes s)) = Inr ix"
    "ix_base_offset ix = 0" "length (ix_mmap ix) = MAX_BYTES_INDEX"
    using write_entry_fits [OF assms(1), of "sg_index s" "Entry_new (sg_next_offset s) (sg_bytes s)"]
      assms(1,2,3) n by (simp add: segment_state_def Entry_new_def)
  have "?n + 1 < 2 ^ 64" using assms(3) by (simp add: MAX_BYTES_INDEX_def)
  then have "add_u64 (log_checks L) (word_of_nat ?n) 1 = Inr (word_of_nat (Suc ?n))"
    using add_u64_nat [of ?n 1 "log_checks L"] by simp
  then show ?thesis
    using assms(2,4) ix add_u64_nat [OF assms(4), of "log_checks L"]
    by (intro that [of "\<lparr>sg_next_offset = word_of_nat (Suc ?n), sg_bytes = word_of_nat (?t + length buf),
          sg_log = \<lparr>fi_content = concat (bufs @ [buf]) @ drop (length (concat (bufs @ [buf]))) old,
            fi_pos = length (concat (bufs @ [buf]))\<rparr>, sg_index = ix\<rparr>"])
      (simp_all add: segment_write_def segment_state_def file_write_all_def add.commute)
qed

lemma log_write_state:
  assumes "log_env_ok L" and "lg_segments lg = [s]" and "lg_active_segment lg = 0"
    and "segment_state old bufs s" and "length bufs + 16 \<le> MAX_BYTES_INDEX"
    and "length (concat bufs) < 2 ^ 30" and "length (concat bufs) + length buf < 2 ^ 64" and "buf \<noteq> []"
  obtains s' where "log_write L True lg buf = Inr (lg\<lparr>lg_segments := [s']\<rparr>, length buf)"
    "segment_state old (bufs @ [buf]) s'"
proof -
  have "\<not> segment_full s"
  proof -
    have "unat (word_of_nat (length (concat bufs)) :: u64) = length (concat bufs)"
      using assms(6) by (intro unat_word_of_nat) simp
    then show ?thesis
      using assms(4,6) by (simp add: segment_full_def segment_state_def MAX_SEGMENT_BYES_def word_le_nat_alt)
  qed
  moreover obtain s' where "segment_write L True s buf = Inr (s', length buf)"
    "segment_state old (bufs @ [buf]) s'"
    by (rule segment_write_state [OF assms(1,4,5,7)])
  ultimately show ?thesis
    using assms(2,3,8)
    by (intro that [of s']) (simp_all add: log_write_def roll_segment_def active_segment_def segment_write_all)
qed

lemma write_records_state:
  assumes "log_env_ok L" and "lg_segments lg = [s]" and "lg_active_segment lg = 0"
    and "segment_state old done s" and "\<forall>b \<in> set bufs. b \<noteq> []"
    and "length (done @ bufs) + 15 \<le> MAX_BYTES_INDEX" and "length (concat (done @ bufs)) < 2 ^ 30"
  shows "\<exists>s'. write_records L lg bufs = Inr (lg\<lparr>lg_segments := [s']\<rparr>) \<and> segment_state old (done @ bufs) s'"
  using assms(2-7)
proof (induction bufs arbitrary: lg s "done")
  case Nil
  have "lg\<lparr>lg_segments := [s]\<rparr> = lg" using Nil(1) by (cases lg) simp
  with Nil show ?case by (intro exI [of _ s]) (simp add: write_records_def)
next
  case (Cons b bufs)
  have fits: "length done + 16 \<le> MAX_BYTES_INDEX" "length (concat done) < 2 ^ 30"
    "length (concat done) + length b < 2 ^ 64" "b \<noteq> []"
    using Cons.prems by simp_all
  obtain s1 where s1: "log_write L True lg b = Inr (lg\<lparr>lg_segments := [s1]\<rparr>, length b)"
    "segment_state old (done @ [b]) s1"
    by (rule log_write_state [OF assms(1) Cons.prems(1-3) fits])
  have "\<exists>s'. write_records L (lg\<lparr>lg_segments := [s1]\<rparr>) bufs = Inr (lg\<lparr>lg_segments := [s1]\<rparr>\<lparr>lg_segments := [s']\<rparr>)
      \<and> segment_state old ((done @ [b]) @ bufs) s'"
    using Cons.prems s1(2) by (intro Cons.IH) simp_all
  with s1(1) show ?case by (simp add: write_records_def)
qed

section \<open>Properties of the log\<close>

text \<open>
  (C22) Writing.  A log that is opened in a directory and given records writes them one after the
  other into the file of its segment, from the start of the file: the file holds the records and
  then whatever it held beyond them before.  The next offset counts the records.  A read starts
  after the last record, since it shares the cursor with the writes, so in a fresh directory it
  yields nothing.
\<close>

theorem log_writes_records:
  assumes "log_env_ok L" and "dir ''0.log'' = Some old" and "dir ''0.index'' = Some f"
    and "\<forall>buf \<in> set bufs. buf \<noteq> []" and "length bufs + 15 \<le> MAX_BYTES_INDEX"
    and "length (concat bufs) < 2 ^ 30"
  shows "\<exists>lg lg' lg'' s. log_new L (Some dir) = Inr lg \<and> write_records L lg bufs = Inr lg'
    \<and> active_segment lg' = Inr s
    \<and> fi_content (sg_log s) = concat bufs @ drop (length (concat bufs)) old
    \<and> newest_offset lg' = Inr (word_of_nat (length bufs))
    \<and> log_read True lg' n = Inr (lg'', take n (drop (length (concat bufs)) old))"
proof -
  let ?s = "\<lparr>sg_next_offset = 0, sg_bytes = 0, sg_log = \<lparr>fi_content = old, fi_pos = 0\<rparr>,
    sg_index = \<lparr>ix_base_offset = 0, ix_mmap = set_len f MAX_BYTES_INDEX\<rparr>\<rparr>"
  let ?lg = "\<lparr>lg_path = dir, lg_segments = [?s], lg_active_segment = 0\<rparr>"
  have new: "log_new L (Some dir) = Inr ?lg"
    using assms(1-3) by (simp add: log_new_def segment_new_def index_new_def log_name_def)
  have "segment_state old [] ?s" by (simp add: segment_state_def)
  then obtain s' where s': "write_records L ?lg bufs = Inr (?lg\<lparr>lg_segments := [s']\<rparr>)"
    "segment_state old bufs s'"
    using write_records_state [OF assms(1), of ?lg ?s old "[]" bufs] assms(4-6) by auto
  then show ?thesis
    using new by (simp add: active_segment_def newest_offset_def segment_state_def log_read_def
        segment_read_def file_read_def Let_def)
qed

text \<open>
  (C35) Rolling over.  When the active segment is full, the next write opens a segment whose index
  starts at the next offset but whose own offsets start again at 0.  The entry of the first record
  would lie below the start of the index, and the write panics, with and without overflow checks.
\<close>

theorem rollover_write_panics:
  assumes "log_env_ok L" and "active_segment lg = Inr s" and "segment_full s" and "0 < sg_next_offset s"
    and "unat (sg_next_offset s) + MAX_BYTES_INDEX \<le> 2 ^ 64"
    and "lg_path lg (dec_u64 (sg_next_offset s) @ ''.index'') = Some f"
    and "lg_path lg (log_name (sg_next_offset s)) = Some g" and "buf \<noteq> []"
  shows "\<exists>m. log_write L True lg buf = Inl (Panic m)"
proof -
  let ?base = "sg_next_offset s"
  let ?ix = "\<lparr>ix_base_offset = ?base, ix_mmap = set_len f MAX_BYTES_INDEX\<rparr>"
  let ?s = "\<lparr>sg_next_offset = 0, sg_bytes = 0, sg_log = \<lparr>fi_content = g, fi_pos = 0\<rparr>, sg_index = ?ix\<rparr>"
  have "unat (0 - ?base) = 2 ^ 64 - unat ?base"
    using assms(4) by (simp only: unat_sub_if_size) (simp add: word_size word_less_nat_alt)
  then have "length (ix_mmap ?ix) < unat (en_offset (Entry_new 0 0) - ix_base_offset ?ix) + 16"
    using assms(5) by (simp add: Entry_new_def)
  then obtain m where "index_write_entry L ?ix (Entry_new 0 0) = Inl (Panic m)"
    using write_entry_panics [OF assms(1)] by blast
  then have "segment_write L True ?s buf = Inl (Panic m)"
    by (simp add: segment_write_def file_write_all_def)
  moreover have "segment_new L (lg_path lg) ?base = Inr ?s"
    using assms(1,6,7) by (simp add: segment_new_def index_new_def)
  ultimately show ?thesis
    using assms(2,3,8) by (simp add: log_write_def roll_segment_def newest_offset_def segment_write_all)
      (simp add: active_segment_def segment_write_all)
qed

section \<open>Concrete logs\<close>

definition std_log_env :: "bool \<Rightarrow> log_env" where
  "std_log_env checks = \<lparr>bo_write_u64 = to_be_bytes,
     bo_read_u64 = (\<lambda>bs. if length bs < 8 then None else Some (from_be_bytes (take 8 bs))),
     map_mut = Some, log_checks = checks\<rparr>"

lemma index_room: "17 \<le> MAX_BYTES_INDEX" "1 + MAX_BYTES_INDEX \<le> 2 ^ 64"
  by (simp_all add: MAX_BYTES_INDEX_def)

lemma std_log_env_ok: "log_env_ok (std_log_env checks)"
  by (simp add: log_env_ok_def std_log_env_def)

interpretation entry_codec: codec "entry_to_bytes (std_log_env checks)"
  "\<lambda>bs. case entry_from_bytes (std_log_env checks) bs of Inl _ \<Rightarrow> None | Inr e \<Rightarrow> Some e" for checks
  by unfold_locales (simp add: std_log_env_ok)

theorem log_writes_records_witness:
  "\<exists>lg lg' lg'' s. log_new (std_log_env True) (Some (\<lambda>_. Some [9, 9, 9, 9, 9])) = Inr lg
    \<and> write_records (std_log_env True) lg [[1, 2], [3]] = Inr lg' \<and> active_segment lg' = Inr s
    \<and> fi_content (sg_log s) = [1, 2, 3, 9, 9] \<and> log_read True lg' 10 = Inr (lg'', [9, 9])"
  using log_writes_records [OF std_log_env_ok, of "\<lambda>_. Some [9, 9, 9, 9, 9]" "[9, 9, 9, 9, 9]"
      "[9, 9, 9, 9, 9]" "[[1, 2], [3]]" True 10] index_room
  by simp blast

definition full_segment :: segment where
  "full_segment = \<lparr>sg_next_offset = 1, sg_bytes = MAX_SEGMENT_BYES, sg_log = \<lparr>fi_content = [], fi_pos = 0\<rparr>,
     sg_index = \<lparr>ix_base_offset = 0, ix_mmap = []\<rparr>\<rparr>"

theorem rollover_write_panics_witness:
  "\<exists>m. log_write (std_log_env False) True
    \<lparr>lg_path = (\<lambda>_. Some []), lg_segments = [full_segment], lg_active_segment = 0\<rparr> [7] = Inl (Panic m)"
  by (rule rollover_write_panics [OF std_log_env_ok, where s = full_segment])
    (use index_room in \<open>simp_all add: active_segment_def segment_full_def full_segment_def\<close>)

end
