(* ===== verification/Broker_Handlers.thy ===== *)
theory Broker_Handlers
  imports Broker_Store Broker_Log "HOL-Library.Multiset"
begin

text \<open>
  \<^verbatim>\<open>broker/mod.rs\<close>, \<^verbatim>\<open>broker/handler/\<close>, \<^verbatim>\<open>broker/replica.rs\<close> and the request loop of
  \<^verbatim>\<open>broker/server.rs\<close>: what a broker does with a request.  The message types are those of the
  kafka-protocol crate; a record below has the fields the handlers read or set, and the values that
  crate provides (default values, key codes, version ranges, error codes) are parameters.
\<close>

section \<open>Messages of the protocol\<close>

datatype api_key =
    ProduceKey | FetchKey | ListOffsetsKey | MetadataKey | LeaderAndIsrKey | StopReplicaKey
  | FindCoordinatorKey | JoinGroupKey | HeartbeatKey | ListGroupsKey | SyncGroupKey
  | CreateTopicsKey | DeleteGroupsKey | ApiVersionsKey | DeleteTopicsKey | OtherKey i16

record creatable_topic =
  ct_num_partitions :: i32
  ct_replication_factor :: i16

record creatable_topic_result =
  cx_topic_id :: uuid
  cx_num_partitions :: i32
  cx_replication_factor :: i16

record isr_partition_state =
  ip_topic_name :: string
  ip_partition_index :: i32
  ip_leader :: broker_id

record leader_and_isr_request =
  li_controller_id :: broker_id
  li_topic_states :: "isr_partition_state list list"

record metadata_broker =
  mb_host :: string
  mb_port :: i32

record metadata_partition =
  mp_error_code :: i16
  mp_leader_id :: broker_id
  mp_partition_index :: i32
  mp_isr_nodes :: "broker_id list"
  mp_replica_nodes :: "broker_id list"
  mp_leader_epoch :: i32

record metadata_topic =
  mt_error_code :: i16
  mt_topic_id :: uuid
  mt_partitions :: "metadata_partition list"

record metadata_response =
  mr_brokers :: "(broker_id \<times> metadata_broker) list"
  mr_controller_id :: broker_id
  mr_cluster_id :: "string option"
  mr_throttle_time_ms :: i32
  mr_topics :: "(string \<times> metadata_topic) list"

record api_version =
  av_max_version :: i16
  av_min_version :: i16

record coordinator =
  co_node_id :: broker_id
  co_host :: string
  co_port :: i32

record partition_data =
  pd_index :: i32
  pd_records :: "bytes option"

datatype request_kind =
    ApiVersionsRequest
  | MetadataRequest "string option list option"
  | CreateTopicsRequest "(string \<times> creatable_topic) list"
  | ListGroupsRequest
  | FindCoordinatorRequest
  | LeaderAndIsrRequest leader_and_isr_request
  | ProduceRequest "(string \<times> partition_data list) list"
  | OtherRequest

datatype response_kind =
    ApiVersionsResponse "(i16 \<times> api_version) list"
  | MetadataResponse metadata_response
  | CreateTopicsResponse "(string \<times> creatable_topic_result) list"
  | ListGroupsResponse
  | FindCoordinatorResponse "coordinator list"
  | LeaderAndIsrResponse
  | OtherResponse

record kafka_env =
  kp_key_code :: "api_key \<Rightarrow> i16"
  kp_versions :: "api_key \<Rightarrow> i16 \<times> i16"
  kp_unknown_topic :: i16
  kp_topic_result :: creatable_topic_result
  kp_isr_request :: leader_and_isr_request
  kp_partition :: metadata_partition
  kp_topic :: metadata_topic
  kp_metadata :: metadata_response
  kp_api_version :: api_version
  kp_coordinator :: coordinator
  kp_ip_string :: "ip_addr \<Rightarrow> string"

section \<open>The broker\<close>

text \<open>
  The world of a broker holds the tree of its store, which the state machine of the node shares; a
  proposal is sent through \<^verbatim>\<open>RaftClient::propose\<close>, and \<open>br_send\<close> is a request to another broker,
  which says whether the answer is of the expected kind.
\<close>

record ('w, 'db) broker_env =
  br_store :: "'db store_env"
  br_db :: "'w \<Rightarrow> 'db"
  br_propose :: "'w \<Rightarrow> bytes \<Rightarrow> ('w \<times> bytes) res"
  br_send :: "'w \<Rightarrow> peer \<Rightarrow> leader_and_isr_request \<Rightarrow> ('w \<times> bool) res"
  br_kafka :: kafka_env
  br_log :: log_env
  br_dir :: "uuid \<Rightarrow> directory option"
  br_config :: broker_config

type_synonym replicas = "(uuid \<times> log) list"

definition replica_new :: "('w, 'db) broker_env \<Rightarrow> partition \<Rightarrow> log res" where
  "replica_new B p = log_new (br_log B) (br_dir B (pa_id p))"

definition replicas_add :: "uuid \<Rightarrow> log \<Rightarrow> replicas \<Rightarrow> replicas" where
  "replicas_add i r rs = AList.update i r rs"

definition replicas_get :: "uuid \<Rightarrow> replicas \<Rightarrow> log option" where
  "replicas_get i rs = map_of rs i"

definition get_broker_ids :: "broker_config \<Rightarrow> broker_id list" where
  "get_broker_ids c = map pe_id (bc_peers c) @ [bc_id c]"

definition get_brokers :: "broker_config \<Rightarrow> peer list" where
  "get_brokers c = bc_peers c @ [\<lparr>pe_id = bc_id c, pe_ip = bc_ip c, pe_port = bc_port c\<rparr>]"

section \<open>Creating topics\<close>

text \<open>The random choices of one topic: the shuffles and the fresh identifiers.\<close>

record create_input =
  ci_shuffle :: "nat \<Rightarrow> broker_id list \<Rightarrow> broker_id list"
  ci_partition_id :: "nat \<Rightarrow> uuid"
  ci_topic_id :: uuid

text \<open>\<^verbatim>\<open>as usize\<close> extends the sign.\<close>

definition as_usize :: "i16 \<Rightarrow> nat" where
  "as_usize w = unat (scast w :: u64)"

fun partition_loop ::
  "create_input \<Rightarrow> string \<Rightarrow> i16 \<Rightarrow> nat list \<Rightarrow> broker_id list \<Rightarrow> partition list res" where
  "partition_loop C name rf [] brokers = Inr []"
| "partition_loop C name rf (i # is) brokers =
     (let bs = ci_shuffle C i brokers
      in bindE (expectE (case bs of [] \<Rightarrow> None | b # _ \<Rightarrow> Some b) ''no brokers provided in configuration'') (\<lambda>leader.
         let replicas = take (as_usize rf) bs;
             p = \<lparr>pa_id = ci_partition_id C i, pa_idx = word_of_nat i, pa_topic = name, pa_isr = replicas,
                  pa_assigned_replicas = replicas, pa_leader = leader\<rparr>
         in bindE (partition_loop C name rf is bs) (\<lambda>ps. Inr (p # ps))))"

definition make_partitions ::
  "broker_config \<Rightarrow> create_input \<Rightarrow> string \<Rightarrow> creatable_topic \<Rightarrow> partition list res" where
  "make_partitions c C name t =
     (let brokers = get_broker_ids c
      in if sint (ct_replication_factor t) > sint (word_of_nat (length brokers) :: i16)
         then Inl (Panic ''not yet implemented: figure out protocol level errors'')
         else partition_loop C name (ct_replication_factor t) [0..<nat (sint (ct_num_partitions t))] brokers)"

definition topic_of :: "create_input \<Rightarrow> string \<Rightarrow> partition list \<Rightarrow> topic" where
  "topic_of C name ps =
     \<lparr>tp_id = ci_topic_id C, tp_name = name,
      tp_partitions = fold (\<lambda>p. fmupd (pa_idx p) (pa_assigned_replicas p)) ps fmempty, tp_internal = False\<rparr>"

definition propose_transition :: "('w, 'db) broker_env \<Rightarrow> transition \<Rightarrow> 'w \<Rightarrow> 'w res" where
  "propose_transition B tr w =
     (case ser_transition (br_store B) tr of
        None \<Rightarrow> Inl (Error ''could not serialize'')
      | Some v \<Rightarrow> bindE (br_propose B w v) (\<lambda>(w', _). Inr w'))"

section \<open>Starting and feeding replicas\<close>

definition isr_partition ::
  "('w, 'db) broker_env \<Rightarrow> 'w \<Rightarrow> isr_partition_state \<Rightarrow> replicas \<Rightarrow> replicas res" where
  "isr_partition B w s rs =
     bindE (get_partition (br_store B) (br_db B w) (ip_topic_name s) (ip_partition_index s)) (\<lambda>found.
     case found of
       None \<Rightarrow> Inl (Error ''could not find partition'')
     | Some p \<Rightarrow> bindE (replica_new B p) (\<lambda>replica. Inr (replicas_add (pa_id p) replica rs)))"

definition handle_leader_and_isr ::
  "('w, 'db) broker_env \<Rightarrow> 'w \<Rightarrow> leader_and_isr_request \<Rightarrow> replicas \<Rightarrow> replicas res" where
  "handle_leader_and_isr B w req rs = foldE (isr_partition B w) (concat (li_topic_states req)) rs"

definition start_isr ::
  "('w, 'db) broker_env \<Rightarrow> peer \<Rightarrow> 'w \<times> replicas \<Rightarrow> ('w \<times> replicas) res" where
  "start_isr B b = (\<lambda>(w, rs).
     let req = (kp_isr_request (br_kafka B))\<lparr>li_controller_id := pe_id b\<rparr>
     in if pe_id b = bc_id (br_config B) then
          bindE (handle_leader_and_isr B w req rs) (\<lambda>rs'. Inr (w, rs'))
        else
          bindE (br_send B w b req) (\<lambda>(w', expected).
          if expected then Inr (w', rs) else Inl (Panic ''explicit panic'')))"

definition broker_create_topic ::
  "('w, 'db) broker_env \<Rightarrow> create_input \<Rightarrow> string \<Rightarrow> creatable_topic \<Rightarrow> 'w \<times> replicas \<Rightarrow>
   (('w \<times> replicas) \<times> creatable_topic_result) res" where
  "broker_create_topic B C name t = (\<lambda>(w, rs).
     bindE (make_partitions (br_config B) C name t) (\<lambda>ps.
     let topic = topic_of C name ps;
         res = (kp_topic_result (br_kafka B))\<lparr>cx_topic_id := tp_id topic,
           cx_num_partitions := ct_num_partitions t, cx_replication_factor := ct_replication_factor t\<rparr>
     in bindE (propose_transition B (EnsureTopic topic) w) (\<lambda>w1.
        bindE (foldE (\<lambda>p. propose_transition B (EnsurePartition p)) ps w1) (\<lambda>w2.
        bindE (foldE (start_isr B) (get_brokers (br_config B)) (w2, rs)) (\<lambda>st.
        Inr (st, res))))))"

definition handle_create_topics ::
  "('w, 'db) broker_env \<Rightarrow> (string \<Rightarrow> create_input) \<Rightarrow> (string \<times> creatable_topic) list \<Rightarrow>
   'w \<times> replicas \<Rightarrow> (('w \<times> replicas) \<times> (string \<times> creatable_topic_result) list) res" where
  "handle_create_topics B inp topics st =
     foldE (\<lambda>(name, t) (st, res).
       bindE (topic_exists (br_store B) (br_db B (fst st)) name) (\<lambda>_.
       bindE (broker_create_topic B (inp name) name t st) (\<lambda>(st', x).
       Inr (st', AList.update name x res)))) topics (st, [])"

definition produce_partition ::
  "('w, 'db) broker_env \<Rightarrow> bool \<Rightarrow> 'w \<Rightarrow> string \<Rightarrow> partition_data \<Rightarrow> replicas \<Rightarrow> replicas res" where
  "produce_partition B io w topic pd rs =
     (case pd_records pd of
        None \<Rightarrow> Inr rs
      | Some buf \<Rightarrow>
          bindE (get_partition (br_store B) (br_db B w) topic (pd_index pd)) (\<lambda>found.
          bindE (expectE found ''partition does not exist'') (\<lambda>p.
          bindE (expectE (replicas_get (pa_id p) rs) ''replica does not exist'') (\<lambda>replica.
          bindE (write_all (log_write (br_log B) io) replica buf) (\<lambda>replica'.
          Inr (AList.update (pa_id p) replica' rs))))))"

definition handle_produce ::
  "('w, 'db) broker_env \<Rightarrow> bool \<Rightarrow> 'w \<Rightarrow> (string \<times> partition_data list) list \<Rightarrow> replicas \<Rightarrow> replicas res" where
  "handle_produce B io w topic_data rs =
     foldE (\<lambda>(t, pds) rs.
       bindE (get_topic (br_store B) (br_db B w) t) (\<lambda>found.
       bindE (expectE found ''topic does not exist'') (\<lambda>_.
       foldE (produce_partition B io w t) pds rs))) topic_data rs"

section \<open>Metadata\<close>

definition partition_metadata ::
  "('w, 'db) broker_env \<Rightarrow> 'db \<Rightarrow> topic \<Rightarrow> partition_idx \<times> broker_id list \<Rightarrow> metadata_partition res" where
  "partition_metadata B db topic = (\<lambda>(k, _).
     let mp = kp_partition (br_kafka B)
     in bindE (get_partition (br_store B) db (tp_name topic) k) (\<lambda>found.
        case found of
          Some p \<Rightarrow> Inr (mp\<lparr>mp_leader_id := pa_leader p, mp_partition_index := pa_idx p,
            mp_isr_nodes := pa_isr p, mp_replica_nodes := pa_assigned_replicas p, mp_leader_epoch := 3\<rparr>)
        | None \<Rightarrow> Inr (mp\<lparr>mp_error_code := 0\<rparr>)))"

definition build_topic_metadata ::
  "('w, 'db) broker_env \<Rightarrow> 'db \<Rightarrow> topic \<Rightarrow> metadata_topic res" where
  "build_topic_metadata B db topic =
     bindE (forceE (map (partition_metadata B db topic)
       (iter_partitions (br_store B) (tp_partitions topic)))) (\<lambda>ps.
     Inr ((kp_topic (br_kafka B))\<lparr>mt_topic_id := tp_id topic, mt_partitions := ps\<rparr>))"

definition topic_metadata ::
  "('w, 'db) broker_env \<Rightarrow> 'db \<Rightarrow> string option \<Rightarrow> (string \<times> metadata_topic) list \<Rightarrow>
   (string \<times> metadata_topic) list res" where
  "topic_metadata B db name' topics =
     bindE (expectE name' ''unwrap'') (\<lambda>name.
     bindE (get_topic (br_store B) db name) (\<lambda>found.
     case found of
       Some topic \<Rightarrow> bindE (build_topic_metadata B db topic) (\<lambda>t. Inr (AList.update name t topics))
     | None \<Rightarrow> Inr (AList.update name
         ((kp_topic (br_kafka B))\<lparr>mt_error_code := kp_unknown_topic (br_kafka B)\<rparr>) topics)))"

definition get_topic_metadata ::
  "('w, 'db) broker_env \<Rightarrow> 'db \<Rightarrow> string option list \<Rightarrow> metadata_response \<Rightarrow> metadata_response res" where
  "get_topic_metadata B db names res =
     bindE (foldE (topic_metadata B db) names (mr_topics res)) (\<lambda>ts. Inr (res\<lparr>mr_topics := ts\<rparr>))"

definition get_all_topic_metadata ::
  "('w, 'db) broker_env \<Rightarrow> 'db \<Rightarrow> metadata_response \<Rightarrow> metadata_response res" where
  "get_all_topic_metadata B db res =
     bindE (get_topics (br_store B) db) (\<lambda>topics.
     bindE (foldE (\<lambda>(name, topic) ts.
         bindE (build_topic_metadata B db topic) (\<lambda>t. Inr (AList.update (tp_name topic) t ts)))
       (iter_topics (br_store B) topics) (mr_topics res)) (\<lambda>ts.
     Inr (res\<lparr>mr_topics := ts\<rparr>)))"

definition handle_metadata ::
  "('w, 'db) broker_env \<Rightarrow> 'db \<Rightarrow> string option list option \<Rightarrow> metadata_response \<Rightarrow> metadata_response res" where
  "handle_metadata B db names res =
     (let K = br_kafka B;
          brokers = fold (\<lambda>b bs. AList.update (pe_id b)
            \<lparr>mb_host = kp_ip_string K (pe_ip b), mb_port = ucast (pe_port b)\<rparr> bs)
            (get_brokers (br_config B)) (mr_brokers res);
          res' = res\<lparr>mr_brokers := brokers, mr_controller_id := 1, mr_cluster_id := Some ''josefine'',
                     mr_throttle_time_ms := 1000\<rparr>
      in case names of
           Some topics \<Rightarrow> get_topic_metadata B db topics res'
         | None \<Rightarrow> get_all_topic_metadata B db res')"

section \<open>Other requests\<close>

definition api_version :: "kafka_env \<Rightarrow> api_key \<Rightarrow> api_version" where
  "api_version K k = (kp_api_version K)\<lparr>av_max_version := snd (kp_versions K k), av_min_version := fst (kp_versions K k)\<rparr>"

definition advertised_keys :: "api_key list" where
  "advertised_keys = [ProduceKey, FetchKey, ListOffsetsKey, MetadataKey, LeaderAndIsrKey, StopReplicaKey,
     FindCoordinatorKey, JoinGroupKey, HeartbeatKey, ListGroupsKey, SyncGroupKey, CreateTopicsKey,
     DeleteGroupsKey, ListGroupsKey, ApiVersionsKey, DeleteTopicsKey]"

definition handle_api_versions ::
  "('w, 'db) broker_env \<Rightarrow> (i16 \<times> api_version) list \<Rightarrow> (i16 \<times> api_version) list" where
  "handle_api_versions B res =
     fold (\<lambda>k vs. AList.update (kp_key_code (br_kafka B) k) (api_version (br_kafka B) k) vs) advertised_keys res"

definition handle_find_coordinator :: "('w, 'db) broker_env \<Rightarrow> coordinator list \<Rightarrow> coordinator list" where
  "handle_find_coordinator B res =
     res @ [(kp_coordinator (br_kafka B))\<lparr>co_node_id := bc_id (br_config B),
       co_host := kp_ip_string (br_kafka B) (bc_ip (br_config B)), co_port := ucast (bc_port (br_config B))\<rparr>]"

text \<open>The groups are not listed: the answer is the default value, which carries nothing here.\<close>

definition handle_list_groups :: "unit \<Rightarrow> unit" where
  "handle_list_groups res = res"

text \<open>\<^verbatim>\<open>Handler::do_handle\<close>: the handler gets the default value of its response.\<close>

definition do_handle :: "'res \<Rightarrow> ('res \<Rightarrow> 'out) \<Rightarrow> 'out" where
  [simp]: "do_handle default_response handle = handle default_response"

text \<open>
  \<^verbatim>\<open>Broker::handle_request\<close>: a response starts from the default value of its type, whose collections
  are empty.
\<close>

fun handle_request ::
  "('w, 'db) broker_env \<Rightarrow> (string \<Rightarrow> create_input) \<Rightarrow> 'w \<times> replicas \<Rightarrow> request_kind \<Rightarrow>
   (('w \<times> replicas) \<times> response_kind) res" where
  "handle_request B inp st ApiVersionsRequest = Inr (st, ApiVersionsResponse (do_handle [] (handle_api_versions B)))"
| "handle_request B inp st (MetadataRequest names) =
     bindE (do_handle (kp_metadata (br_kafka B)) (handle_metadata B (br_db B (fst st)) names)) (\<lambda>res.
     Inr (st, MetadataResponse res))"
| "handle_request B inp st (CreateTopicsRequest topics) =
     bindE (handle_create_topics B inp topics st) (\<lambda>(st', res). Inr (st', CreateTopicsResponse res))"
| "handle_request B inp st ListGroupsRequest =
     Inr (st, (case do_handle () handle_list_groups of () \<Rightarrow> ListGroupsResponse))"
| "handle_request B inp st FindCoordinatorRequest =
     Inr (st, FindCoordinatorResponse (do_handle [] (handle_find_coordinator B)))"
| "handle_request B inp st req = Inl (Panic ''explicit panic'')"

text \<open>
  The loop of \<^verbatim>\<open>handle_messages\<close>: requests are handled one after the other, an error ends the loop, and
  answering a connection that has gone away panics.
\<close>

fun handle_messages ::
  "('w, 'db) broker_env \<Rightarrow> (request_kind \<times> (string \<Rightarrow> create_input) \<times> bool) list \<Rightarrow> 'w \<times> replicas \<Rightarrow>
   (('w \<times> replicas) \<times> response_kind list) res" where
  "handle_messages B [] st = Inr (st, [])"
| "handle_messages B ((req, inp, listening) # reqs) st =
     bindE (handle_request B inp st req) (\<lambda>(st', res).
     if listening then bindE (handle_messages B reqs st') (\<lambda>(st'', rs). Inr (st'', res # rs))
     else Inl (Panic ''unwrap''))"

section \<open>Assigning replicas\<close>

lemma partition_loop_assigns:
  assumes "\<And>i bs. mset (ci_shuffle C i bs) = mset bs" and "mset brokers = mset ids" and "ids \<noteq> []"
  shows "\<exists>ps. partition_loop C name rf is brokers = Inr ps \<and> length ps = length is
    \<and> (\<forall>k < length is. \<exists>bs. mset bs = mset ids \<and> ps ! k = \<lparr>pa_id = ci_partition_id C (is ! k),
         pa_idx = word_of_nat (is ! k), pa_topic = name, pa_isr = take (as_usize rf) bs,
         pa_assigned_replicas = take (as_usize rf) bs, pa_leader = hd bs\<rparr>)"
  using assms(2)
proof (induction "is" arbitrary: brokers)
  case (Cons i "is")
  let ?bs = "ci_shuffle C i brokers"
  have bs: "mset ?bs = mset ids" using assms(1) Cons.prems by simp
  then obtain b bs' where b: "?bs = b # bs'" using assms(3) by (cases ?bs) auto
  obtain ps where ps: "partition_loop C name rf is ?bs = Inr ps" "length ps = length is"
    "\<forall>k < length is. \<exists>bs. mset bs = mset ids \<and> ps ! k = \<lparr>pa_id = ci_partition_id C (is ! k),
         pa_idx = word_of_nat (is ! k), pa_topic = name, pa_isr = take (as_usize rf) bs,
         pa_assigned_replicas = take (as_usize rf) bs, pa_leader = hd bs\<rparr>"
    using Cons.IH [OF bs] by blast
  let ?p = "\<lparr>pa_id = ci_partition_id C i, pa_idx = word_of_nat i, pa_topic = name,
    pa_isr = take (as_usize rf) ?bs, pa_assigned_replicas = take (as_usize rf) ?bs, pa_leader = hd ?bs\<rparr>"
  have "partition_loop C name rf (i # is) brokers = Inr (?p # ps)"
    using ps(1) b by (simp add: Let_def)
  moreover have "\<forall>k < length (i # is). \<exists>bs. mset bs = mset ids \<and> (?p # ps) ! k =
      \<lparr>pa_id = ci_partition_id C ((i # is) ! k), pa_idx = word_of_nat ((i # is) ! k), pa_topic = name,
       pa_isr = take (as_usize rf) bs, pa_assigned_replicas = take (as_usize rf) bs, pa_leader = hd bs\<rparr>"
  proof (intro allI impI)
    fix k assume "k < length (i # is)"
    then show "\<exists>bs. mset bs = mset ids \<and> (?p # ps) ! k =
      \<lparr>pa_id = ci_partition_id C ((i # is) ! k), pa_idx = word_of_nat ((i # is) ! k), pa_topic = name,
       pa_isr = take (as_usize rf) bs, pa_assigned_replicas = take (as_usize rf) bs, pa_leader = hd bs\<rparr>"
      using ps(3) by (cases k) (simp_all add: exI [of _ ?bs] bs)
  qed
  ultimately show ?case using ps(2) by (intro exI [of _ "?p # ps"]) simp
qed simp

text \<open>A replication factor within the number of brokers is that number of replicas.\<close>

lemma as_usize_nonneg:
  assumes "0 \<le> sint w"
  shows "as_usize w = nat (sint w)"
proof -
  have nat: "unat (word_of_int k :: u64) = nat k" if "0 \<le> k" "k < 2 ^ 15" for k :: int
    using that by (simp add: unsigned_of_int nat_take_bit_eq take_bit_nat_eq_self)
  have "(scast w :: u64) = word_of_int (sint w)" by simp
  moreover have "sint w < 2 ^ 15" using sint_less [of w] by simp
  ultimately show ?thesis using nat [OF assms] by (simp add: as_usize_def)
qed

definition well_assigned :: "broker_id list \<Rightarrow> int \<Rightarrow> string \<Rightarrow> nat \<Rightarrow> partition \<Rightarrow> bool" where
  "well_assigned ids rf name i p \<longleftrightarrow>
     pa_idx p = word_of_nat i \<and> pa_topic p = name \<and> pa_isr p = pa_assigned_replicas p
   \<and> pa_leader p \<in> set ids \<and> set (pa_assigned_replicas p) \<subseteq> set ids
   \<and> (0 < rf \<longrightarrow> hd (pa_assigned_replicas p) = pa_leader p)
   \<and> (0 \<le> rf \<longrightarrow> length (pa_assigned_replicas p) = min (nat rf) (length ids))
   \<and> (distinct ids \<longrightarrow> distinct (pa_assigned_replicas p))"

lemma well_assignedI:
  assumes "mset bs = mset ids" and "ids \<noteq> []"
  shows "well_assigned ids (sint rf) name i \<lparr>pa_id = u, pa_idx = word_of_nat i, pa_topic = name,
    pa_isr = take (as_usize rf) bs, pa_assigned_replicas = take (as_usize rf) bs, pa_leader = hd bs\<rparr>"
proof -
  have eq: "set bs = set ids" "length bs = length ids" "distinct bs = distinct ids"
    using mset_eq_setD [OF assms(1)] mset_eq_length [OF assms(1)] mset_eq_imp_distinct_iff [OF assms(1)]
    by simp_all
  have ne: "bs \<noteq> []" using eq(2) assms(2) by auto
  have "hd bs \<in> set ids" using ne eq(1) hd_in_set [of bs] by simp
  moreover have "set (take (as_usize rf) bs) \<subseteq> set ids" using eq(1) set_take_subset [of _ bs] by simp
  moreover have "hd (take (as_usize rf) bs) = hd bs" if "0 < sint rf"
    using that ne by (simp add: as_usize_nonneg)
  ultimately show ?thesis
    using eq by (simp add: well_assigned_def as_usize_nonneg min.commute)
qed

section \<open>Interface: the replicated state machine\<close>

text \<open>
  What a broker relies on when it proposes a transition: the state machine behind the proposals is
  the one of the store, the transition is applied once, and its answer comes back.  \<open>inv k w\<close> says that
  in \<open>w\<close> at least \<open>k\<close> more proposals can be made.
\<close>

locale replicated_store =
  fixes inv :: "nat \<Rightarrow> 'w \<Rightarrow> bool"
    and S :: "'db store_env"
    and db :: "'w \<Rightarrow> 'db"
    and propose :: "'w \<Rightarrow> bytes \<Rightarrow> ('w \<times> bytes) res"
  assumes propose_law: "inv (Suc k) w \<Longrightarrow> josefine_transition S (db w) v = Inr (d, Inr out) \<Longrightarrow>
      \<exists>w'. propose w v = Inr (w', out) \<and> inv k w' \<and> db w' = d"
begin

lemma proposed:
  assumes "br_store B = S" and "br_propose B = propose" and "inv (Suc k) w" and "store_ok S (db w)"
  shows "\<exists>w'. propose_transition B tr w = Inr w' \<and> inv k w' \<and> store_ok S (db w')
    \<and> metadata S (db w') = metadata_step tr (metadata S (db w))"
proof -
  have env: "store_env_ok S" using assms(4) by (simp add: store_ok_def)
  obtain v where v: "ser_transition S tr = Some v" "de_transition S v = Some tr"
    by (rule round_tripsE [OF store_env_okD(4) [OF env]])
  obtain d out where d: "josefine_transition S (db w) v = Inr (d, Inr out)" "store_ok S d"
    "metadata S d = metadata_step tr (metadata S (db w))"
    using josefine_decodes [OF assms(4) v(2)] by blast
  from propose_law [OF assms(3) d(1)] d(2,3) v(1) assms(1,2) show ?thesis
    by (auto simp: propose_transition_def)
qed

lemma proposed_all:
  assumes "br_store B = S" and "br_propose B = propose" and "inv (length trs + k) w" and "store_ok S (db w)"
  shows "\<exists>w'. foldE (propose_transition B) trs w = Inr w' \<and> inv k w' \<and> store_ok S (db w')
    \<and> metadata S (db w') = fold metadata_step trs (metadata S (db w))"
  using assms(3,4)
proof (induction trs arbitrary: w)
  case (Cons tr trs)
  obtain w1 where w1: "propose_transition B tr w = Inr w1" "inv (length trs + k) w1" "store_ok S (db w1)"
    "metadata S (db w1) = metadata_step tr (metadata S (db w))"
    using proposed [OF assms(1,2), of "length trs + k" w] Cons.prems by auto
  with Cons.IH [OF w1(2,3)] show ?case by simp
qed simp

end

lemma foldE_map: "foldE f (map g xs) s = foldE (\<lambda>x. f (g x)) xs s"
  by (induction xs arbitrary: s) (auto simp: fun_eq_iff intro!: arg_cong [where f = "bindE _"])

text \<open>Without a topic in the request, starting the replicas of a broker does nothing.\<close>

lemma start_isr_own:
  assumes "li_topic_states (kp_isr_request (br_kafka B)) = []" and "bc_peers (br_config B) = []"
  shows "foldE (start_isr B) (get_brokers (br_config B)) (w, rs) = Inr (w, rs)"
  using assms by (simp add: get_brokers_def start_isr_def handle_leader_and_isr_def Let_def)

context replicated_store
begin

lemma created:
  assumes "br_store B = S" and "br_propose B = propose" and "inv (Suc (length ps) + k) w" and "store_ok S (db w)"
    and "li_topic_states (kp_isr_request (br_kafka B)) = []" and "bc_peers (br_config B) = []"
    and "make_partitions (br_config B) C name t = Inr ps"
  shows "\<exists>w' res. broker_create_topic B C name t (w, rs) = Inr ((w', rs), res) \<and> inv k w' \<and> store_ok S (db w')
    \<and> metadata S (db w') =
        fold metadata_step (EnsureTopic (topic_of C name ps) # map EnsurePartition ps) (metadata S (db w))
    \<and> cx_topic_id res = ci_topic_id C"
proof -
  let ?trs = "EnsureTopic (topic_of C name ps) # map EnsurePartition ps"
  obtain w' where w': "foldE (propose_transition B) ?trs w = Inr w'" "inv k w'" "store_ok S (db w')"
    "metadata S (db w') = fold metadata_step ?trs (metadata S (db w))"
    using proposed_all [OF assms(1,2), of ?trs k w] assms(3,4) by auto
  then obtain w1 where "propose_transition B (EnsureTopic (topic_of C name ps)) w = Inr w1"
    "foldE (\<lambda>p. propose_transition B (EnsurePartition p)) ps w1 = Inr w'"
    by (auto simp: bindE_Inr foldE_map)
  with w' show ?thesis
    using assms(7) start_isr_own [OF assms(5,6)]
    by (simp add: broker_create_topic_def topic_of_def Let_def)
qed

end

text \<open>The partitions of a topic after they have all been proposed.\<close>

lemma fold_ensure_partitions:
  "fold metadata_step (map EnsurePartition ps) (ts, q) = (ts, fold with_partition ps q)"
  by (induction ps arbitrary: q) simp_all

lemma fold_with_partition_other:
  "\<forall>p \<in> set ps. \<not> (pa_topic p = n \<and> pa_idx p = i) \<Longrightarrow> fold with_partition ps q n i = q n i"
  by (induction ps arbitrary: q) (auto simp: with_partition_def)

lemma fold_with_partition:
  assumes "distinct (map pa_idx ps)" and "\<forall>p \<in> set ps. pa_topic p = n" and "p \<in> set ps"
  shows "fold with_partition ps q n (pa_idx p) = Some p"
  using assms
proof (induction ps arbitrary: q)
  case (Cons a ps)
  show ?case
  proof (cases "p = a")
    case True
    then have "fold with_partition ps (with_partition a q) n (pa_idx p) = with_partition a q n (pa_idx p)"
      using Cons.prems(1) by (intro fold_with_partition_other) (force simp: image_iff)
    moreover have "with_partition a q n (pa_idx a) = Some a"
      using Cons.prems(2) by (simp add: with_partition_def)
    ultimately show ?thesis using True by simp
  qed (use Cons in auto)
qed simp

section \<open>Properties of the handlers\<close>

text \<open>
  (C20) Partitions of a new topic.  With a replication factor up to the number of brokers, and however
  the brokers are shuffled, there is one partition for every index, its replicas are as many brokers
  as the factor says and all in sync, the first of them is the leader, and no broker is chosen twice
  when the configured identifiers differ; a larger factor panics.
\<close>

theorem make_partitions_assigns:
  fixes c :: broker_config and t :: creatable_topic
  assumes "\<forall>i bs. mset (ci_shuffle C i bs) = mset bs"
  defines "ids \<equiv> get_broker_ids c" and "rf \<equiv> ct_replication_factor t"
    and "n \<equiv> nat (sint (ct_num_partitions t))"
  shows "if sint rf > sint (word_of_nat (length ids) :: i16)
    then \<exists>m. make_partitions c C name t = Inl (Panic m)
    else \<exists>ps. make_partitions c C name t = Inr ps \<and> length ps = n
      \<and> (\<forall>i < n. well_assigned ids (sint rf) name i (ps ! i))"
proof (cases "sint rf > sint (word_of_nat (length ids) :: i16)")
  case True
  then show ?thesis by (simp add: make_partitions_def ids_def rf_def)
next
  case False
  have ne: "ids \<noteq> []" by (simp add: ids_def get_broker_ids_def)
  have sh: "\<And>i bs. mset (ci_shuffle C i bs) = mset bs" using assms(1) by blast
  obtain ps where ps: "partition_loop C name rf [0..<n] ids = Inr ps" "length ps = length [0..<n]"
    "\<forall>k < length [0..<n]. \<exists>bs. mset bs = mset ids \<and> ps ! k = \<lparr>pa_id = ci_partition_id C ([0..<n] ! k),
       pa_idx = word_of_nat ([0..<n] ! k), pa_topic = name, pa_isr = take (as_usize rf) bs,
       pa_assigned_replicas = take (as_usize rf) bs, pa_leader = hd bs\<rparr>"
    using partition_loop_assigns [OF sh refl ne] by blast
  have "make_partitions c C name t = Inr ps"
    using False ps(1) by (simp add: make_partitions_def ids_def rf_def n_def)
  moreover have "well_assigned ids (sint rf) name i (ps ! i)" if "i < n" for i
  proof -
    have i: "i < length [0..<n]" "[0..<n] ! i = i" using \<open>i < n\<close> by simp_all
    show ?thesis
      using ps(3) [rule_format, OF i(1), unfolded i(2)] ne by (elim exE conjE) (simp add: well_assignedI)
  qed
  ultimately show ?thesis using False ps(2) by simp
qed

theorem make_partitions_assigns_witness:
  "\<exists>ps. make_partitions \<lparr>bc_id = 1, bc_ip = V4 0, bc_port = 0, bc_data_dir = [], bc_state_file = [],
      bc_peers = [\<lparr>pe_id = 2, pe_ip = V4 0, pe_port = 0\<rparr>]\<rparr>
      \<lparr>ci_shuffle = (\<lambda>i. rev), ci_partition_id = word_of_nat, ci_topic_id = 9\<rparr> ''logs''
      \<lparr>ct_num_partitions = 3, ct_replication_factor = 2\<rparr> = Inr ps
    \<and> length ps = 3 \<and> well_assigned [2, 1] 2 ''logs'' 1 (ps ! 1)"
  using make_partitions_assigns [of "\<lparr>ci_shuffle = (\<lambda>i. rev), ci_partition_id = word_of_nat, ci_topic_id = 9\<rparr>"
      "\<lparr>bc_id = 1, bc_ip = V4 0, bc_port = 0, bc_data_dir = [], bc_state_file = [],
      bc_peers = [\<lparr>pe_id = 2, pe_ip = V4 0, pe_port = 0\<rparr>]\<rparr>"
      "\<lparr>ct_num_partitions = 3, ct_replication_factor = 2\<rparr>" "''logs''"]
  by (simp add: get_broker_ids_def) (elim exE conjE, intro exI conjI, assumption+, simp)

section \<open>Metadata: lemmas\<close>

definition partition_entry :: "kafka_env \<Rightarrow> partition option \<Rightarrow> metadata_partition" where
  "partition_entry K found = (case found of
     Some p \<Rightarrow> (kp_partition K)\<lparr>mp_leader_id := pa_leader p, mp_partition_index := pa_idx p,
       mp_isr_nodes := pa_isr p, mp_replica_nodes := pa_assigned_replicas p, mp_leader_epoch := 3\<rparr>
   | None \<Rightarrow> (kp_partition K)\<lparr>mp_error_code := 0\<rparr>)"

definition topic_entry :: "('w, 'db) broker_env \<Rightarrow> 'db \<Rightarrow> topic option \<Rightarrow> metadata_topic" where
  "topic_entry B db found = (case found of
     Some t \<Rightarrow> (kp_topic (br_kafka B))\<lparr>mt_topic_id := tp_id t, mt_partitions :=
       map (\<lambda>(i, _). partition_entry (br_kafka B) (partition_of (br_store B) db (tp_name t) i))
         (iter_partitions (br_store B) (tp_partitions t))\<rparr>
   | None \<Rightarrow> (kp_topic (br_kafka B))\<lparr>mt_error_code := kp_unknown_topic (br_kafka B)\<rparr>)"

lemma build_topic_metadata_eq:
  assumes "store_ok (br_store B) db"
  shows "build_topic_metadata B db t = Inr (topic_entry B db (Some t))"
proof -
  have "partition_metadata B db t kv =
      Inr ((\<lambda>(i, _). partition_entry (br_kafka B) (partition_of (br_store B) db (tp_name t) i)) kv)" for kv
    using assms by (cases kv) (simp add: partition_metadata_def partition_entry_def Let_def split: option.split)
  then have "map (partition_metadata B db t) kvs = map Inr
      (map (\<lambda>(i, _). partition_entry (br_kafka B) (partition_of (br_store B) db (tp_name t) i)) kvs)" for kvs
    by simp
  then show ?thesis by (simp only: build_topic_metadata_def forceE_map_Inr bindE_simps) (simp add: topic_entry_def)
qed

lemma topic_metadata_eq:
  assumes "store_ok (br_store B) db"
  shows "topic_metadata B db (Some n) ts =
    Inr (AList.update n (topic_entry B db (fmlookup (topics_of (br_store B) db) n)) ts)"
  using assms build_topic_metadata_eq [OF assms]
  by (simp add: topic_metadata_def get_topic_def topic_entry_def split: option.split)

lemma topic_metadata_all:
  assumes "store_ok (br_store B) db"
  shows "\<exists>ts'. foldE (topic_metadata B db) (map Some names) ts = Inr ts'
    \<and> map_of ts' = (\<lambda>n. if n \<in> set names then Some (topic_entry B db (fmlookup (topics_of (br_store B) db) n))
        else map_of ts n)"
proof (induction names arbitrary: ts)
  case (Cons n names)
  obtain ts' where "foldE (topic_metadata B db) (map Some names)
      (AList.update n (topic_entry B db (fmlookup (topics_of (br_store B) db) n)) ts) = Inr ts'"
    "map_of ts' = (\<lambda>m. if m \<in> set names then Some (topic_entry B db (fmlookup (topics_of (br_store B) db) m))
      else map_of (AList.update n (topic_entry B db (fmlookup (topics_of (br_store B) db) n)) ts) m)"
    using Cons.IH by blast
  then show ?case
    by (intro exI [of _ ts']) (simp add: topic_metadata_eq [OF assms] update_conv' fun_eq_iff)
qed simp

text \<open>Creating topics does not start replicas.\<close>

lemma foldE_keeps:
  assumes "foldE f xs s = Inr s'" and "\<And>x s s'. f x s = Inr s' \<Longrightarrow> g s' = g s"
  shows "g s' = g s"
  using assms(1) by (rule foldE_invariant [where P = "\<lambda>t. g t = g s"]) (auto dest: assms(2))

lemma start_isr_replicas:
  assumes "start_isr B b (w, rs) = Inr (w', rs')" and "li_topic_states (kp_isr_request (br_kafka B)) = []"
  shows "rs' = rs"
  using assms by (auto simp: start_isr_def handle_leader_and_isr_def bindE_Inr Let_def split: if_splits)

lemma broker_create_topic_replicas:
  assumes "broker_create_topic B C name t (w, rs) = Inr ((w', rs'), x)"
    and "li_topic_states (kp_isr_request (br_kafka B)) = []"
  shows "rs' = rs"
proof -
  obtain w2 where "foldE (start_isr B) (get_brokers (br_config B)) (w2, rs) = Inr (w', rs')"
    using assms(1) by (auto simp: broker_create_topic_def bindE_Inr Let_def)
  then have "snd (w', rs') = snd (w2, rs)"
    by (rule foldE_keeps) (use assms(2) in \<open>auto dest: start_isr_replicas\<close>)
  then show ?thesis by simp
qed

lemma handle_create_topics_replicas:
  assumes "handle_create_topics B inp topics (w, rs) = Inr ((w', rs'), res)"
    and "li_topic_states (kp_isr_request (br_kafka B)) = []"
  shows "rs' = rs"
proof -
  have "snd (fst ((w', rs'), res)) = snd (fst ((w, rs), [] :: (string \<times> creatable_topic_result) list))"
    using assms(1) unfolding handle_create_topics_def
    by (rule foldE_keeps [where g = "\<lambda>s. snd (fst s)"])
      (use assms(2) in \<open>auto simp: bindE_Inr dest: broker_create_topic_replicas\<close>)
  then show ?thesis by simp
qed

section \<open>Properties of the handlers: metadata and records\<close>

text \<open>
  (C21) Metadata.  A request for named topics is answered for each of them: with the identifier and,
  partition by partition, the leader, the replicas and the replicas in sync the store has, when the
  topic exists, and with the error code for an unknown topic otherwise.  Every configured broker is
  listed with its own address.
\<close>

theorem metadata_answers:
  assumes "store_ok (br_store B) db"
  shows "\<exists>r. handle_metadata B db (Some (map Some names)) res = Inr r
    \<and> (\<forall>n \<in> set names. map_of (mr_topics r) n =
         Some (topic_entry B db (fmlookup (topics_of (br_store B) db) n)))
    \<and> map_of (mr_brokers r) (bc_id (br_config B)) = Some \<lparr>mb_host =
         kp_ip_string (br_kafka B) (bc_ip (br_config B)), mb_port = ucast (bc_port (br_config B))\<rparr>
    \<and> (\<forall>p \<in> set (bc_peers (br_config B)). map_of (mr_brokers r) (pe_id p) \<noteq> None)"
proof -
  have "map_of bs0 k \<noteq> None \<or> k \<in> pe_id ` set ps \<Longrightarrow> map_of (fold (\<lambda>b bs. AList.update (pe_id b) (f b) bs) ps bs0) k \<noteq> None"
    for ps bs0 k and f :: "peer \<Rightarrow> metadata_broker"
    by (induction ps arbitrary: bs0) (auto simp: update_conv')
  then show ?thesis
    using topic_metadata_all [OF assms, of names "mr_topics res"]
    by (auto simp: handle_metadata_def get_topic_metadata_def get_brokers_def update_conv' Let_def)
qed

text \<open>
  (C34) A topic that has been created cannot be written to.  The request that is to start the replicas
  names no partition, so creating topics leaves the replicas as they were; a record for a partition
  whose replica was not started before panics.
\<close>

theorem created_topic_has_no_replica:
  assumes "handle_create_topics B inp topics (w, rs) = Inr ((w', rs'), res)"
    and "li_topic_states (kp_isr_request (br_kafka B)) = []"
    and "get_topic (br_store B) (br_db B w') name = Inr (Some t)"
    and "get_partition (br_store B) (br_db B w') name i = Inr (Some p)" and "replicas_get (pa_id p) rs = None"
  shows "rs' = rs
    \<and> handle_produce B io w' [(name, [\<lparr>pd_index = i, pd_records = Some buf\<rparr>])] rs'
      = Inl (Panic ''replica does not exist'')"
  using handle_create_topics_replicas [OF assms(1,2)] assms(3-5)
  by (simp add: handle_produce_def produce_partition_def)

section \<open>A broker on its own\<close>

text \<open>A broker without peers whose proposals are applied to its store at once.\<close>

definition direct_propose :: "'db store_env \<Rightarrow> 'db \<Rightarrow> bytes \<Rightarrow> ('db \<times> bytes) res" where
  "direct_propose S d v =
     (case josefine_transition S d v of
        Inl f \<Rightarrow> Inl f
      | Inr (d', Inl e) \<Rightarrow> Inl (Error e)
      | Inr (d', Inr out) \<Rightarrow> Inr (d', out))"

interpretation direct: replicated_store "\<lambda>k d. True" S "\<lambda>d. d" "direct_propose S" for S :: "'db store_env"
  by unfold_locales (simp add: direct_propose_def)

definition demo_kafka :: kafka_env where
  "demo_kafka = \<lparr>kp_key_code = (\<lambda>k. 0), kp_versions = (\<lambda>k. (0, 0)), kp_unknown_topic = 3,
     kp_topic_result = \<lparr>cx_topic_id = 0, cx_num_partitions = - 1, cx_replication_factor = - 1\<rparr>,
     kp_isr_request = \<lparr>li_controller_id = 0, li_topic_states = []\<rparr>,
     kp_partition = \<lparr>mp_error_code = 0, mp_leader_id = 0, mp_partition_index = 0, mp_isr_nodes = [],
       mp_replica_nodes = [], mp_leader_epoch = - 1\<rparr>,
     kp_topic = \<lparr>mt_error_code = 0, mt_topic_id = 0, mt_partitions = []\<rparr>,
     kp_metadata = \<lparr>mr_brokers = [], mr_controller_id = - 1, mr_cluster_id = None, mr_throttle_time_ms = 0,
       mr_topics = []\<rparr>,
     kp_api_version = \<lparr>av_max_version = 0, av_min_version = 0\<rparr>,
     kp_coordinator = \<lparr>co_node_id = 0, co_host = [], co_port = 0\<rparr>, kp_ip_string = (\<lambda>a. ''127.0.0.1'')\<rparr>"

definition demo_broker :: "(tree, tree) broker_env" where
  "demo_broker = \<lparr>br_store = tree_store, br_db = (\<lambda>d. d), br_propose = direct_propose tree_store,
     br_send = (\<lambda>w b r. Inl (Error ''no connection'')), br_kafka = demo_kafka, br_log = std_log_env True,
     br_dir = (\<lambda>u. Some (\<lambda>_. Some [])), br_config = \<lparr>bc_id = 1, bc_ip = V4 0, bc_port = 8844, bc_data_dir = [],
       bc_state_file = [], bc_peers = []\<rparr>\<rparr>"

definition demo_create :: create_input where
  "demo_create = \<lparr>ci_shuffle = (\<lambda>i bs. bs), ci_partition_id = (\<lambda>i. 6), ci_topic_id = 5\<rparr>"

lemma demo_partitions:
  "make_partitions (br_config demo_broker) demo_create ''logs'' \<lparr>ct_num_partitions = 1, ct_replication_factor = 1\<rparr>
     = Inr [demo_partition]"
  by (simp add: make_partitions_def demo_broker_def demo_create_def get_broker_ids_def demo_partition_def
      as_usize_nonneg Let_def)

lemma demo_created:
  "\<exists>w' res. handle_create_topics demo_broker (\<lambda>_. demo_create)
      [(''logs'', \<lparr>ct_num_partitions = 1, ct_replication_factor = 1\<rparr>)] (RBT.empty, []) = Inr ((w', []), res)
    \<and> store_ok tree_store w' \<and> fmlookup (topics_of tree_store w') ''logs'' = Some demo_topic
    \<and> partition_of tree_store w' ''logs'' 0 = Some demo_partition"
proof -
  have "topic_of demo_create ''logs'' [demo_partition] = demo_topic"
    by (simp add: topic_of_def demo_create_def demo_partition_def demo_topic_def)
  then obtain w' x where "broker_create_topic demo_broker demo_create ''logs''
      \<lparr>ct_num_partitions = 1, ct_replication_factor = 1\<rparr> (RBT.empty, []) = Inr ((w', []), x)"
    and ok: "store_ok tree_store w'"
    and m: "metadata tree_store w' = fold metadata_step [EnsureTopic demo_topic, EnsurePartition demo_partition]
      (metadata tree_store RBT.empty)"
    using direct.created [OF _ _ _ _ _ _ demo_partitions, of tree_store RBT.empty "[]"]
    by (auto simp: demo_broker_def demo_kafka_def empty_store_ok)
  moreover have "fmlookup (topics_of tree_store w') ''logs'' = Some demo_topic"
    "partition_of tree_store w' ''logs'' 0 = Some demo_partition"
    using m by (simp_all add: metadata_def with_topic_def with_partition_def empty_topics)
      (simp_all add: demo_topic_def demo_partition_def)
  moreover have "topic_exists tree_store RBT.empty ''logs'' = Inr False"
    by (simp add: topic_exists_def empty_store_ok empty_topics)
  ultimately show ?thesis
    by (intro exI [of _ w'] exI [of _ "[(''logs'', x)]"]) (simp add: handle_create_topics_def demo_broker_def)
qed

theorem metadata_answers_witness:
  "\<exists>r. handle_metadata demo_broker RBT.empty (Some [Some ''logs'']) (kp_metadata demo_kafka) = Inr r
    \<and> map_of (mr_topics r) ''logs'' = Some \<lparr>mt_error_code = 3, mt_topic_id = 0, mt_partitions = []\<rparr>"
proof -
  have "store_ok (br_store demo_broker) RBT.empty" by (simp add: demo_broker_def empty_store_ok)
  from metadata_answers [OF this, of "[''logs'']" "kp_metadata demo_kafka"] show ?thesis
    by (auto simp: topic_entry_def empty_topics demo_broker_def) (simp add: demo_kafka_def)
qed

theorem created_topic_has_no_replica_witness:
  "\<exists>w'. handle_produce demo_broker True w' [(''logs'', [\<lparr>pd_index = 0, pd_records = Some [1, 2]\<rparr>])] []
      = Inl (Panic ''replica does not exist'')"
proof -
  obtain w' res where w': "handle_create_topics demo_broker (\<lambda>_. demo_create)
      [(''logs'', \<lparr>ct_num_partitions = 1, ct_replication_factor = 1\<rparr>)] (RBT.empty, []) = Inr ((w', []), res)"
    and ok: "store_ok tree_store w'" "fmlookup (topics_of tree_store w') ''logs'' = Some demo_topic"
      "partition_of tree_store w' ''logs'' 0 = Some demo_partition"
    using demo_created by blast
  have "li_topic_states (kp_isr_request (br_kafka demo_broker)) = []"
    "get_topic (br_store demo_broker) (br_db demo_broker w') ''logs'' = Inr (Some demo_topic)"
    "get_partition (br_store demo_broker) (br_db demo_broker w') ''logs'' 0 = Inr (Some demo_partition)"
    "replicas_get (pa_id demo_partition) [] = None"
    using ok by (simp_all add: demo_broker_def demo_kafka_def get_topic_def replicas_get_def)
  from created_topic_has_no_replica [OF w' this] show ?thesis by blast
qed

end
