(* ===== verification/Node.thy ===== *)
theory Node
  imports Server Broker_Handlers
begin

text \<open>
  Lemmas on the parts of a node that a process is put together from (theory \<open>Process\<close>): a leader that is alone in its cluster commits and applies what it is
  asked to within one step, a follower alone becomes leader, the partitions a request names are different, and the driver of
  \<^verbatim>\<open>raft/fsm.rs\<close> around the state machine of \<^verbatim>\<open>broker/fsm.rs\<close> replays the abstract metadata.
\<close>

section \<open>Channels\<close>

text \<open>What has been put into a channel between two states of its sender.\<close>

definition new_items :: "'a sender \<Rightarrow> 'a sender \<Rightarrow> 'a list" where
  "new_items old new = drop (length (sent old)) (sent new)"

section \<open>A leader alone in its cluster\<close>

text \<open>
  The chain is fully committed, and at least \<open>k\<close> more blocks fit below the key of the commit entry.
\<close>

definition lone_ok :: "'e ext \<Rightarrow> nat \<Rightarrow> ('e, leader) raft \<Rightarrow> bool" where
  "lone_ok E k r \<longleftrightarrow>
     leader_ok E r \<and> heads_stored E r \<and> rx_alive (fsm_tx r) \<and> cluster_ids r = {rf_id r}
   \<and> get_commit (rf_chain r) = get_head (rf_chain r)
   \<and> get_head (rf_chain r) < BlockId_new (ch_id_gen (rf_chain r))
   \<and> (\<forall>j. chain_block E (rf_chain r) j \<noteq> None \<longrightarrow> j \<le> get_head (rf_chain r))
   \<and> 0 < ch_id_gen (rf_chain r) \<and> unat (ch_id_gen (rf_chain r)) + k \<le> 2 ^ 62"

text \<open>The first 2^62 identifiers are smaller than the key of the commit entry.\<close>

lemma small_id:
  assumes "unat w < 2 ^ 62"
  shows "to_be_bytes w < commit_key"
proof -
  have "unat w div 256 ^ 7 < 0x40" using assms by (simp add: div_less_iff_less_mult)
  then have "(word_of_nat (unat w div 256 ^ 7) :: 8 word) < 0x63"
    by (simp add: word_less_nat_alt unsigned_of_nat take_bit_nat_eq_self)
  moreover have "rev [0..<8] = 7 # rev [0..<7 :: nat]" by (simp add: upt_rec)
  ultimately show ?thesis by (simp add: to_be_bytes_digits commit_key_def)
qed

text \<open>What a client request leaves alone.\<close>

lemma client_request_frame:
  assumes "leader_apply E I r (ClientRequest req) = Inr (Leader r')"
  shows "rf_id r' = rf_id r" "rf_config r' = rf_config r" "rpc_tx r' = rpc_tx r"
    "rx_alive (fsm_tx r') = rx_alive (fsm_tx r)"
    "ch_id_gen (rf_chain r') = ch_id_gen (rf_chain r) + 1"
proof -
  obtain c i P q where c: "chain_append E (rf_chain r) \<lparr>ub_data = proposal_get (cr_proposal req)\<rparr> = Inr (c, i)"
    and commit: "leader_commit E (r\<lparr>rf_chain := c, fsm_tx := (fsm_tx r)\<lparr>sent := sent (fsm_tx r)
      @ [Notify (cr_id req) (cr_address req) i]\<rparr>, rf_role := (rf_role r)\<lparr>ld_progress := P\<rparr>\<rparr>) = Inr (r', q)"
    using assms
    by (auto simp: leader_apply_client_request_def leader_client_append_def leader_apply_append_response_def
        bindE_Inr chan_send_Inr)
  have g: "ch_id_gen c = ch_id_gen (rf_chain r) + 1"
    using c by (auto simp: chain_append_def id_gen_next_def bindE_Inr Let_def)
  have keep: "ch_id_gen c' = ch_id_gen c" if "chain_commit E c q = Inr (c', j)" for c' j
    using that by (auto simp: chain_commit_def bindE_Inr split: if_splits)
  from commit show "rf_id r' = rf_id r" "rf_config r' = rf_config r" "rpc_tx r' = rpc_tx r"
    "rx_alive (fsm_tx r') = rx_alive (fsm_tx r)"
    "ch_id_gen (rf_chain r') = ch_id_gen (rf_chain r) + 1"
    by (rule leader_commit_cases; use g keep in simp)+
qed


lemma lone_serves:
  assumes "lone_ok E (Suc k) r"
  obtains r' b where "leader_apply E I r (ClientRequest req) = Inr (Leader r')" "lone_ok E k r'"
    "sent (fsm_tx r') = sent (fsm_tx r) @ [Notify (cr_id req) (cr_address req) (blk_id b), Apply b]"
    "blk_data b = proposal_get (cr_proposal req)" "blk_id b \<noteq> BlockId_new 0"
proof -
  define i where "i = BlockId_new (ch_id_gen (rf_chain r))"
  note lone = assms [unfolded lone_ok_def, folded i_def]
  have small: "bid_bytes i < commit_key" using lone by (simp add: i_def small_id)
  have ids: "leader_ok E r" "heads_stored E r" "rx_alive (fsm_tx r)" "get_head (rf_chain r) < i"
    using lone by simp_all
  let ?b = "\<lparr>blk_id = i, blk_next = get_head (rf_chain r), blk_data = proposal_get (cr_proposal req)\<rparr>"
  obtain r' q bs where r': "leader_apply E I r (ClientRequest req) = Inr (Leader r')"
    "leader_ok E r'" "heads_stored E r'" "chain_block E (rf_chain r') = (chain_block E (rf_chain r))(i \<mapsto> ?b)"
    "get_head (rf_chain r') = i"
    "head_of (ld_progress (rf_role r')) = (head_of (ld_progress (rf_role r)))(rf_id r \<mapsto>
       max (the (head_of (ld_progress (rf_role r)) (rf_id r))) i)"
    "committed_index (ld_progress (rf_role r')) = Inr q"
    "get_commit (rf_chain r') = max (get_commit (rf_chain r)) q"
    "sent (fsm_tx r') = sent (fsm_tx r) @ Notify (cr_id req) (cr_address req) i # map Apply bs"
    "sorted_wrt (<) (map blk_id bs)"
    "set bs = {b. \<exists>j. chain_block E (rf_chain r') j = Some b
        \<and> get_commit (rf_chain r) < j \<and> j \<le> get_commit (rf_chain r')}"
    by (rule client_request_ok [OF ids i_def small])
  note frame = client_request_frame [OF r'(1)]
  have ids': "cluster_ids r' = {rf_id r}" using frame(1,2) lone by (simp add: cluster_ids_def)
  have "rf_id r \<in> dom (head_of (ld_progress (rf_role r)))"
    using leader_okD(3) [OF ids(1)] by (simp add: cluster_ids_def)
  then obtain h where h: "head_of (ld_progress (rf_role r)) (rf_id r) = Some h" by blast
  with ids(2) lone have "h \<le> get_head (rf_chain r)" by (simp add: heads_stored_def)
  then have "max h i = i" using ids(4) by (intro max_absorb2 less_imp_le) (rule le_less_trans)
  then have "head_of (ld_progress (rf_role r')) (rf_id r) = Some i" using h r'(6) by simp
  then have "q = i" using lone_committed [OF r'(2) ids'] r'(7) by simp
  then have commit: "get_commit (rf_chain r') = i" using r'(8) ids(4) lone by (simp add: max_def less_imp_le)
  have old: "j \<le> get_head (rf_chain r)" if "chain_block E (rf_chain r) j \<noteq> None" for j
    using that lone by blast
  have "set bs = {?b}"
    unfolding r'(11) commit r'(4) using ids(4) lone by (auto dest: old [OF not_None_eq [THEN iffD2], OF exI])
  then have bs: "bs = [?b]" by (intro sorted_singleton [OF r'(10)])
  have room: "unat (ch_id_gen (rf_chain r)) + Suc k \<le> 2 ^ 62" using lone by simp
  then have gen: "unat (ch_id_gen (rf_chain r) + 1) = unat (ch_id_gen (rf_chain r)) + 1"
    by (simp add: unat_word_ariths(1))
  have top: "j \<le> i" if "chain_block E (rf_chain r') j \<noteq> None" for j
    using that old [of j] ids(4) r'(4) by (cases "j = i") (auto intro: order_trans less_imp_le)
  show ?thesis
  proof (rule that [of r' ?b])
    show "lone_ok E k r'"
      unfolding lone_ok_def
      using r'(2,3,5) frame ids' ids(3) commit room gen top by (simp add: i_def word_less_nat_alt)
    show "blk_id ?b \<noteq> BlockId_new 0" using lone by (auto simp: i_def)
  qed (use r'(1,9) bs in simp_all)
qed


section \<open>From an empty database to a created topic\<close>

lemma fresh_elected:
  assumes "ext_ok E" and "db_lookup (sled E) db = Map.empty" and "chain_new E (Inr db) = Inr (rf_chain r)"
    and "timeouts_ok r" and "rc_nodes (rf_config r) = []" and "voted_for (rf_state r) = None"
    and "rx_alive (rpc_tx r)" and "rx_alive (fsm_tx r)" and "unat (current_term (rf_state r)) + 1 < 2 ^ 64"
    and "needs_election I r"
  obtains l where "handle_apply E I (Follower r) Tick = Inr (Leader l)" "lone_ok E (2 ^ 62 - 1) l"
    "rf_config l = rf_config r" "fsm_tx l = fsm_tx r" "rx_alive (rpc_tx l)"
    "sent (rpc_tx l) = sent (rpc_tx r) @ [message_new (Peer (rf_id r)) Peers
       (Heartbeat (current_term (rf_state r) + 1) (get_commit (rf_chain r)) (rf_id r))]"
proof -
  obtain c where "chain_new E (Inr db) = Inr c" "chain_ok E c"
    "chain_block E c = [genesis \<mapsto> genesis_block]" "ch_head c = genesis" "ch_commit c = genesis" "ch_id_gen c = 1"
    by (rule chain_new_fresh [OF assms(1,2)])
  then have c: "chain_ok E (rf_chain r)" "chain_block E (rf_chain r) = [genesis \<mapsto> genesis_block]"
    "get_head (rf_chain r) = genesis" "get_commit (rf_chain r) = genesis" "ch_id_gen (rf_chain r) = 1"
    using assms(3) by (simp_all add: get_head_def get_commit_def)
  have ok: "handle_ok E (Follower r)" using c(1) assms(4) by simp
  obtain l where l: "handle_apply E I (Follower r) Timeout = Inr (Leader l)"
    "leader_ok E l" "rf_id l = rf_id r" "rf_config l = rf_config r" "rf_chain l = rf_chain r"
    "fsm_tx l = fsm_tx r" "head_of (ld_progress (rf_role l)) = [rf_id r \<mapsto> BlockId_new 0]"
    "rx_alive (rpc_tx l)" "sent (rpc_tx l) = sent (rpc_tx r) @ [message_new (Peer (rf_id r)) Peers
       (Heartbeat (current_term (rf_state r) + 1) (get_commit (rf_chain r)) (rf_id r))]"
    by (rule lone_follower_elected [OF ok assms(5,6,7,9)])
  have "heads_stored E l"
    using l(5,7) c(2) small_id [of 0] by (simp add: heads_stored_def genesis_def)
  moreover have "cluster_ids l = {rf_id l}" using l(4) assms(5) by (simp add: cluster_ids_def)
  ultimately have "lone_ok E (2 ^ 62 - 1) l"
    unfolding lone_ok_def using l(2,5,6) c assms(8) by (simp add: genesis_def)
  moreover have "handle_apply E I (Follower r) Tick = Inr (Leader l)"
    using l(1) assms(10) by (simp add: follower_apply_tick_def)
  ultimately show ?thesis using l(4,6,8,9) by (intro that)
qed

lemma partition_loop_indices:
  "partition_loop C name rf is brokers = Inr ps \<Longrightarrow>
     map pa_idx ps = map word_of_nat is \<and> (\<forall>p \<in> set ps. pa_topic p = name)"
  by (induction "is" arbitrary: brokers ps) (auto simp: bindE_Inr Let_def)

text \<open>The partitions of a topic have different indices, since their number is an \<^verbatim>\<open>i32\<close>.\<close>

lemma make_partitions_indices:
  assumes "make_partitions c C name t = Inr ps"
  shows "distinct (map pa_idx ps)" and "\<forall>p \<in> set ps. pa_topic p = name" and "length ps < 2 ^ 31"
proof -
  let ?n = "nat (sint (ct_num_partitions t))"
  have n: "?n < 2 ^ 31" using sint_less [of "ct_num_partitions t"] by simp
  have ps: "map pa_idx ps = map word_of_nat [0..<?n]" "\<forall>p \<in> set ps. pa_topic p = name"
    using assms partition_loop_indices by (auto simp: make_partitions_def Let_def split: if_splits)
  have "inj_on (word_of_nat :: nat \<Rightarrow> i32) (set [0..<?n])"
  proof (rule inj_onI)
    fix x y assume "x \<in> set [0..<?n]" "y \<in> set [0..<?n]" "(word_of_nat x :: i32) = word_of_nat y"
    moreover from this have "x < 2 ^ LENGTH(32)" "y < 2 ^ LENGTH(32)" using n by simp_all
    ultimately show "x = y" by (metis of_nat_inverse)
  qed
  then show "distinct (map pa_idx ps)" unfolding ps(1) by (simp add: distinct_map)
  show "\<forall>p \<in> set ps. pa_topic p = name" by (rule ps(2))
  show "length ps < 2 ^ 31" using arg_cong [OF ps(1), of length] n by simp
qed


text \<open>A transition always returns, and does nothing when it does not decode.\<close>

lemma transition_settles:
  assumes "store_ok S f"
  shows "\<exists>f' out. josefine_transition S f v = Inr (f', out) \<and> store_ok S f'
    \<and> metadata S f' = fold metadata_step (List.map_filter (de_transition S) [v]) (metadata S f)"
  using transition_refines_metadata [OF assms, of v] assms
  by (cases "de_transition S v") (auto simp: List.map_filter_def)


section \<open>The replicated metadata\<close>

text \<open>
  Fed with any instructions, the driver around the broker's state machine
  never fails while its event loop is alive, and the topics and partitions it ends with are the ones the
  abstract steps give for the applied data that decodes, in order.  Two nodes that applied the same data
  to equal metadata therefore have equal metadata.
\<close>

lemma driver_replays_metadata:
  assumes "store_ok S (drv_fsm d)" and "rx_alive (drv_rpc_tx d)"
  shows "\<exists>d'. driver_run (josefine_transition S) d is = Inr d' \<and> store_ok S (drv_fsm d')
    \<and> metadata S (drv_fsm d') =
        fold metadata_step (List.map_filter (de_transition S) (applied is)) (metadata S (drv_fsm d))"
  using assms
proof (induction "is" arbitrary: d)
  case Nil
  then show ?case by (simp add: driver_run_def List.map_filter_def)
next
  case (Cons i "is")
  have rest: ?case if "driver_step (josefine_transition S) d i = Inr d1" "store_ok S (drv_fsm d1)"
    "rx_alive (drv_rpc_tx d1)" "metadata S (drv_fsm d1) =
      fold metadata_step (List.map_filter (de_transition S) (applied [i])) (metadata S (drv_fsm d))" for d1
  proof -
    have "applied (i # is) = applied [i] @ applied is" by (cases i) simp_all
    then show ?thesis
      using Cons.IH [OF that(2,3)] that(1,4) by (simp add: driver_run_def List.map_filter_def)
  qed
  show ?case
  proof (cases i)
    case (Notify rid addr bid)
    then show ?thesis
      using Cons.prems
      by (intro rest [of "d\<lparr>drv_notifications := AList.update bid (addr, rid) (drv_notifications d)\<rparr>"])
        (simp_all add: List.map_filter_def)
  next
    case (Apply b)
    show ?thesis
    proof (cases "blk_id b = BlockId_new 0")
      case True
      then show ?thesis using Apply Cons.prems by (intro rest) (auto simp: List.map_filter_def)
    next
      case False
      obtain f out where f: "josefine_transition S (drv_fsm d) (blk_data b) = Inr (f, out)" "store_ok S f"
        "metadata S f = fold metadata_step (List.map_filter (de_transition S) [blk_data b]) (metadata S (drv_fsm d))"
        using transition_settles [OF Cons.prems(1)] by blast
      obtain d1 where "driver_step (josefine_transition S) d (Apply b) = Inr d1" "drv_fsm d1 = f"
        "rx_alive (drv_rpc_tx d1)"
        by (rule driver_apply_answers [where tr = "josefine_transition S", OF Cons.prems(2) False f(1)])
      then show ?thesis using Apply False f(2,3) by (intro rest [of d1]) simp_all
    qed
  qed
qed

end
