(* ===== verification/Process.thy ===== *)
theory Process
  imports Node Effects Cluster
begin

text \<open>
  A process from its start: the configuration of \<^verbatim>\<open>config.rs\<close> and \<^verbatim>\<open>broker/config.rs\<close>, \<^verbatim>\<open>run\<close> of \<^verbatim>\<open>lib.rs\<close>,
  \<^verbatim>\<open>Server::run\<close> of \<^verbatim>\<open>raft/server.rs\<close> and \<^verbatim>\<open>broker/server.rs\<close>, and the tasks these start, joined by their
  channels and scheduled in any order.  What the operating system returns is an argument: the addresses of
  a name, the temporary directories, the databases, and which addresses can be listened on.
\<close>

section \<open>Configuration\<close>

record josefine_config =
  jc_raft :: raft_config
  jc_broker :: broker_config

text \<open>\<^verbatim>\<open>resolve\<close>: the first address of the name; a failed lookup panics.\<close>

definition resolve :: "string + ip_addr list \<Rightarrow> ip_addr option res" where
  "resolve looked_up =
     (case looked_up of
        Inl _ \<Rightarrow> Inl (Panic ''unwrap'')
      | Inr [] \<Rightarrow> Inr None
      | Inr (a # _) \<Rightarrow> Inr (Some a))"

definition broker_config_default :: "string + ip_addr list \<Rightarrow> string \<Rightarrow> string \<Rightarrow> broker_config res" where
  "broker_config_default looked_up data_tmp state_tmp =
     bindE (resolve looked_up) (\<lambda>a.
     bindE (expectE a ''unwrap'') (\<lambda>ip.
     Inr \<lparr>bc_id = 1, bc_ip = ip, bc_port = 8844, bc_data_dir = data_tmp, bc_state_file = state_tmp, bc_peers = []\<rparr>))"

definition josefine_config_default ::
  "string + ip_addr list \<Rightarrow> string \<Rightarrow> string \<Rightarrow> string \<Rightarrow> josefine_config res" where
  "josefine_config_default looked_up raft_tmp data_tmp state_tmp =
     bindE (resolve looked_up) (\<lambda>a.
     bindE (config_default a raft_tmp) (\<lambda>r.
     bindE (broker_config_default looked_up data_tmp state_tmp) (\<lambda>b.
     Inr \<lparr>jc_raft = r, jc_broker = b\<rparr>)))"

text \<open>\<open>built\<close> is what the builder of the config crate returned, \<open>de\<close> how it deserialises.\<close>

definition load_config :: "'b option \<Rightarrow> ('b \<Rightarrow> josefine_config option) \<Rightarrow> josefine_config res" where
  "load_config built de =
     bindE (expectE built ''Could not build configuration'') (\<lambda>b.
     expectE (de b) ''Could not deserialize configuration'')"

section \<open>The tasks\<close>

text \<open>
  The state of the tasks and what waits in the channels between them: \<open>pr_rpc_rx\<close> from the raft node and the driver to
  the event loop, \<open>pr_fsm_rx\<close> from the raft node to the driver, \<open>pr_tcp_rx\<close> from the connections to the event loop,
  \<open>pr_tcp_out_rx\<close> from the event loop to the sending task, \<open>pr_client_rx\<close> from the broker to the event loop.
\<close>

record ('e, 'd) process =
  pr_id :: node_id
  pr_server :: "('e, nat) server"
  pr_driver :: "'d driver"
  pr_txs :: node_txs
  pr_rpc_rx :: "message list"
  pr_fsm_rx :: "instruction list"
  pr_tcp_rx :: "message list"
  pr_tcp_out_rx :: "message list"
  pr_client_rx :: "(proposal \<times> nat) list"
  pr_broker :: broker_config
  pr_replicas :: replicas

text \<open>
  Which task runs next.  The last three come from outside: a connection hands over a message, the broker hands over a
  proposal, the connection to a node writes what is queued for it.
\<close>

datatype task =
    TickTask input
  | TcpTask input
  | RpcTask input "nat \<Rightarrow> bool"
  | ClientTask input client_request_id
  | DriverTask
  | SendTask
  | Arrive message
  | Submit proposal nat
  | LinkTask node_id "bool list"

definition loop_step :: "'e ext \<Rightarrow> ('e, 'd) process \<Rightarrow> nat event \<Rightarrow> ('e, 'd) process res" where
  "loop_step E p ev =
     (let s = pr_server p
      in bindE (event_step E s ev) (\<lambda>s'.
         Inr (p\<lparr>pr_server := s',
           pr_rpc_rx := pr_rpc_rx p @ new_items (h_rpc (sv_raft s)) (h_rpc (sv_raft s')),
           pr_fsm_rx := pr_fsm_rx p @ new_items (h_fsm (sv_raft s)) (h_fsm (sv_raft s')),
           pr_tcp_out_rx := pr_tcp_out_rx p @ new_items (sv_tcp_tx s) (sv_tcp_tx s')\<rparr>)))"

text \<open>A task whose channel is empty waits.\<close>

fun task_step :: "'e ext \<Rightarrow> 'd store_env \<Rightarrow> ('e, 'd) process \<Rightarrow> task \<Rightarrow> ('e, 'd) process res" where
  "task_step E S p (TickTask I) = loop_step E p (EvTick I)"
| "task_step E S p (TcpTask I) =
     (case pr_tcp_rx p of
        [] \<Rightarrow> Inr p
      | m # ms \<Rightarrow> loop_step E (p\<lparr>pr_tcp_rx := ms\<rparr>) (EvTcp I m))"
| "task_step E S p (RpcTask I listening) =
     (case pr_rpc_rx p of
        [] \<Rightarrow> Inr p
      | m # ms \<Rightarrow> loop_step E (p\<lparr>pr_rpc_rx := ms\<rparr>) (EvRpc I listening m))"
| "task_step E S p (ClientTask I rid) =
     (case pr_client_rx p of
        [] \<Rightarrow> Inr p
      | (v, c) # qs \<Rightarrow> loop_step E (p\<lparr>pr_client_rx := qs\<rparr>) (EvClient I rid v c))"
| "task_step E S p DriverTask =
     (case pr_fsm_rx p of
        [] \<Rightarrow> Inr p
      | i # is \<Rightarrow>
          bindE (driver_step (josefine_transition S) (pr_driver p) i) (\<lambda>d.
          Inr (p\<lparr>pr_driver := d, pr_fsm_rx := is,
            pr_rpc_rx := pr_rpc_rx p @ new_items (drv_rpc_tx (pr_driver p)) (drv_rpc_tx d)\<rparr>)))"
| "task_step E S p SendTask =
     (case pr_tcp_out_rx p of
        [] \<Rightarrow> Inr p
      | m # ms \<Rightarrow> bindE (send_message (pr_id p) (pr_txs p) m) (\<lambda>txs. Inr (p\<lparr>pr_txs := txs, pr_tcp_out_rx := ms\<rparr>)))"
| "task_step E S p (Arrive m) = Inr (p\<lparr>pr_tcp_rx := pr_tcp_rx p @ [m]\<rparr>)"
| "task_step E S p (Submit v c) = Inr (p\<lparr>pr_client_rx := pr_client_rx p @ [(v, c)]\<rparr>)"
| "task_step E S p (LinkTask n oks) =
     (case map_of (pr_txs p) n of
        None \<Rightarrow> Inr p
      | Some tx \<Rightarrow>
          if pt_open tx then Inr (p\<lparr>pr_txs := AList.update n
            (pl_tx (connect_and_send [Socket oks] \<lparr>pl_tx = tx, pl_backoff = 1, pl_slept = [], pl_written = []\<rparr>)) (pr_txs p)\<rparr>)
          else Inr p)"

section \<open>The start\<close>

text \<open>\<^verbatim>\<open>Server::run\<close> of \<^verbatim>\<open>raft/server.rs\<close> up to the join of its tasks.\<close>

definition raft_server_run ::
  "'e ext \<Rightarrow> input \<Rightarrow> (socket_addr \<Rightarrow> bool) \<Rightarrow> sled_error + 'e \<Rightarrow> raft_config \<Rightarrow> 'd \<Rightarrow> broker_config \<Rightarrow> replicas \<Rightarrow>
   ('e, 'd) process res" where
  "raft_server_run E I bind opened config fsm broker replicas =
     (if \<not> bind \<lparr>sa_ip = rc_ip config, sa_port = rc_port config\<rparr> then Inl (Error ''bind'')
      else
        bindE (handle_new E I opened config unbounded_channel unbounded_channel) (\<lambda>raft.
        Inr \<lparr>pr_id = rc_id config,
          pr_server = \<lparr>sv_raft = raft, sv_tcp_tx = unbounded_channel, sv_requests = [], sv_replies = []\<rparr>,
          pr_driver = driver_new unbounded_channel fsm, pr_txs = send_task_init (rc_nodes config),
          pr_rpc_rx = [], pr_fsm_rx = [], pr_tcp_rx = [], pr_tcp_out_rx = [], pr_client_rx = [],
          pr_broker = broker, pr_replicas = replicas\<rparr>))"

text \<open>\<^verbatim>\<open>Server::run\<close> of \<^verbatim>\<open>broker/server.rs\<close> up to the join: a broker without replicas.\<close>

definition replicas_new :: replicas where
  "replicas_new = []"

definition broker_address :: "broker_config \<Rightarrow> socket_addr" where
  "broker_address config = \<lparr>sa_ip = bc_ip config, sa_port = bc_port config\<rparr>"

definition broker_server_run :: "(socket_addr \<Rightarrow> bool) \<Rightarrow> broker_config \<Rightarrow> (broker_config \<times> replicas) res" where
  "broker_server_run bind config =
     (if \<not> bind (broker_address config) then Inl (Error ''bind'')
      else Inr (config, replicas_new))"

text \<open>
  \<^verbatim>\<open>run\<close> of \<^verbatim>\<open>lib.rs\<close> up to the join.  The store of the broker and the state machine share one database.
\<close>

definition josefine_run ::
  "'e ext \<Rightarrow> input \<Rightarrow> (socket_addr \<Rightarrow> bool) \<Rightarrow> sled_error + 'd \<Rightarrow> sled_error + 'e \<Rightarrow> josefine_config \<Rightarrow>
   ('e, 'd) process res" where
  "josefine_run E I bind state_db chain_db config =
     bindE (unwrapS state_db) (\<lambda>db.
     bindE (broker_server_run bind (jc_broker config)) (\<lambda>(broker, replicas).
     raft_server_run E I bind chain_db (jc_raft config) db broker replicas))"

text \<open>The entry point of the library with the path of a configuration.\<close>

definition josefine ::
  "'e ext \<Rightarrow> input \<Rightarrow> (socket_addr \<Rightarrow> bool) \<Rightarrow> (string \<Rightarrow> sled_error + 'd) \<Rightarrow> (string \<Rightarrow> sled_error + 'e) \<Rightarrow>
   'b option \<Rightarrow> ('b \<Rightarrow> josefine_config option) \<Rightarrow> ('e, 'd) process res" where
  "josefine E I bind open_state open_chain built de =
     bindE (load_config built de) (\<lambda>config.
     josefine_run E I bind (open_state (bc_state_file (jc_broker config)))
       (open_chain (rc_data_directory (jc_raft config))) config)"

section \<open>Well-formed processes\<close>

definition nexts_ok :: "'e ext \<Rightarrow> 'e chain \<Rightarrow> bool" where
  "nexts_ok E c \<longleftrightarrow> (\<forall>k b. chain_block E c k = Some b \<longrightarrow> id_ok (blk_next b))"

definition msgs_ok :: "message list \<Rightarrow> bool" where
  "msgs_ok ms \<longleftrightarrow> (\<forall>m \<in> set ms. cmd_ok (msg_command m))"

definition txs_ok :: "node_txs \<Rightarrow> bool" where
  "txs_ok txs \<longleftrightarrow> (\<forall>n tx. map_of txs n = Some tx \<longrightarrow> length (pt_queue tx) \<le> channel_capacity \<and> msgs_ok (pt_queue tx))"

definition process_ok :: "'e ext \<Rightarrow> 'd store_env \<Rightarrow> ('e, 'd) process \<Rightarrow> bool" where
  "process_ok E S p \<longleftrightarrow> server_ok E (pr_server p) \<and> nexts_ok E (h_chain (sv_raft (pr_server p)))
     \<and> drv_ok (pr_driver p) \<and> store_ok S (drv_fsm (pr_driver p)) \<and> rx_alive (drv_rpc_tx (pr_driver p))
     \<and> msgs_ok (pr_rpc_rx p) \<and> msgs_ok (pr_tcp_rx p) \<and> msgs_ok (pr_tcp_out_rx p) \<and> txs_ok (pr_txs p)"

fun task_ok :: "task \<Rightarrow> bool" where
  "task_ok (Arrive m) \<longleftrightarrow> cmd_ok (msg_command m)"
| "task_ok t \<longleftrightarrow> True"

text \<open>
  A database the chain can be opened from: an empty one, or the one a well-formed chain has left.
\<close>

definition chain_db_ok :: "'e ext \<Rightarrow> 'e \<Rightarrow> bool" where
  "chain_db_ok E db \<longleftrightarrow> ext_ok E
     \<and> (db_lookup (sled E) db = Map.empty \<or> (\<exists>c. ch_db c = db \<and> chain_ok E c \<and> nexts_ok E c))"

section \<open>What a step of the raft node sends\<close>

lemma msgs_ok_simps [simp]:
  "msgs_ok []" "msgs_ok (m # ms) \<longleftrightarrow> cmd_ok (msg_command m) \<and> msgs_ok ms"
  "msgs_ok (ms @ ns) \<longleftrightarrow> msgs_ok ms \<and> msgs_ok ns"
  by (auto simp: msgs_ok_def)

lemma handle_chain_ok: "handle_ok E h \<Longrightarrow> chain_ok E (h_chain h)"
  by (cases h) (auto simp: leader_ok_def)

lemma truthful_cmd_ok:
  assumes "truthful E i c cmd" and "chain_ok E c" and "nexts_ok E c"
  shows "cmd_ok cmd"
  using assms chain_block_id(2) [OF assms(2)]
  by (cases cmd) (auto simp: truthful_def nexts_ok_def)

lemma truthful_msgs_ok:
  "chain_ok E c \<Longrightarrow> nexts_ok E c \<Longrightarrow> \<forall>m \<in> set ms. truthful E i c (msg_command m) \<Longrightarrow> msgs_ok ms"
  by (auto simp: msgs_ok_def intro: truthful_cmd_ok)

lemma raft_step_sends:
  assumes "handle_ok E h" and "nexts_ok E (h_chain h)" and "cmd_ok cmd" and "handle_apply E I h cmd = Inr h'"
  obtains ms js where "handle_ok E h'" "nexts_ok E (h_chain h')" "sent (h_rpc h') = sent (h_rpc h) @ ms" "msgs_ok ms"
    "sent (h_fsm h') = sent (h_fsm h) @ js"
proof -
  have ok: "handle_ok E h'" by (rule handle_apply_inv [OF assms(1,3,4)])
  note c = handle_chain_ok [OF assms(1)] handle_chain_ok [OF ok]
  have "nexts_ok E (h_chain h') \<and> (\<exists>ms i. sent (h_rpc h') = sent (h_rpc h) @ ms
      \<and> (\<forall>m \<in> set ms. truthful E i (h_chain h') (msg_command m))) \<and> (\<exists>js. sent (h_fsm h') = sent (h_fsm h) @ js)"
  proof (cases h)
    case (Follower r)
    then have f: "follows E cmd r h'" using follower_follows assms(3,4) c(1) by simp
    have "id_ok (blk_next b)" if "chain_block E (h_chain h') k = Some b" for k b
      using f that assms(2) Follower chain_block_id(2) [OF c(2)] unfolding follows_def nexts_ok_def
      by (metis h_chain.simps(1) not_None_eq)
    with f Follower show ?thesis by (auto simp: follows_def nexts_ok_def)
  next
    case (Candidate r)
    then have "calm E r h'" using candidate_calm assms(4) c(1) by simp
    with Candidate assms(2) show ?thesis by (auto simp: calm_def)
  next
    case (Leader r)
    then obtain r' where r': "h' = Leader r'" using leader_apply_quiet [of E I r cmd h'] assms(4) by auto
    then have l: "leads E cmd r r'" using leader_leads Leader assms by simp
    have "id_ok (get_head (rf_chain r))" using chain_head_id_ok c(1) Leader by (simp add: get_head_def)
    then have "nexts_ok E (rf_chain r')" using l assms(2) Leader by (auto simp: leads_def nexts_ok_def split: if_splits)
    with l r' Leader show ?thesis by (auto simp: leads_def)
  qed
  then show ?thesis using truthful_msgs_ok [OF c(2)] ok by (blast intro: that)
qed

lemma server_apply_sends:
  assumes "server_apply E I t cmd = Inr s'" and "handle_ok E (sv_raft t)" and "nexts_ok E (h_chain (sv_raft t))" and "cmd_ok cmd"
  obtains ms js where "nexts_ok E (h_chain (sv_raft s'))" "sent (h_rpc (sv_raft s')) = sent (h_rpc (sv_raft t)) @ ms"
    "msgs_ok ms" "sent (h_fsm (sv_raft s')) = sent (h_fsm (sv_raft t)) @ js" "sv_tcp_tx s' = sv_tcp_tx t"
proof -
  obtain h where h: "handle_apply E I (sv_raft t) cmd = Inr h" "s' = t\<lparr>sv_raft := h\<rparr>"
    using assms(1) by (auto simp: server_apply_Inr)
  show ?thesis by (rule raft_step_sends [OF assms(2-4) h(1)]) (use h(2) in \<open>auto intro: that\<close>)
qed

text \<open>An event either is a command for the raft node or leaves the raft node alone.\<close>

lemma event_step_cases:
  assumes "event_step E s ev = Inr s'" and "event_ok ev"
  obtains (command) I t cmd where "server_apply E I t cmd = Inr s'" "cmd_ok cmd" "sv_raft t = sv_raft s" "sv_tcp_tx t = sv_tcp_tx s"
    | (other) fs where "sv_raft s' = sv_raft s" "sent (sv_tcp_tx s') = sent (sv_tcp_tx s) @ fs" "msgs_ok fs"
proof (cases ev)
  case (EvTcp I m)
  have "\<exists>t. server_apply E I t (msg_command m) = Inr s' \<and> sv_raft t = sv_raft s \<and> sv_tcp_tx t = sv_tcp_tx s"
    using assms(1) EvTcp by (cases "msg_to m"; cases "msg_command m") (force simp: on_tcp_def)+
  with assms(2) EvTcp show ?thesis by (auto intro: command)
next
  case (EvRpc I listening m)
  have "server_apply E I s (msg_command m) = Inr s'
      \<or> sv_raft s' = sv_raft s \<and> (sent (sv_tcp_tx s') = sent (sv_tcp_tx s) \<or> sent (sv_tcp_tx s') = sent (sv_tcp_tx s) @ [m])"
    using assms(1) EvRpc
    by (auto simp: on_rpc_def forward_def answer_def bindE_Inr chan_send_Inr Let_def
        split: address.splits command.splits option.splits reply_tx.splits if_splits)
  with assms(2) EvRpc show ?thesis by (auto intro: command other [of "[]"] other [of "[m]"])
next
  case (EvClient I rid v c)
  with assms show ?thesis by (intro command [OF assms(1) [unfolded EvClient event_step.simps on_client_def]]) simp_all
qed (use assms in \<open>auto intro: command\<close>)

lemma event_step_sends:
  assumes "event_step E s ev = Inr s'" and "event_ok ev" and "server_ok E s" and "nexts_ok E (h_chain (sv_raft s))"
  obtains ms js fs where "server_ok E s'" "nexts_ok E (h_chain (sv_raft s'))"
    "sent (h_rpc (sv_raft s')) = sent (h_rpc (sv_raft s)) @ ms" "msgs_ok ms"
    "sent (h_fsm (sv_raft s')) = sent (h_fsm (sv_raft s)) @ js"
    "sent (sv_tcp_tx s') = sent (sv_tcp_tx s) @ fs" "msgs_ok fs"
proof -
  note ok = event_step_ok [OF assms(3,2,1)]
  from assms(1,2) show ?thesis
  proof (cases rule: event_step_cases)
    case (command I t cmd)
    have "handle_ok E (sv_raft t)" "nexts_ok E (h_chain (sv_raft t))"
      using assms(3,4) command(3) by (simp_all add: server_ok_def)
    then show ?thesis
      by (rule server_apply_sends [OF command(1) _ _ command(2)]) (use command(3,4) ok in \<open>auto intro: that [of _ _ "[]"]\<close>)
  next
    case (other fs)
    then show ?thesis using assms(4) ok by (intro that [of "[]" "[]" fs]) simp_all
  qed
qed

section \<open>Every task keeps a process well formed\<close>

lemma new_items_append: "sent new = sent old @ xs \<Longrightarrow> new_items old new = xs"
  by (simp add: new_items_def)

lemma loop_step_effect:
  assumes "loop_step E p ev = Inr p'" and "event_ok ev" and "process_ok E S p"
  obtains js where "process_ok E S p'" "pr_driver p' = pr_driver p" "pr_fsm_rx p' = pr_fsm_rx p @ js"
    "sent (h_fsm (sv_raft (pr_server p'))) = sent (h_fsm (sv_raft (pr_server p))) @ js"
proof -
  obtain s' where s': "event_step E (pr_server p) ev = Inr s'"
    and p': "p' = p\<lparr>pr_server := s',
       pr_rpc_rx := pr_rpc_rx p @ new_items (h_rpc (sv_raft (pr_server p))) (h_rpc (sv_raft s')),
       pr_fsm_rx := pr_fsm_rx p @ new_items (h_fsm (sv_raft (pr_server p))) (h_fsm (sv_raft s')),
       pr_tcp_out_rx := pr_tcp_out_rx p @ new_items (sv_tcp_tx (pr_server p)) (sv_tcp_tx s')\<rparr>"
    using assms(1) by (auto simp: loop_step_def Let_def bindE_Inr)
  have "server_ok E (pr_server p)" "nexts_ok E (h_chain (sv_raft (pr_server p)))"
    using assms(3) by (simp_all add: process_ok_def)
  then show ?thesis
    by (rule event_step_sends [OF s' assms(2)])
      (use assms(3) p' in \<open>auto simp: process_ok_def new_items_append intro!: that\<close>)
qed

lemma driver_step_effect:
  assumes "store_ok S (drv_fsm d)" and "rx_alive (drv_rpc_tx d)" and "drv_ok d"
  obtains d' ms where "driver_step (josefine_transition S) d i = Inr d'" "store_ok S (drv_fsm d')" "rx_alive (drv_rpc_tx d')"
    "drv_ok d'" "sent (drv_rpc_tx d') = sent (drv_rpc_tx d) @ ms" "msgs_ok ms"
proof -
  obtain d' where d': "driver_run (josefine_transition S) d [i] = Inr d'" "store_ok S (drv_fsm d')"
    using driver_replays_metadata [OF assms(1,2), of "[i]"] by blast
  then have s: "driver_step (josefine_transition S) d i = Inr d'" by (simp add: driver_run_def bindE_Inr)
  have "rx_alive (drv_rpc_tx d') \<and> (\<exists>ms. sent (drv_rpc_tx d') = sent (drv_rpc_tx d) @ ms \<and> msgs_ok ms)"
    using s assms(2) by (cases i) (auto simp: message_new_def bindE_Inr chan_send_Inr driver_exec_def split: if_splits option.splits)
  with s d'(2) driver_step_ok [OF assms(3) s] show ?thesis by (blast intro: that)
qed

lemma txs_ok_update:
  "txs_ok txs \<Longrightarrow> length (pt_queue tx) \<le> channel_capacity \<Longrightarrow> msgs_ok (pt_queue tx) \<Longrightarrow> txs_ok (AList.update n tx txs)"
  by (auto simp: txs_ok_def update_conv')

lemma send_to_txs_ok:
  assumes "send_to m n txs = Inr txs'" and "txs_ok txs" and "cmd_ok (msg_command m)"
  shows "txs_ok txs'"
proof (cases "map_of txs n")
  case None
  then show ?thesis using assms by (simp add: send_to_def)
next
  case (Some tx)
  moreover have "msgs_ok (pt_queue tx)" using assms(2) Some by (auto simp: txs_ok_def)
  ultimately show ?thesis
    using assms by (auto simp: send_to_def try_send_def split: if_splits intro: txs_ok_update)
qed

lemma send_message_txs_ok:
  assumes "send_message n txs m = Inr txs'" and "txs_ok txs" and "cmd_ok (msg_command m)"
  shows "txs_ok txs'"
proof -
  let ?m = "if msg_from m = Local then m\<lparr>msg_from := Peer n\<rparr> else m"
  have m: "cmd_ok (msg_command ?m)" using assms(3) by simp
  have "txs' = txs \<or> (\<exists>ns. foldE (send_to ?m) ns txs = Inr txs')"
    using assms(1) unfolding send_message_def Let_def by (cases "msg_to ?m") (auto simp del: foldE.simps)
  then show ?thesis
    using assms(2) m by (auto elim: foldE_invariant [where P = txs_ok] intro: send_to_txs_ok)
qed

lemma send_messages_left:
  assumes "send_messages oks q = (w, left, failed)"
  shows "length left \<le> length q \<and> (msgs_ok q \<longrightarrow> msgs_ok left)"
  using assms by (induction oks q arbitrary: w left failed rule: send_messages.induct) (fastforce split: prod.splits)+

lemma link_task_ok:
  assumes "txs_ok txs" and "map_of txs n = Some tx"
  shows "txs_ok (AList.update n (pl_tx (connect_and_send [Socket oks]
    \<lparr>pl_tx = tx, pl_backoff = 1, pl_slept = [], pl_written = []\<rparr>)) txs)"
proof -
  obtain w left failed where l: "send_messages oks (pt_queue tx) = (w, left, failed)" by (metis prod.exhaust)
  moreover have "length (pt_queue tx) \<le> channel_capacity" "msgs_ok (pt_queue tx)"
    using assms by (auto simp: txs_ok_def)
  ultimately show ?thesis using assms(1) send_messages_left [OF l] by (simp add: txs_ok_update)
qed

text \<open>What the driver has taken so far, from the state \<open>d\<close> it started in, and what still waits, is what was sent to it.\<close>

definition fed :: "'d store_env \<Rightarrow> 'd driver \<Rightarrow> ('e, 'd) process \<Rightarrow> bool" where
  "fed S d p \<longleftrightarrow> (\<exists>taken. sent (h_fsm (sv_raft (pr_server p))) = taken @ pr_fsm_rx p
     \<and> driver_run (josefine_transition S) d taken = Inr (pr_driver p))"

lemma loop_step_inv:
  assumes "loop_step E p ev = Inr p'" and "event_ok ev" and "process_ok E S p" and "fed S d p"
  shows "process_ok E S p' \<and> fed S d p'"
  by (rule loop_step_effect [OF assms(1-3)]) (use assms(4) in \<open>auto simp: fed_def\<close>)

lemma driver_task_inv:
  assumes "process_ok E S p" and "fed S d p"
  obtains p' where "task_step E S p DriverTask = Inr p'" "process_ok E S p'" "fed S d p'" "pr_fsm_rx p' = tl (pr_fsm_rx p)"
    "pr_server p' = pr_server p"
proof (cases "pr_fsm_rx p")
  case Nil
  then show ?thesis using assms by (intro that [of p]) simp_all
next
  case (Cons i js)
  have drv: "store_ok S (drv_fsm (pr_driver p))" "rx_alive (drv_rpc_tx (pr_driver p))" "drv_ok (pr_driver p)"
    using assms(1) by (simp_all add: process_ok_def)
  obtain d' ms where d': "driver_step (josefine_transition S) (pr_driver p) i = Inr d'" "store_ok S (drv_fsm d')"
    "rx_alive (drv_rpc_tx d')" "drv_ok d'" "sent (drv_rpc_tx d') = sent (drv_rpc_tx (pr_driver p)) @ ms" "msgs_ok ms"
    by (rule driver_step_effect [OF drv])
  let ?p = "p\<lparr>pr_driver := d', pr_fsm_rx := js, pr_rpc_rx := pr_rpc_rx p @ ms\<rparr>"
  obtain taken where t: "sent (h_fsm (sv_raft (pr_server p))) = taken @ i # js"
    "driver_run (josefine_transition S) d taken = Inr (pr_driver p)"
    using assms(2) Cons by (auto simp: fed_def)
  have "driver_run (josefine_transition S) d (taken @ [i]) = Inr d'"
    using t(2) d'(1) by (simp add: driver_run_def run_steps_append)
  then have "fed S d ?p" using t(1) unfolding fed_def by (intro exI [of _ "taken @ [i]"]) simp
  moreover have "process_ok E S ?p" using assms(1) d' by (simp add: process_ok_def)
  ultimately show ?thesis
    using Cons d'(1) by (intro that [of ?p]) (simp_all add: new_items_append [OF d'(5)])
qed

lemma task_step_inv:
  assumes "process_ok E S p \<and> fed S d p" and "task_ok t" and "task_step E S p t = Inr p'"
  shows "process_ok E S p' \<and> fed S d p'"
proof (cases t)
  case (TickTask I)
  then show ?thesis using assms by (intro loop_step_inv [of E p "EvTick I"]) simp_all
next
  case (TcpTask I)
  show ?thesis
  proof (cases "pr_tcp_rx p")
    case (Cons m ms)
    then show ?thesis
      using assms TcpTask by (intro loop_step_inv [of E "p\<lparr>pr_tcp_rx := ms\<rparr>" "EvTcp I m"]) (simp_all add: process_ok_def fed_def)
  qed (use assms TcpTask in simp)
next
  case (RpcTask I listening)
  show ?thesis
  proof (cases "pr_rpc_rx p")
    case (Cons m ms)
    then show ?thesis
      using assms RpcTask
      by (intro loop_step_inv [of E "p\<lparr>pr_rpc_rx := ms\<rparr>" "EvRpc I listening m"]) (simp_all add: process_ok_def fed_def)
  qed (use assms RpcTask in simp)
next
  case (ClientTask I rid)
  show ?thesis
  proof (cases "pr_client_rx p")
    case (Cons q qs)
    then show ?thesis
      using assms ClientTask
      by (intro loop_step_inv [of E "p\<lparr>pr_client_rx := qs\<rparr>" "EvClient I rid (fst q) (snd q)"])
        (simp_all add: process_ok_def fed_def split: prod.splits)
  qed (use assms ClientTask in simp)
next
  case DriverTask
  then show ?thesis using assms by (auto elim: driver_task_inv [of E S p d])
next
  case SendTask
  show ?thesis
  proof (cases "pr_tcp_out_rx p")
    case (Cons m ms)
    then show ?thesis
      using assms SendTask by (auto simp: process_ok_def fed_def bindE_Inr intro: send_message_txs_ok)
  qed (use assms SendTask in simp)
next
  case (LinkTask n oks)
  then show ?thesis
    using assms link_task_ok [of "pr_txs p" n]
    by (auto simp: process_ok_def fed_def simp del: connect_and_send.simps split: option.splits if_splits)
qed (use assms in \<open>auto simp: process_ok_def fed_def\<close>)

interpretation process_inv: step_system "task_step E S" "\<lambda>p. process_ok E S p \<and> fed S d p" task_ok
  for E :: "'e ext" and S :: "'d store_env" and d :: "'d driver"
  by unfold_locales (rule task_step_inv)

section \<open>Starting\<close>

lemma chain_reset_ok:
  assumes "chain_ok E c" and "nexts_ok E c" and "ch_commit c = genesis"
  obtains c' where "chain_new E (Inr (ch_db c)) = Inr c'" "chain_ok E c'" "nexts_ok E c'"
proof -
  note S = ext_okD(1) [OF chain_okD(1) [OF assms(1)]]
  obtain v where v: "ser_block E genesis_block = Some v" "de_block E v = Some genesis_block"
    using bincode_serE [OF chain_okD(1) [OF assms(1)]] by blast
  obtain d where d: "db_insert (sled E) (ch_db c) (bid_bytes genesis) v = Inr d"
      "db_lookup (sled E) d = (db_lookup (sled E) (ch_db c))(bid_bytes genesis \<mapsto> v)"
    using sled_insertE [OF S] by metis
  let ?c = "\<lparr>ch_db = d, ch_id_gen = 1, ch_commit = genesis, ch_head = genesis\<rparr>"
  have g: "id_ok (blk_id genesis_block)" "blk_id genesis_block = genesis" by (simp_all add: genesis_block_def genesis_def)
  have ins: "db_lookup (sled E) (ch_db ?c) = (db_lookup (sled E) (ch_db c))(bid_bytes (blk_id genesis_block) \<mapsto> v)"
    using d(2) g(2) by simp
  have "db_get (sled E) (ch_db c) commit_key = Inr None \<or> db_get (sled E) (ch_db c) commit_key = Inr (Some (to_be_bytes 0))"
    using chain_okD(2) [OF assms(1), of commit_key] assms(3)
    by (cases "db_lookup (sled E) (ch_db c) commit_key") (auto simp: sled_okD(3) [OF S] entry_ok_def genesis_def)
  then have "chain_new E (Inr (ch_db c)) = Inr ?c"
    using v(1) d(1) by (auto simp: chain_new_def chain_init_def id_gen_next_def genesis_block_def genesis_def Let_def u64_of_bytes_def)
  moreover have "chain_ok E ?c"
    by (rule chain_ok_insert [OF assms(1) ins g(1) v(2)]) (simp_all add: assms(3) g(2))
  moreover have "nexts_ok E ?c"
    using assms(2) chain_block_insert [OF ins g(1) v(2)] by (simp add: nexts_ok_def genesis_block_def genesis_def)
  ultimately show ?thesis by (rule that)
qed

lemma chain_opens:
  assumes "chain_db_ok E db"
  obtains c where "chain_new E (Inr db) = Inr c" "chain_ok E c" "nexts_ok E c"
proof (cases "db_lookup (sled E) db = Map.empty")
  case True
  show ?thesis
    by (rule chain_new_fresh [OF _ True])
      (use assms in \<open>auto simp: chain_db_ok_def nexts_ok_def genesis_block_def genesis_def intro: that split: if_splits\<close>)
next
  case False
  then obtain c where c: "db = ch_db c" "chain_ok E c" "nexts_ok E c" using assms by (auto simp: chain_db_ok_def)
  show ?thesis
  proof (cases "ch_commit c = genesis")
    case True
    show ?thesis by (rule chain_reset_ok [OF c(2,3) True]) (use c(1) in \<open>auto intro: that\<close>)
  next
    case False
    show ?thesis
      by (rule chain_new_reopen [OF c(2) False]) (use c in \<open>auto simp: nexts_ok_def intro: that\<close>)
  qed
qed

lemma send_task_init_ok: "txs_ok (send_task_init nodes)"
proof -
  have "txs_ok (fold (\<lambda>n. AList.update (nd_id n) \<lparr>pt_queue = [], pt_open = True\<rparr>) nodes txs)" if "txs_ok txs" for txs
    using that by (induction nodes arbitrary: txs) (simp_all add: txs_ok_update)
  from this [of "[]"] show ?thesis by (simp add: send_task_init_def txs_ok_def)
qed

text \<open>The addresses a process listens on.\<close>

definition listens :: "josefine_config \<Rightarrow> socket_addr set" where
  "listens config = {broker_address (jc_broker config),
     \<lparr>sa_ip = rc_ip (jc_raft config), sa_port = rc_port (jc_raft config)\<rparr>}"

lemma josefine_run_ok:
  assumes "chain_db_ok E cdb" and "store_ok S db" and "config_validate (jc_raft config) = Inr ()" and "\<forall>a \<in> listens config. bind a"
  obtains p where "josefine_run E I bind (Inr db) (Inr cdb) config = Inr p" "process_ok E S p"
    "fed S (driver_new unbounded_channel db) p"
proof -
  obtain c where c: "chain_new E (Inr cdb) = Inr c" "chain_ok E c" "nexts_ok E c" by (rule chain_opens [OF assms(1)])
  obtain r where r: "handle_new E I (Inr cdb) (jc_raft config) unbounded_channel unbounded_channel = Inr (Follower r)"
    "handle_ok E (Follower r)" "rf_chain r = c" "fsm_tx r = unbounded_channel"
    by (rule follower_new_ok [OF assms(3) c(1,2)])
  let ?p = "\<lparr>pr_id = rc_id (jc_raft config),
      pr_server = \<lparr>sv_raft = Follower r, sv_tcp_tx = unbounded_channel, sv_requests = [], sv_replies = []\<rparr>,
      pr_driver = driver_new unbounded_channel db, pr_txs = send_task_init (rc_nodes (jc_raft config)),
      pr_rpc_rx = [], pr_fsm_rx = [], pr_tcp_rx = [], pr_tcp_out_rx = [], pr_client_rx = [],
      pr_broker = jc_broker config, pr_replicas = replicas_new\<rparr>"
  show ?thesis
  proof (rule that [of ?p])
    show "josefine_run E I bind (Inr db) (Inr cdb) config = Inr ?p"
      using assms(4) r(1) by (simp add: josefine_run_def raft_server_run_def broker_server_run_def unwrapS_def listens_def)
    show "process_ok E S ?p"
      using r c assms(2) send_task_init_ok by (simp add: process_ok_def server_ok_def driver_new_def drv_ok_def unbounded_channel_def)
    show "fed S (driver_new unbounded_channel db) ?p"
      using r(4) by (simp add: fed_def driver_run_def unbounded_channel_def)
  qed
qed

lemma josefine_run_Inr:
  assumes "josefine_run E I bind (Inr db) (Inr cdb) config = Inr p"
  shows "config_validate (jc_raft config) = Inr ()" and "\<forall>a \<in> listens config. bind a"
  using assms by (auto simp: josefine_run_def raft_server_run_def broker_server_run_def unwrapS_def listens_def handle_new_def
      follower_new_def bindE_Inr split: if_splits sum.splits)

lemma process_reachable:
  assumes "chain_db_ok E cdb" and "store_ok S db" and "josefine_run E I bind (Inr db) (Inr cdb) config = Inr p"
    and "\<forall>t \<in> set ts. task_ok t" and "run_steps (task_step E S) p ts = Inr p'"
  shows "process_ok E S p' \<and> fed S (driver_new unbounded_channel db) p'"
proof -
  obtain q where "josefine_run E I bind (Inr db) (Inr cdb) config = Inr q" "process_ok E S q"
    "fed S (driver_new unbounded_channel db) q"
    by (rule josefine_run_ok [OF assms(1,2) josefine_run_Inr [OF assms(3)]])
  then show ?thesis using assms(3) by (intro process_inv.run_inv [OF _ assms(4,5)]) simp
qed

lemma driver_drains:
  assumes "process_ok E S p" and "fed S d p"
  shows "\<exists>p'. run_steps (task_step E S) p (replicate (length (pr_fsm_rx p)) DriverTask) = Inr p'
    \<and> process_ok E S p' \<and> fed S d p' \<and> pr_fsm_rx p' = [] \<and> pr_server p' = pr_server p"
  using assms
proof (induction "length (pr_fsm_rx p)" arbitrary: p)
  case 0
  then show ?case by simp
next
  case (Suc n)
  obtain p1 where p1: "task_step E S p DriverTask = Inr p1" "process_ok E S p1" "fed S d p1"
    "pr_fsm_rx p1 = tl (pr_fsm_rx p)" "pr_server p1 = pr_server p"
    by (rule driver_task_inv [OF Suc.prems])
  then have n: "n = length (pr_fsm_rx p1)" using Suc.hyps(2) by simp
  have "replicate (length (pr_fsm_rx p)) DriverTask = DriverTask # replicate (length (pr_fsm_rx p1)) DriverTask"
    unfolding Suc.hyps(2) [symmetric] n [symmetric] by simp
  then show ?case using Suc.hyps(1) [OF n p1(2,3)] p1(1,5) by auto
qed


text \<open>
  With the default configuration and free ports a process starts on empty databases if the first address of
  \<^verbatim>\<open>localhost\<close> is an IPv4 address other than 0.0.0.0, or the IPv6 address \<^verbatim>\<open>::1\<close>.
\<close>

lemma default_process_starts:
  assumes "chain_db_ok E cdb" and "store_ok S db" and "a = V6 1 \<or> (\<exists>w. a = V4 w \<and> w \<noteq> 0)"
  shows "\<exists>config p. josefine_config_default (Inr (a # as)) t1 t2 t3 = Inr config
    \<and> josefine_run E I (\<lambda>_. True) (Inr db) (Inr cdb) config = Inr p"
proof -
  obtain r where r: "config_default (Some a) t1 = Inr r" "config_validate r = Inr ()"
    using assms(3) by (auto simp: config_default_def config_validate_def to_ipv4_def MAX_PROTOCOL_VERSION_def
        from_millis_def from_secs_def expectE_def)
  then obtain config where "josefine_config_default (Inr (a # as)) t1 t2 t3 = Inr config" "jc_raft config = r"
    by (simp add: josefine_config_default_def broker_config_default_def resolve_def)
  with r(2) josefine_run_ok [OF assms(1,2), of config] show ?thesis by (metis (full_types))
qed

text \<open>
  (C6) A process stays well formed.  However its tasks are scheduled and whatever well-formed messages reach it, as long as no task
  fails: the raft node, the driver and the metadata keep their invariants, every message that waits in a channel or is queued for another node
  is well formed, and no queue holds more than its capacity.  The database it leaves is one it can be started from again.
\<close>

theorem process_stays_well_formed:
  assumes "chain_db_ok E cdb" and "store_ok S db" and "josefine_run E I bind (Inr db) (Inr cdb) config = Inr p"
    and "\<forall>t \<in> set ts. task_ok t" and "run_steps (task_step E S) p ts = Inr p'"
  shows "process_ok E S p' \<and> chain_db_ok E (ch_db (h_chain (sv_raft (pr_server p'))))"
proof -
  have ok: "process_ok E S p'" using process_reachable [OF assms] by simp
  then have "chain_ok E (h_chain (sv_raft (pr_server p')))" "nexts_ok E (h_chain (sv_raft (pr_server p')))"
    by (simp_all add: process_ok_def server_ok_def handle_chain_ok)
  with ok show ?thesis using assms(1) by (auto simp: chain_db_ok_def)
qed

text \<open>
  (C7) The driver catches up.  At any moment of any schedule, if from then on only the driver runs, it takes every instruction that waits without
  failing, and the topics and partitions of the store are then the ones that the data the raft node has applied since the start gives, in order.
\<close>

theorem driver_catches_up:
  assumes "chain_db_ok E cdb" and "store_ok S db" and "josefine_run E I bind (Inr db) (Inr cdb) config = Inr p"
    and "\<forall>t \<in> set ts. task_ok t" and "run_steps (task_step E S) p ts = Inr p'"
  shows "\<exists>q. run_steps (task_step E S) p' (replicate (length (pr_fsm_rx p')) DriverTask) = Inr q
    \<and> pr_fsm_rx q = [] \<and> pr_server q = pr_server p'
    \<and> metadata S (drv_fsm (pr_driver q)) =
        fold metadata_step (List.map_filter (de_transition S) (applied (sent (h_fsm (sv_raft (pr_server p')))))) (metadata S db)"
proof -
  obtain q where q: "run_steps (task_step E S) p' (replicate (length (pr_fsm_rx p')) DriverTask) = Inr q"
    "fed S (driver_new unbounded_channel db) q" "pr_fsm_rx q = []" "pr_server q = pr_server p'"
    using driver_drains process_reachable [OF assms] by metis
  then have "driver_run (josefine_transition S) (driver_new unbounded_channel db) (sent (h_fsm (sv_raft (pr_server p')))) = Inr (pr_driver q)"
    by (auto simp: fed_def)
  then show ?thesis
    using q driver_replays_metadata [of S "driver_new unbounded_channel db" "sent (h_fsm (sv_raft (pr_server p')))"] assms(2)
    by (auto simp: driver_new_def unbounded_channel_def)
qed

section \<open>A run of a process\<close>

text \<open>Node 1 of two asks node 2 for its vote and keeps a proposal.\<close>

definition demo_process_config :: josefine_config where
  "demo_process_config = \<lparr>jc_raft = demo_config 1 [2], jc_broker = br_config demo_broker\<rparr>"

definition demo_tasks :: "task list" where
  "demo_tasks = [Submit (Proposal [1]) 0, TickTask (demo_input (from_millis 900)), RpcTask (demo_input (from_millis 900)) (\<lambda>_. True),
     ClientTask (demo_input (from_millis 901)) 7, SendTask, LinkTask 2 [True], DriverTask]"

definition demo_start :: "(tree, tree) process" where
  "demo_start = projr (josefine_run tree_ext (demo_input 0) (\<lambda>_. True) (Inr RBT.empty) (Inr RBT.empty) demo_process_config)"

definition demo_end :: "(tree, tree) process" where
  "demo_end = projr (run_steps (task_step tree_ext tree_store) demo_start demo_tasks)"

lemma fresh_tree_chain: "chain_new tree_ext (Inr RBT.empty) = Inr tree_chain"
  using chain_new_fresh [OF tree_ext_ok tree_empty_lookup] by (force simp: tree_chain_def)

lemmas process_eval = josefine_run_def raft_server_run_def broker_server_run_def unwrapS_def demo_process_config_def
  handle_new_def follower_new_def config_validate_def follower_init_def MAX_PROTOCOL_VERSION_def from_secs_def
  unbounded_channel_def fresh_tree_chain demo_eval driver_new_def send_task_init_def

lemma demo_process_starts:
  "josefine_run tree_ext (demo_input 0) (\<lambda>_. True) (Inr RBT.empty) (Inr RBT.empty) demo_process_config = Inr demo_start"
  unfolding demo_start_def by (rule Inr_projr) (simp add: process_eval flip: genesis_def)

lemma demo_process_runs: "run_steps (task_step tree_ext tree_store) demo_start demo_tasks = Inr demo_end"
  unfolding demo_end_def demo_start_def demo_tasks_def
  by (rule Inr_projr) (simp add: process_eval loop_step_def new_items_def server_apply_def on_rpc_def on_client_def forward_def chan_send_def
     message_new_def push_rpc_def candidate_apply_client_request_def send_message_def send_to_def try_send_def channel_capacity_def Let_def flip: genesis_def)

lemma demo_chain_db: "chain_db_ok tree_ext RBT.empty"
  by (simp add: chain_db_ok_def tree_ext_ok tree_empty_lookup)

lemma demo_tasks_ok: "\<forall>t \<in> set demo_tasks. task_ok t"
  by (simp add: demo_tasks_def)


theorem process_stays_well_formed_witness:
  "process_ok tree_ext tree_store demo_end \<and> chain_db_ok tree_ext (ch_db (h_chain (sv_raft (pr_server demo_end))))"
  by (rule process_stays_well_formed [OF demo_chain_db empty_store_ok demo_process_starts demo_tasks_ok demo_process_runs])

theorem driver_catches_up_witness:
  "\<exists>q. run_steps (task_step tree_ext tree_store) demo_end (replicate (length (pr_fsm_rx demo_end)) DriverTask) = Inr q
    \<and> pr_fsm_rx q = [] \<and> pr_server q = pr_server demo_end"
  using driver_catches_up [OF demo_chain_db empty_store_ok demo_process_starts demo_tasks_ok demo_process_runs] by blast

end
