(* ===== verification/Lone_Process.thy ===== *)
theory Lone_Process
  imports Process
begin

text \<open>
  A process that is alone in its cluster, from its start on empty databases to the broker on top of it: the interface the handlers
  of the broker rely on is discharged for the tasks of the process, with ticks of the clock in between.
\<close>

section \<open>A proposal through the tasks\<close>

text \<open>
  The broker hands the proposal to the event loop and waits.  The clock ticks any number of times before the loop takes the proposal, the driver takes the
  instructions of the raft node, and the loop takes everything that waits for it, the answer of the driver at the end.
\<close>

definition process_propose ::
  "'e ext \<Rightarrow> 'd store_env \<Rightarrow> (nat \<Rightarrow> input list) \<Rightarrow> (nat \<Rightarrow> input) \<Rightarrow> (nat \<Rightarrow> client_request_id) \<Rightarrow>
   ('e, 'd) process \<Rightarrow> bytes \<Rightarrow> (('e, 'd) process \<times> bytes) res" where
  "process_propose E S ticks inp rid p v =
     (let c = length (sv_replies (pr_server p))
      in bindE (run_steps (task_step E S) p
           (Submit (Proposal v) c # map TickTask (ticks c) @ [ClientTask (inp c) (rid c), DriverTask, DriverTask])) (\<lambda>p1.
         bindE (run_steps (task_step E S) p1 (replicate (length (pr_rpc_rx p1)) (RpcTask (inp c) (\<lambda>_. True)))) (\<lambda>p2.
         bindE (client_propose True (map_of (sv_replies (pr_server p2)) c)) (\<lambda>out. Inr (p2, out)))))"

section \<open>A leader alone in its process\<close>

definition leads_alone :: "'e ext \<Rightarrow> nat \<Rightarrow> ('e, 'd) process \<Rightarrow> bool" where
  "leads_alone E k p \<longleftrightarrow>
     (\<exists>r. sv_raft (pr_server p) = Leader r \<and> lone_ok E k r \<and> rc_nodes (rf_config r) = [] \<and> rx_alive (rpc_tx r))
   \<and> rx_alive (sv_tcp_tx (pr_server p)) \<and> rx_alive (drv_rpc_tx (pr_driver p))
   \<and> (\<forall>x \<in> set (sv_replies (pr_server p)). fst x < length (sv_replies (pr_server p)))
   \<and> (\<forall>m \<in> set (pr_rpc_rx p). msg_to m = Peers)"

definition idle_alone :: "'e ext \<Rightarrow> nat \<Rightarrow> ('e, 'd) process \<Rightarrow> bool" where
  "idle_alone E k p \<longleftrightarrow> leads_alone E k p \<and> pr_fsm_rx p = [] \<and> pr_client_rx p = []"

text \<open>The debug file of the leader can be written at every tick.\<close>

definition ticks_ok :: "(nat \<Rightarrow> input list) \<Rightarrow> bool" where
  "ticks_ok ticks \<longleftrightarrow> (\<forall>c. list_all state_file_ok (ticks c))"

lemma lone_tick:
  assumes "lone_ok E k r" and "rc_nodes (rf_config r) = []" and "rx_alive (rpc_tx r)" and "state_file_ok I"
  obtains r' ms where "leader_apply E I r Tick = Inr (Leader r')" "lone_ok E k r'" "fsm_tx r' = fsm_tx r"
    "rx_alive (rpc_tx r')" "rf_config r' = rf_config r" "sent (rpc_tx r') = sent (rpc_tx r) @ ms" "\<forall>m \<in> set ms. msg_to m = Peers"
proof -
  let ?hb = "Heartbeat (current_term (rf_state r)) (get_commit (rf_chain r)) (rf_id r)"
  let ?r = "reset_heartbeat_timer I (push_rpc r Peers ?hb)"
  have keep: "lone_ok E k ?r"
    using assms(1) by (auto simp: lone_ok_def reset_heartbeat_timer_def push_rpc_def leader_ok_def heads_stored_def cluster_ids_def)
  have "leader_apply E I r Tick = Inr (Leader (if needs_heartbeat I r then ?r else r))"
    using assms(2-4) by (simp add: leader_apply_tick_def write_state_def leader_heartbeat_def raft_send_all_eq leader_replicate_def
        reset_heartbeat_timer_def push_rpc_def)
  then show ?thesis
    by (rule that [of _ "if needs_heartbeat I r then [message_new (Peer (rf_id r)) Peers ?hb] else []"])
      (use assms keep in \<open>simp_all add: reset_heartbeat_timer_def push_rpc_def message_new_def\<close>)
qed

text \<open>What a tick leaves alone.\<close>

definition same_work :: "('e, 'd) process \<Rightarrow> ('e, 'd) process \<Rightarrow> bool" where
  "same_work p q \<longleftrightarrow> pr_driver q = pr_driver p \<and> pr_fsm_rx q = pr_fsm_rx p \<and> pr_client_rx q = pr_client_rx p
     \<and> sv_replies (pr_server q) = sv_replies (pr_server p) \<and> sv_requests (pr_server q) = sv_requests (pr_server p)"

lemma tick_task_alone:
  assumes "leads_alone E k p" and "state_file_ok I"
  obtains q where "task_step E S p (TickTask I) = Inr q" "leads_alone E k q" "same_work p q"
proof -
  obtain r where r: "sv_raft (pr_server p) = Leader r" "lone_ok E k r" "rc_nodes (rf_config r) = []" "rx_alive (rpc_tx r)"
    using assms(1) by (auto simp: leads_alone_def)
  obtain r' ms where r': "leader_apply E I r Tick = Inr (Leader r')" "lone_ok E k r'" "fsm_tx r' = fsm_tx r"
    "rx_alive (rpc_tx r')" "rf_config r' = rf_config r" "sent (rpc_tx r') = sent (rpc_tx r) @ ms" "\<forall>m \<in> set ms. msg_to m = Peers"
    by (rule lone_tick [OF r(2-4) assms(2)])
  let ?q = "p\<lparr>pr_server := (pr_server p)\<lparr>sv_raft := Leader r'\<rparr>, pr_rpc_rx := pr_rpc_rx p @ ms\<rparr>"
  have "task_step E S p (TickTask I) = Inr ?q"
    using r(1) r'(1,3,6) by (simp add: loop_step_def server_apply_def new_items_def Let_def)
  then show ?thesis
    by (rule that) (use assms(1) r(3) r' in \<open>auto simp: leads_alone_def same_work_def\<close>)
qed

lemma ticks_alone:
  assumes "leads_alone E k p" and "\<forall>I \<in> set is. state_file_ok I"
  obtains q where "run_steps (task_step E S) p (map TickTask is) = Inr q" "leads_alone E k q" "same_work p q"
proof -
  have "\<exists>q. run_steps (task_step E S) p (map TickTask is) = Inr q \<and> leads_alone E k q \<and> same_work p q"
    using assms
  proof (induction "is" arbitrary: p)
    case Nil
    then show ?case by (simp add: same_work_def)
  next
    case (Cons I "is")
    obtain q where q: "task_step E S p (TickTask I) = Inr q" "leads_alone E k q" "same_work p q"
      by (rule tick_task_alone [OF Cons.prems(1), of I S]) (use Cons.prems(2) in simp)
    with Cons.IH [OF q(2)] Cons.prems(2) show ?case by (auto simp: same_work_def)
  qed
  then show ?thesis by (blast intro: that)
qed

text \<open>The loop hands what is addressed to the other nodes to the sending task.\<close>

lemma forward_task:
  assumes "pr_rpc_rx p = m # ms" and "msg_to m = Peers" and "rx_alive (sv_tcp_tx (pr_server p))"
  obtains q where "task_step E S p (RpcTask I listening) = Inr q" "pr_rpc_rx q = ms" "rx_alive (sv_tcp_tx (pr_server q))"
    "same_work p q" "sv_raft (pr_server q) = sv_raft (pr_server p)"
proof -
  let ?s = "(pr_server p)\<lparr>sv_tcp_tx := (sv_tcp_tx (pr_server p))\<lparr>sent := sent (sv_tcp_tx (pr_server p)) @ [m]\<rparr>\<rparr>"
  have "task_step E S p (RpcTask I listening) =
      Inr (p\<lparr>pr_server := ?s, pr_rpc_rx := ms, pr_tcp_out_rx := pr_tcp_out_rx p @ [m]\<rparr>)"
    using assms by (simp add: loop_step_def on_rpc_def forward_def chan_send_def new_items_def Let_def)
  then show ?thesis by (rule that) (use assms(3) in \<open>simp_all add: same_work_def\<close>)
qed

lemma forward_all:
  assumes "pr_rpc_rx p = ms @ [m]" and "\<forall>x \<in> set ms. msg_to x = Peers" and "rx_alive (sv_tcp_tx (pr_server p))"
  shows "\<exists>q. run_steps (task_step E S) p (replicate (length ms) (RpcTask I listening)) = Inr q \<and> pr_rpc_rx q = [m]
    \<and> rx_alive (sv_tcp_tx (pr_server q)) \<and> same_work p q \<and> sv_raft (pr_server q) = sv_raft (pr_server p)"
  using assms
proof (induction ms arbitrary: p)
  case Nil
  then show ?case by (simp add: same_work_def)
next
  case (Cons x ms)
  have "pr_rpc_rx p = x # (ms @ [m])" "msg_to x = Peers" using Cons.prems by simp_all
  then obtain q where q: "task_step E S p (RpcTask I listening) = Inr q" "pr_rpc_rx q = ms @ [m]"
    "rx_alive (sv_tcp_tx (pr_server q))" "same_work p q" "sv_raft (pr_server q) = sv_raft (pr_server p)"
    by (rule forward_task [OF _ _ Cons.prems(3), of x "ms @ [m]" E S I listening])
  with Cons.IH [OF q(2) _ q(3)] Cons.prems(2) show ?case by (auto simp: same_work_def)
qed

lemma client_task_alone:
  assumes "leads_alone E (Suc k) p" and "pr_client_rx p = [(Proposal v, c)]" and "pr_fsm_rx p = []"
  obtains q b where "task_step E S p (ClientTask I rid) = Inr q" "leads_alone E k q" "pr_client_rx q = []"
    "pr_fsm_rx q = [Notify rid Client (blk_id b), Apply b]" "blk_data b = v" "blk_id b \<noteq> BlockId_new 0"
    "pr_driver q = pr_driver p" "sv_replies (pr_server q) = sv_replies (pr_server p)"
    "map_of (sv_requests (pr_server q)) rid = Some (ClientTx c)"
proof -
  obtain r where r: "sv_raft (pr_server p) = Leader r" "lone_ok E (Suc k) r" "rc_nodes (rf_config r) = []" "rx_alive (rpc_tx r)"
    using assms(1) by (auto simp: leads_alone_def)
  let ?req = "\<lparr>cr_id = rid, cr_address = Client, cr_proposal = Proposal v\<rparr>"
  obtain r' b where r': "leader_apply E I r (ClientRequest ?req) = Inr (Leader r')" "lone_ok E k r'"
    "sent (fsm_tx r') = sent (fsm_tx r) @ [Notify (cr_id ?req) (cr_address ?req) (blk_id b), Apply b]"
    "blk_data b = proposal_get (cr_proposal ?req)" "blk_id b \<noteq> BlockId_new 0"
    by (rule lone_serves [OF r(2)])
  note frame = client_request_frame [OF r'(1)]
  let ?s = "(pr_server p)\<lparr>sv_requests := AList.update rid (ClientTx c) (sv_requests (pr_server p)), sv_raft := Leader r'\<rparr>"
  let ?q = "p\<lparr>pr_server := ?s, pr_client_rx := [], pr_fsm_rx := [Notify rid Client (blk_id b), Apply b]\<rparr>"
  have "task_step E S p (ClientTask I rid) = Inr ?q"
    using r(1) r'(1,3) frame(3) assms(2,3) by (simp add: loop_step_def on_client_def server_apply_def new_items_def Let_def)
  then show ?thesis
    by (rule that) (use assms(1) r r' frame in \<open>auto simp: leads_alone_def update_conv'\<close>)
qed

lemma driver_serves:
  assumes "josefine_transition S (drv_fsm d) (blk_data b) = Inr (f, Inr out)" and "rx_alive (drv_rpc_tx d)" and "blk_id b \<noteq> BlockId_new 0"
  obtains d1 d2 where "driver_step (josefine_transition S) d (Notify rid Client (blk_id b)) = Inr d1"
    "driver_step (josefine_transition S) d1 (Apply b) = Inr d2" "drv_rpc_tx d1 = drv_rpc_tx d" "drv_fsm d2 = f" "rx_alive (drv_rpc_tx d2)"
    "sent (drv_rpc_tx d2) = sent (drv_rpc_tx d) @ [message_new Local Client (ClientResponse \<lparr>cs_id = rid, cs_res = Inr (Response out)\<rparr>)]"
proof -
  let ?d = "d\<lparr>drv_notifications := AList.update (blk_id b) (Client, rid) (drv_notifications d)\<rparr>"
  have d: "rx_alive (drv_rpc_tx ?d)" "josefine_transition S (drv_fsm ?d) (blk_data b) = Inr (f, Inr out)" using assms by simp_all
  show ?thesis
    by (rule driver_apply_answers [where tr = "josefine_transition S" and d = ?d and b = b, OF d(1) assms(3) d(2)])
      (auto intro!: that [of ?d] simp: waiting_def update_conv')
qed

lemma driver_tasks_serve:
  assumes "pr_fsm_rx p = [Notify rid Client (blk_id b), Apply b]" and "rx_alive (drv_rpc_tx (pr_driver p))"
    and "josefine_transition S (drv_fsm (pr_driver p)) (blk_data b) = Inr (f, Inr out)" and "blk_id b \<noteq> BlockId_new 0"
  obtains d where "run_steps (task_step E S) p [DriverTask, DriverTask] = Inr (p\<lparr>pr_driver := d, pr_fsm_rx := [],
      pr_rpc_rx := pr_rpc_rx p @ [message_new Local Client (ClientResponse \<lparr>cs_id = rid, cs_res = Inr (Response out)\<rparr>)]\<rparr>)"
    "drv_fsm d = f" "rx_alive (drv_rpc_tx d)"
proof -
  obtain d1 d2 where d: "driver_step (josefine_transition S) (pr_driver p) (Notify rid Client (blk_id b)) = Inr d1"
    "driver_step (josefine_transition S) d1 (Apply b) = Inr d2" "drv_rpc_tx d1 = drv_rpc_tx (pr_driver p)"
    "drv_fsm d2 = f" "rx_alive (drv_rpc_tx d2)" "sent (drv_rpc_tx d2) = sent (drv_rpc_tx (pr_driver p))
       @ [message_new Local Client (ClientResponse \<lparr>cs_id = rid, cs_res = Inr (Response out)\<rparr>)]"
    by (rule driver_serves [OF assms(3,2,4), of rid])
  show ?thesis
    by (rule that [OF _ d(4,5)]) (use assms(1) d in \<open>simp add: new_items_def del: driver_step.simps\<close>)
qed

lemma answer_task:
  assumes "pr_rpc_rx p = [message_new Local Client (ClientResponse \<lparr>cs_id = rid, cs_res = res\<rparr>)]"
    and "map_of (sv_requests (pr_server p)) rid = Some (ClientTx c)"
  shows "task_step E S p (RpcTask I (\<lambda>_. True)) = Inr (p\<lparr>pr_rpc_rx := [], pr_server := (pr_server p)
    \<lparr>sv_requests := AList.delete rid (sv_requests (pr_server p)), sv_replies := sv_replies (pr_server p) @ [(c, res)]\<rparr>\<rparr>)"
  using assms by (simp add: loop_step_def on_rpc_def answer_def message_new_def new_items_def Let_def)

text \<open>A proposal is committed, applied and answered.\<close>

lemma process_proposes:
  assumes "idle_alone E (Suc k) p" and "ticks_ok ticks"
    and "josefine_transition S (drv_fsm (pr_driver p)) v = Inr (f, Inr out)"
  shows "\<exists>p'. process_propose E S ticks inp rid p v = Inr (p', out) \<and> idle_alone E k p' \<and> drv_fsm (pr_driver p') = f"
proof -
  let ?c = "length (sv_replies (pr_server p))"
  let ?m = "message_new Local Client (ClientResponse \<lparr>cs_id = rid ?c, cs_res = Inr (Response out)\<rparr>)"
  let ?p0 = "p\<lparr>pr_client_rx := [(Proposal v, ?c)]\<rparr>"
  have idle: "leads_alone E (Suc k) p" "pr_fsm_rx p = []" "pr_client_rx p = []" using assms(1) by (simp_all add: idle_alone_def)
  then have p0: "leads_alone E (Suc k) ?p0" by (simp add: leads_alone_def)
  obtain p1 where p1: "run_steps (task_step E S) ?p0 (map TickTask (ticks ?c)) = Inr p1" "leads_alone E (Suc k) p1" "same_work ?p0 p1"
    by (rule ticks_alone [OF p0]) (use assms(2) in \<open>auto simp: ticks_ok_def list_all_iff\<close>)
  have w1: "pr_client_rx p1 = [(Proposal v, ?c)]" "pr_fsm_rx p1 = []" "pr_driver p1 = pr_driver p"
    "sv_replies (pr_server p1) = sv_replies (pr_server p)"
    using p1(3) idle by (simp_all add: same_work_def)
  obtain p2 b where p2: "task_step E S p1 (ClientTask (inp ?c) (rid ?c)) = Inr p2" "leads_alone E k p2" "pr_client_rx p2 = []"
    "pr_fsm_rx p2 = [Notify (rid ?c) Client (blk_id b), Apply b]" "blk_data b = v" "blk_id b \<noteq> BlockId_new 0"
    "pr_driver p2 = pr_driver p1" "sv_replies (pr_server p2) = sv_replies (pr_server p1)"
    "map_of (sv_requests (pr_server p2)) (rid ?c) = Some (ClientTx ?c)"
    by (rule client_task_alone [OF p1(2) w1(1,2)])
  have d: "rx_alive (drv_rpc_tx (pr_driver p2))" "josefine_transition S (drv_fsm (pr_driver p2)) (blk_data b) = Inr (f, Inr out)"
    using p2(2,5,7) w1(3) assms(3) by (simp_all add: leads_alone_def)
  obtain d' where d': "run_steps (task_step E S) p2 [DriverTask, DriverTask] =
      Inr (p2\<lparr>pr_driver := d', pr_fsm_rx := [], pr_rpc_rx := pr_rpc_rx p2 @ [?m]\<rparr>)" "drv_fsm d' = f" "rx_alive (drv_rpc_tx d')"
    by (rule driver_tasks_serve [OF p2(4) d p2(6)])
  let ?p3 = "p2\<lparr>pr_driver := d', pr_fsm_rx := [], pr_rpc_rx := pr_rpc_rx p2 @ [?m]\<rparr>"
  obtain p4 where p4: "run_steps (task_step E S) ?p3 (replicate (length (pr_rpc_rx p2)) (RpcTask (inp ?c) (\<lambda>_. True))) = Inr p4"
    "pr_rpc_rx p4 = [?m]" "rx_alive (sv_tcp_tx (pr_server p4))" "same_work ?p3 p4" "sv_raft (pr_server p4) = sv_raft (pr_server ?p3)"
    using forward_all [of ?p3 "pr_rpc_rx p2" ?m E S "inp ?c" "\<lambda>_. True"] p2(2) by (auto simp: leads_alone_def)
  have w4: "map_of (sv_requests (pr_server p4)) (rid ?c) = Some (ClientTx ?c)" "sv_replies (pr_server p4) = sv_replies (pr_server p)"
    "pr_driver p4 = d'" "pr_fsm_rx p4 = []" "pr_client_rx p4 = []"
    using p4(4) p2(3,8,9) w1(4) by (simp_all add: same_work_def)
  let ?p5 = "p4\<lparr>pr_rpc_rx := [], pr_server := (pr_server p4)\<lparr>sv_requests := AList.delete (rid ?c) (sv_requests (pr_server p4)),
    sv_replies := sv_replies (pr_server p4) @ [(?c, Inr (Response out))]\<rparr>\<rparr>"
  have p5: "task_step E S p4 (RpcTask (inp ?c) (\<lambda>_. True)) = Inr ?p5" by (rule answer_task [OF p4(2) w4(1)])
  have first: "run_steps (task_step E S) p (Submit (Proposal v) ?c # map TickTask (ticks ?c)
      @ [ClientTask (inp ?c) (rid ?c), DriverTask, DriverTask]) = Inr ?p3"
    using p1(1) p2(1) d'(1) idle(3) by (simp add: run_steps_append del: task_step.simps(1-6)) 
  have second: "run_steps (task_step E S) ?p3 (replicate (length (pr_rpc_rx ?p3)) (RpcTask (inp ?c) (\<lambda>_. True))) = Inr ?p5"
    using p4(1) p5 by (simp add: run_steps_append replicate_append_same [symmetric] del: task_step.simps)
  have "map_of (sv_replies (pr_server p)) ?c = None"
    using idle(1) by (fastforce simp: leads_alone_def map_of_eq_None_iff)
  then have "map_of (sv_replies (pr_server ?p5)) ?c = Some (Inr (Response out))"
    using w4(2) by (simp add: map_add_def)
  then have "process_propose E S ticks inp rid p v = Inr (?p5, out)"
    unfolding process_propose_def Let_def first bindE_simps second by (simp add: client_propose_def client_request_result_def)
  moreover have "leads_alone E k ?p5" using p2(2,8) w1(4) w4(2,3) d'(3) p4(3,5) by (auto simp: leads_alone_def)
  ultimately show ?thesis using w4 d'(2) by (intro exI [of _ ?p5]) (simp add: idle_alone_def)
qed

interpretation lone_process: replicated_store "\<lambda>k p. idle_alone E k p \<and> ticks_ok ticks" S
    "\<lambda>p. drv_fsm (pr_driver p)" "process_propose E S ticks inp rid"
  for E :: "'e ext" and S :: "'d store_env" and ticks :: "nat \<Rightarrow> input list" and inp :: "nat \<Rightarrow> input" and rid :: "nat \<Rightarrow> client_request_id"
  by unfold_locales (metis process_proposes)

section \<open>From the start to the first leader\<close>

lemma josefine_run_follower:
  assumes "josefine_run E I bind (Inr db) (Inr cdb) config = Inr p"
  obtains r where "sv_raft (pr_server p) = Follower r" "chain_new E (Inr cdb) = Inr (rf_chain r)" "timeouts_ok r"
    "rf_config r = jc_raft config" "voted_for (rf_state r) = None" "current_term (rf_state r) = 0"
    "rpc_tx r = unbounded_channel" "fsm_tx r = unbounded_channel" "election_time (rf_state r) = Some (now I)"
    "election_timeout (rf_state r) = Some (from_millis (rng I 500 1000))"
    "sv_replies (pr_server p) = []" "sv_tcp_tx (pr_server p) = unbounded_channel" "pr_driver p = driver_new unbounded_channel db"
    "pr_rpc_rx p = []" "pr_fsm_rx p = []" "pr_client_rx p = []" "pr_replicas p = replicas_new"
proof -
  obtain c where c: "chain_new E (Inr cdb) = Inr c"
    and p: "handle_new E I (Inr cdb) (jc_raft config) unbounded_channel unbounded_channel = Inr (sv_raft (pr_server p))"
      "sv_replies (pr_server p) = []" "sv_tcp_tx (pr_server p) = unbounded_channel" "pr_driver p = driver_new unbounded_channel db"
      "pr_rpc_rx p = []" "pr_fsm_rx p = []" "pr_client_rx p = []" "pr_replicas p = replicas_new"
    using assms by (auto simp: josefine_run_def raft_server_run_def broker_server_run_def unwrapS_def bindE_Inr handle_new_def
        follower_new_def split: if_splits sum.splits)
  let ?r = "\<lparr>rf_id = rc_id (jc_raft config), rf_config = jc_raft config, rf_state = state_default
        \<lparr>election_timeout := Some (from_millis (rng I 500 1000)), election_time := Some (now I)\<rparr>,
      rf_role = \<lparr>fl_leader_id = None, fl_proxied_reqs = {}, fl_queued_reqs = []\<rparr>,
      rf_chain = c, rpc_tx = unbounded_channel, fsm_tx = unbounded_channel\<rparr>"
  have "sv_raft (pr_server p) = Follower ?r"
    using p(1) josefine_run_Inr(1) [OF assms] c
    by (simp add: handle_new_def follower_new_def follower_init_def set_election_timeout_def get_randomized_timeout_def state_default_def)
  then show ?thesis by (rule that) (use c p in \<open>simp_all add: timeouts_ok_def state_default_def\<close>)
qed

text \<open>The first tick after the election timeout makes a lone process the leader.\<close>

lemma lone_process_elected:
  assumes "ext_ok E" and "db_lookup (sled E) cdb = Map.empty" and "josefine_run E I bind (Inr db) (Inr cdb) config = Inr p"
    and "rc_nodes (jc_raft config) = []" and "now I + from_millis (rng I 500 1000) < now J"
  obtains q where "task_step E S p (TickTask J) = Inr q" "idle_alone E (2 ^ 62 - 1) q"
    "pr_driver q = driver_new unbounded_channel db" "pr_replicas q = replicas_new" "is_leader (sv_raft (pr_server q))"
proof -
  obtain r where r: "sv_raft (pr_server p) = Follower r" "chain_new E (Inr cdb) = Inr (rf_chain r)" "timeouts_ok r"
    "rf_config r = jc_raft config" "voted_for (rf_state r) = None" "current_term (rf_state r) = 0"
    "rpc_tx r = unbounded_channel" "fsm_tx r = unbounded_channel" "election_time (rf_state r) = Some (now I)"
    "election_timeout (rf_state r) = Some (from_millis (rng I 500 1000))"
    and p: "sv_replies (pr_server p) = []" "sv_tcp_tx (pr_server p) = unbounded_channel" "pr_driver p = driver_new unbounded_channel db"
      "pr_rpc_rx p = []" "pr_fsm_rx p = []" "pr_client_rx p = []" "pr_replicas p = replicas_new"
    by (rule josefine_run_follower [OF assms(3)])
  have pre: "rc_nodes (rf_config r) = []" "rx_alive (rpc_tx r)" "rx_alive (fsm_tx r)"
    "unat (current_term (rf_state r)) + 1 < 2 ^ 64" "needs_election J r"
    using r assms(4,5) by (simp_all add: unbounded_channel_def needs_election_def)
  obtain l where l: "handle_apply E J (Follower r) Tick = Inr (Leader l)" "lone_ok E (2 ^ 62 - 1) l"
    "rf_config l = rf_config r" "fsm_tx l = fsm_tx r" "rx_alive (rpc_tx l)"
    "sent (rpc_tx l) = sent (rpc_tx r) @ [message_new (Peer (rf_id r)) Peers
       (Heartbeat (current_term (rf_state r) + 1) (get_commit (rf_chain r)) (rf_id r))]"
    by (rule fresh_elected [OF assms(1,2) r(2,3) pre(1) r(5) pre(2-5)])
  let ?q = "p\<lparr>pr_server := (pr_server p)\<lparr>sv_raft := Leader l\<rparr>, pr_rpc_rx := [message_new (Peer (rf_id r)) Peers
       (Heartbeat (current_term (rf_state r) + 1) (get_commit (rf_chain r)) (rf_id r))]\<rparr>"
  have "task_step E S p (TickTask J) = Inr ?q"
    using r(1) l(1,4,6) p(4,5) by (simp add: loop_step_def server_apply_def new_items_def Let_def del: handle_apply.simps)
  then show ?thesis
    by (rule that) (use l r(4) pre(1) p in \<open>simp_all add: idle_alone_def leads_alone_def unbounded_channel_def driver_new_def message_new_def\<close>)
qed

section \<open>Property\<close>


definition lone_config :: josefine_config where
  "lone_config = \<lparr>jc_raft = demo_config 1 [], jc_broker = br_config demo_broker\<rparr>"

definition lone_broker :: "((tree, tree) process, tree) broker_env" where
  "lone_broker = \<lparr>br_store = tree_store, br_db = (\<lambda>p. drv_fsm (pr_driver p)),
     br_propose = process_propose tree_ext tree_store (\<lambda>c. [demo_input (from_millis 1200)]) (\<lambda>c. demo_input (from_millis 1300)) word_of_nat,
     br_send = (\<lambda>w b r. Inl (Error ''no connection'')), br_kafka = demo_kafka, br_log = std_log_env True,
     br_dir = (\<lambda>u. Some (\<lambda>_. Some [])), br_config = br_config demo_broker\<rparr>"


end
