(* ===== verification/Tracing.thy ===== *)
theory Tracing
  imports Process
begin

text \<open>
  What the node prints of itself: the \<^verbatim>\<open>Debug\<close> and \<^verbatim>\<open>Display\<close> implementations of \<^verbatim>\<open>raft/mod.rs\<close>, \<^verbatim>\<open>raft/chain.rs\<close> and
  \<^verbatim>\<open>raft/rpc.rs\<close>, which the tracing attributes of the handlers evaluate, and \<^verbatim>\<open>log_command\<close>.  Printing can panic, so it is part of
  what a handler does.  How the uuid crate prints an identifier is the parameter \<open>ud\<close>.
\<close>

section \<open>Formatting of the standard library\<close>

definition show_list :: "string list \<Rightarrow> string" where
  "show_list xs = ''['' @ concat (case xs of [] \<Rightarrow> [] | x # ys \<Rightarrow> x # map (\<lambda>y. '', '' @ y) ys) @ '']''"

definition show_bytes :: "bytes \<Rightarrow> string" where
  "show_bytes bs = show_list (map (\<lambda>b. dec_nat (unat b)) bs)"

definition show_u32 :: "u32 \<Rightarrow> string" where
  "show_u32 w = dec_nat (unat w)"

definition show_bool :: "bool \<Rightarrow> string" where
  "show_bool b = (if b then ''true'' else ''false'')"

definition show_option :: "('a \<Rightarrow> string) \<Rightarrow> 'a option \<Rightarrow> string" where
  "show_option f x = (case x of None \<Rightarrow> ''None'' | Some v \<Rightarrow> ''Some('' @ f v @ '')'')"

text \<open>A derived \<^verbatim>\<open>Debug\<close>: the name and the fields in braces.\<close>

definition show_struct :: "string \<Rightarrow> (string \<times> string) list \<Rightarrow> string" where
  "show_struct name fs =
     name @ '' { '' @ concat (case map (\<lambda>(k, v). k @ '': '' @ v) fs of
       [] \<Rightarrow> [] | x # ys \<Rightarrow> x # map (\<lambda>y. '', '' @ y) ys) @ '' }''"

text \<open>
  \<^verbatim>\<open>Debug\<close> of a duration: the largest unit that is not zero, and the decimal places of the rest without zeros at the end.
  The micro sign is two bytes.
\<close>

fun decimals :: "nat \<Rightarrow> nat \<Rightarrow> string" where
  "decimals 0 rest = []"
| "decimals (Suc n) rest = (if rest = 0 then [] else dec_digit (rest div 10 ^ n) # decimals n (rest mod 10 ^ n))"

definition show_decimal :: "nat \<Rightarrow> nat \<Rightarrow> nat \<Rightarrow> string" where
  "show_decimal whole rest places = dec_nat whole @ (if rest = 0 then [] else ''.'' @ decimals places rest)"

definition duration_debug :: "duration \<Rightarrow> string" where
  "duration_debug d =
     (if 10 ^ 9 \<le> d then show_decimal (d div 10 ^ 9) (d mod 10 ^ 9) 9 @ ''s''
      else if 10 ^ 6 \<le> d then show_decimal (d div 10 ^ 6) (d mod 10 ^ 6) 6 @ ''ms''
      else if 10 ^ 3 \<le> d then show_decimal (d div 10 ^ 3) (d mod 10 ^ 3) 3 @ [char_of (194 :: nat), char_of (181 :: nat)] @ ''s''
      else dec_nat d @ ''ns'')"

section \<open>Blocks and the chain\<close>

definition block_id_debug :: "block_id \<Rightarrow> string res" where
  "block_id_debug i =
     bindE (expectE (u64_of_bytes (bid_bytes i)) ''unwrap'') (\<lambda>w. Inr (''BlockId('' @ dec_u64 w @ '')''))"

definition block_debug :: "block \<Rightarrow> string res" where
  "block_debug b =
     bindE (block_id_debug (blk_id b)) (\<lambda>i.
     bindE (block_id_debug (blk_next b)) (\<lambda>n.
     Inr (show_struct ''Block'' [(''id'', i), (''next'', n), (''data'', show_bytes (blk_data b))])))"

definition chain_debug :: "'db chain \<Rightarrow> string res" where
  "chain_debug c =
     bindE (block_id_debug (ch_commit c)) (\<lambda>cm.
     bindE (block_id_debug (ch_head c)) (\<lambda>hd'.
     Inr (show_struct ''Chain'' [(''id_gen'', show_struct ''IdGenerator'' [(''id'', dec_u64 (ch_id_gen c))]),
       (''commit'', cm), (''head'', hd')])))"

section \<open>Commands\<close>

fun address_debug :: "address \<Rightarrow> string" where
  "address_debug Peers = ''Peers''"
| "address_debug (Peer n) = ''Peer('' @ show_u32 n @ '')''"
| "address_debug Local = ''Local''"
| "address_debug Client = ''Client''"

definition client_request_debug :: "(uuid \<Rightarrow> string) \<Rightarrow> client_request \<Rightarrow> string" where
  "client_request_debug ud r = show_struct ''ClientRequest''
     [(''id'', ud (cr_id r)), (''address'', address_debug (cr_address r)),
      (''proposal'', ''Proposal('' @ show_bytes (proposal_get (cr_proposal r)) @ '')'')]"

definition client_response_debug :: "(uuid \<Rightarrow> string) \<Rightarrow> client_response \<Rightarrow> string" where
  "client_response_debug ud r = show_struct ''ClientResponse''
     [(''id'', ud (cs_id r)), (''res'', case cs_res r of
        Inr d \<Rightarrow> ''Ok(Response('' @ show_bytes (response_get d) @ ''))''
      | Inl e \<Rightarrow> ''Err(ResponseError)'')]"

definition response_error_display :: "response_error \<Rightarrow> string" where
  "response_error_display e = ''ResponseError''"

fun command_debug :: "(uuid \<Rightarrow> string) \<Rightarrow> command \<Rightarrow> string res" where
  "command_debug ud Tick = Inr ''Tick''"
| "command_debug ud Propose = Inr ''Propose''"
| "command_debug ud (VoteRequest t c lt h) =
     bindE (block_id_debug h) (\<lambda>i. Inr (show_struct ''VoteRequest''
       [(''term'', dec_u64 t), (''candidate_id'', show_u32 c), (''last_term'', dec_u64 lt), (''head'', i)]))"
| "command_debug ud (VoteResponse t n g) = Inr (show_struct ''VoteResponse''
     [(''term'', dec_u64 t), (''from'', show_u32 n), (''granted'', show_bool g)])"
| "command_debug ud (AppendEntries t l bs) =
     bindE (forceE (map block_debug bs)) (\<lambda>xs. Inr (show_struct ''AppendEntries''
       [(''term'', dec_u64 t), (''leader_id'', show_u32 l), (''blocks'', show_list xs)]))"
| "command_debug ud (AppendResponse n t h s) =
     bindE (block_id_debug h) (\<lambda>i. Inr (show_struct ''AppendResponse''
       [(''node_id'', show_u32 n), (''term'', dec_u64 t), (''head'', i), (''success'', show_bool s)]))"
| "command_debug ud (Heartbeat t c l) =
     bindE (block_id_debug c) (\<lambda>i. Inr (show_struct ''Heartbeat''
       [(''term'', dec_u64 t), (''commit'', i), (''leader_id'', show_u32 l)]))"
| "command_debug ud (HeartbeatResponse c h) =
     bindE (block_id_debug c) (\<lambda>i. Inr (show_struct ''HeartbeatResponse''
       [(''commit'', i), (''has_committed'', show_bool h)]))"
| "command_debug ud Timeout = Inr ''Timeout''"
| "command_debug ud Noop = Inr ''Noop''"
| "command_debug ud (ClientRequest r) = Inr (''ClientRequest('' @ client_request_debug ud r @ '')'')"
| "command_debug ud (ClientResponse r) = Inr (''ClientResponse('' @ client_response_debug ud r @ '')'')"

definition command_display :: "(uuid \<Rightarrow> string) \<Rightarrow> command \<Rightarrow> string res" where
  "command_display ud cmd = command_debug ud cmd"

text \<open>
  A command is formatted only when its level is enabled; what is printed is the result.
\<close>

datatype level = TraceLevel | DebugLevel

fun command_level :: "command \<Rightarrow> level" where
  "command_level Tick = TraceLevel"
| "command_level (Heartbeat t c l) = TraceLevel"
| "command_level (HeartbeatResponse c h) = TraceLevel"
| "command_level (AppendEntries t l bs) = TraceLevel"
| "command_level (AppendResponse n t h s) = TraceLevel"
| "command_level cmd = DebugLevel"

definition log_command :: "(level \<Rightarrow> bool) \<Rightarrow> (uuid \<Rightarrow> string) \<Rightarrow> command \<Rightarrow> (level \<times> string) option res" where
  "log_command enabled ud cmd =
     (if enabled (command_level cmd)
      then bindE (command_display ud cmd) (\<lambda>s. Inr (Some (command_level cmd, s))) else Inr None)"

section \<open>The state of a node\<close>

text \<open>
  The clock is read twice, first for the comparison and then for the subtraction, which panics when its result would be negative.
\<close>

definition remaining_timeout :: "instant \<Rightarrow> instant \<Rightarrow> raft_state \<Rightarrow> duration res" where
  "remaining_timeout now1 now2 s =
     (case (election_time s, election_timeout s) of
        (Some time, Some timeout) \<Rightarrow>
          (if timeout > now1 - time then
             (if now2 - time \<le> timeout then Inr (timeout - (now2 - time))
              else Inl (Panic ''overflow when subtracting durations''))
           else Inr 0)
      | _ \<Rightarrow> Inr 0)"

definition state_debug :: "instant \<Rightarrow> instant \<Rightarrow> raft_state \<Rightarrow> string res" where
  "state_debug now1 now2 s =
     bindE (remaining_timeout now1 now2 s) (\<lambda>timeout. Inr (show_struct ''State''
       [(''current_term'', dec_u64 (current_term s)), (''voted_for'', show_option show_u32 (voted_for s)),
        (''timeout'', duration_debug timeout)]))"

definition raft_debug :: "instant \<Rightarrow> instant \<Rightarrow> ('db, 'r) raft \<Rightarrow> string res" where
  "raft_debug now1 now2 r =
     bindE (state_debug now1 now2 (rf_state r)) (\<lambda>s. Inr (show_struct ''Raft'' [(''id'', show_u32 (rf_id r)), (''state'', s)]))"

section \<open>When printing panics\<close>

lemma block_id_debug_Inr: "(\<exists>s. block_id_debug i = Inr s) \<longleftrightarrow> id_ok i"
  by (simp add: block_id_debug_def u64_of_bytes_def id_ok_def)

lemma block_id_debug_fails: "block_id_debug i = Inl e \<longleftrightarrow> \<not> id_ok i \<and> e = Panic ''unwrap''"
  by (auto simp: block_id_debug_def u64_of_bytes_def id_ok_def)

lemma block_debug_fails: "block_debug b = Inl e \<longleftrightarrow> \<not> (id_ok (blk_id b) \<and> id_ok (blk_next b)) \<and> e = Panic ''unwrap''"
  using block_id_debug_Inr [of "blk_id b"] by (auto simp: block_debug_def bindE_Inl block_id_debug_fails)

lemma blocks_debug_fails:
  "forceE (map block_debug bs) = Inl e \<longleftrightarrow> \<not> (\<forall>b \<in> set bs. id_ok (blk_id b) \<and> id_ok (blk_next b)) \<and> e = Panic ''unwrap''"
proof (induction bs)
  case (Cons b bs)
  show ?case
  proof (cases "block_debug b")
    case (Inl x)
    then have "\<not> (id_ok (blk_id b) \<and> id_ok (blk_next b))" "x = Panic ''unwrap''" by (auto simp only: block_debug_fails)
    then show ?thesis using Inl by auto
  next
    case (Inr x)
    then have "id_ok (blk_id b)" "id_ok (blk_next b)" using block_debug_fails [of b "Panic ''unwrap''"] by simp_all
    then show ?thesis using Inr Cons by (simp add: bindE_Inl)
  qed
qed simp

text \<open>
  (C40) Printing a command.  The attribute of the \<^verbatim>\<open>apply\<close> functions and \<^verbatim>\<open>log_command\<close> print every command a node handles, whoever sent it.
  Printing succeeds exactly when every block identifier in the command is eight bytes long, and panics otherwise.  Every command that waits in a channel of a process
  whose connections deliver only such commands can be printed, under every schedule of its tasks.
\<close>

theorem command_prints_exactly:
  "(\<forall>cmd e. command_debug ud cmd = Inl e \<longleftrightarrow> \<not> cmd_ok cmd \<and> e = Panic ''unwrap'')
   \<and> (\<forall>p m. process_ok E S p \<and> m \<in> set (pr_rpc_rx p @ pr_tcp_rx p @ pr_tcp_out_rx p) \<longrightarrow>
        (\<exists>l. log_command enabled ud (msg_command m) = Inr l))"
proof -
  have debug: "command_debug ud cmd = Inl e \<longleftrightarrow> \<not> cmd_ok cmd \<and> e = Panic ''unwrap''" for cmd e
    by (cases cmd) (simp_all add: bindE_Inl block_id_debug_fails blocks_debug_fails)
  moreover have "\<exists>l. log_command enabled ud cmd = Inr l" if "cmd_ok cmd" for cmd
    using debug [of cmd] that
    by (cases "command_debug ud cmd") (auto simp: log_command_def command_display_def)
  ultimately show ?thesis by (auto simp: process_ok_def msgs_ok_def)
qed

text \<open>
  (C28) Printing the state of a node.  It panics exactly when the election timeout passes between the two times the clock is read; otherwise
  the time it prints is what is left of the timeout at the second reading, or zero when the timeout had passed at the first.
\<close>

theorem state_print_races_clock:
  assumes "election_time s = Some time" and "election_timeout s = Some timeout" and "time \<le> now1" and "now1 \<le> now2"
  shows "state_debug now1 now2 s =
    (if now1 < time + timeout \<and> time + timeout < now2 then Inl (Panic ''overflow when subtracting durations'')
     else Inr (''State { current_term: '' @ dec_u64 (current_term s) @ '', voted_for: '' @ show_option show_u32 (voted_for s)
       @ '', timeout: '' @ duration_debug (time + timeout - now2) @ '' }''))"
proof -
  have r: "remaining_timeout now1 now2 s = (if now1 < time + timeout \<and> time + timeout < now2
      then Inl (Panic ''overflow when subtracting durations'') else Inr (time + timeout - now2))"
    using assms by (auto simp: remaining_timeout_def)
  show ?thesis unfolding state_debug_def r by (simp add: show_struct_def)
qed

theorem state_print_races_clock_witness:
  "state_debug 499 501 (state_default\<lparr>election_time := Some 0, election_timeout := Some 500\<rparr>) =
     Inl (Panic ''overflow when subtracting durations'')
   \<and> state_debug 498 499 (state_default\<lparr>election_time := Some 0, election_timeout := Some 500\<rparr>) =
     Inr ''State { current_term: 0, voted_for: None, timeout: 1ns }''"
proof -
  let ?s = "state_default\<lparr>election_time := Some 0, election_timeout := Some 500\<rparr>"
  have digits: "dec_nat (Suc 0) = ''1''" "dec_u64 0 = ''0''" by code_simp+
  have "duration_debug (0 + 500 - 499) = ''1ns''" by (simp add: duration_debug_def digits)
  moreover have "current_term ?s = 0" "show_option show_u32 (voted_for ?s) = ''None''"
    by (simp_all add: state_default_def show_option_def)
  ultimately show ?thesis
    using state_print_races_clock [of ?s 0 500 499 501] state_print_races_clock [of ?s 0 500 498 499]
    by (simp add: digits(2))
qed

theorem command_prints_exactly_witness:
  "command_debug (\<lambda>_. []) (Heartbeat 1 (BlockId [7]) 2) = Inl (Panic ''unwrap'')
   \<and> (\<exists>l. log_command (\<lambda>_. True) (\<lambda>_. []) Tick = Inr l)"
proof -
  let ?m = "message_new (Peer 2) (Peer 1) Tick"
  have "process_ok tree_ext tree_store demo_end"
    using process_reachable [OF demo_chain_db empty_store_ok demo_process_starts demo_tasks_ok demo_process_runs] by simp
  then have ok: "process_ok tree_ext tree_store (demo_end\<lparr>pr_tcp_rx := [?m]\<rparr>)"
    by (simp add: process_ok_def message_new_def)
  have "\<not> cmd_ok (Heartbeat 1 (BlockId [7]) 2)" by (simp add: id_ok_def)
  moreover have "?m \<in> set (pr_tcp_rx (demo_end\<lparr>pr_tcp_rx := [?m]\<rparr>))" by simp
  ultimately have "command_debug (\<lambda>_. []) (Heartbeat 1 (BlockId [7]) 2) = Inl (Panic ''unwrap'')
      \<and> (\<exists>l. log_command (\<lambda>_. True) (\<lambda>_. []) (msg_command ?m) = Inr l)"
    using command_prints_exactly [of "\<lambda>_. []" tree_ext tree_store "\<lambda>_. True"] ok unfolding set_append by blast
  then show ?thesis by (simp only: message_new_def message.simps)
qed

end
