(* ===== verification/Kafka_Codec.thy ===== *)
theory Kafka_Codec
  imports Broker_Handlers
begin

text \<open>
  \<^verbatim>\<open>kafka/\<close> and the connections of \<^verbatim>\<open>broker/tcp.rs\<close>: framing requests and responses, the identifiers that
  match them, and the client one broker uses to talk to another.  The framing of tokio and the
  encodings of the kafka-protocol crate are parameters.
\<close>

section \<open>Errors and parameters\<close>

datatype error_kind = DecodeError | EncodeError | UnsupportedOperation | IoError

type_synonym 'a kres = "error_kind + 'a"

definition bindK :: "'a kres \<Rightarrow> ('a \<Rightarrow> 'b kres) \<Rightarrow> 'b kres" where
  "bindK r f = (case r of Inl e \<Rightarrow> Inl e | Inr x \<Rightarrow> f x)"

text \<open>The conversions of \<^verbatim>\<open>kafka/error.rs\<close>, as the \<^verbatim>\<open>?\<close> operator applies them.\<close>

definition io_kind :: "'a option \<Rightarrow> 'a kres" where
  "io_kind x = (case x of None \<Rightarrow> Inl IoError | Some v \<Rightarrow> Inr v)"

definition decode_kind :: "'a option \<Rightarrow> 'a kres" where
  "decode_kind x = (case x of None \<Rightarrow> Inl DecodeError | Some v \<Rightarrow> Inr v)"

definition encode_kind :: "'a option \<Rightarrow> 'a kres" where
  "encode_kind x = (case x of None \<Rightarrow> Inl EncodeError | Some v \<Rightarrow> Inr v)"

record request_header =
  rh_api_key :: i16
  rh_api_version :: i16
  rh_correlation_id :: i32

record response_header =
  sh_correlation_id :: i32

text \<open>
  \<open>frame_decode\<close> takes a frame from a buffer, if it holds a whole one; the decoders get the bytes and
  the version they are called with.
\<close>

record codec_env =
  frame_decode :: "bytes \<Rightarrow> (bytes option \<times> bytes) option"
  frame_encode :: "bytes \<Rightarrow> bytes option"
  peek_version :: "bytes \<Rightarrow> i16 option"
  api_key_of :: "i16 \<Rightarrow> api_key option"
  request_header_version :: "api_key \<Rightarrow> i16 \<Rightarrow> i16"
  response_header_version :: "api_key \<Rightarrow> i16 \<Rightarrow> i16"
  dec_request_header :: "bytes \<Rightarrow> i16 \<Rightarrow> (request_header \<times> bytes) option"
  enc_request_header :: "request_header \<Rightarrow> i16 \<Rightarrow> bytes option"
  dec_response_header :: "bytes \<Rightarrow> i16 \<Rightarrow> (response_header \<times> bytes) option"
  enc_response_header :: "response_header \<Rightarrow> i16 \<Rightarrow> bytes option"
  dec_api_versions_req :: "bytes \<Rightarrow> i16 \<Rightarrow> unit option"
  dec_metadata_req :: "bytes \<Rightarrow> i16 \<Rightarrow> string option list option option"
  dec_create_topics_req :: "bytes \<Rightarrow> i16 \<Rightarrow> (string \<times> creatable_topic) list option"
  dec_list_groups_req :: "bytes \<Rightarrow> i16 \<Rightarrow> unit option"
  dec_find_coordinator_req :: "bytes \<Rightarrow> i16 \<Rightarrow> unit option"
  enc_api_versions_res :: "(i16 \<times> api_version) list \<Rightarrow> i16 \<Rightarrow> bytes option"
  enc_metadata_res :: "metadata_response \<Rightarrow> i16 \<Rightarrow> bytes option"
  enc_create_topics_res :: "(string \<times> creatable_topic_result) list \<Rightarrow> i16 \<Rightarrow> bytes option"
  enc_list_groups_res :: "i16 \<Rightarrow> bytes option"
  enc_find_coordinator_res :: "coordinator list \<Rightarrow> i16 \<Rightarrow> bytes option"
  enc_api_versions_req :: "i16 \<Rightarrow> bytes option"
  enc_leader_and_isr_req :: "leader_and_isr_request \<Rightarrow> i16 \<Rightarrow> bytes option"
  enc_create_topics_req :: "(string \<times> creatable_topic) list \<Rightarrow> i16 \<Rightarrow> bytes option"
  dec_api_versions_res :: "bytes \<Rightarrow> i16 \<Rightarrow> (i16 \<times> api_version) list option"
  dec_leader_and_isr_res :: "bytes \<Rightarrow> i16 \<Rightarrow> unit option"
  dec_create_topics_res :: "bytes \<Rightarrow> i16 \<Rightarrow> (string \<times> creatable_topic_result) list option"

section \<open>The codec of the server\<close>

fun decode_request :: "codec_env \<Rightarrow> bytes \<Rightarrow> api_key \<Rightarrow> i16 \<Rightarrow> request_kind kres" where
  "decode_request K bs ApiVersionsKey v =
     bindK (decode_kind (dec_api_versions_req K bs v)) (\<lambda>_. Inr ApiVersionsRequest)"
| "decode_request K bs MetadataKey v =
     bindK (decode_kind (dec_metadata_req K bs v)) (\<lambda>req. Inr (MetadataRequest req))"
| "decode_request K bs CreateTopicsKey v =
     bindK (decode_kind (dec_create_topics_req K bs v)) (\<lambda>req. Inr (CreateTopicsRequest req))"
| "decode_request K bs ListGroupsKey v =
     bindK (decode_kind (dec_list_groups_req K bs v)) (\<lambda>_. Inr ListGroupsRequest)"
| "decode_request K bs FindCoordinatorKey v =
     bindK (decode_kind (dec_find_coordinator_req K bs v)) (\<lambda>_. Inr FindCoordinatorRequest)"
| "decode_request K bs k v = Inl UnsupportedOperation"

definition read_version :: "codec_env \<Rightarrow> bytes \<Rightarrow> i16 kres" where
  "read_version K bs = decode_kind (peek_version K bs)"

definition server_decode ::
  "codec_env \<Rightarrow> bytes \<Rightarrow> ((request_header \<times> request_kind) option \<times> bytes) kres" where
  "server_decode K src =
     bindK (io_kind (frame_decode K src)) (\<lambda>(frame, rest).
     case frame of
       None \<Rightarrow> Inr (None, rest)
     | Some bs \<Rightarrow>
         bindK (read_version K bs) (\<lambda>version.
         bindK (decode_kind (dec_request_header K bs version)) (\<lambda>(header, body).
         bindK (decode_kind (api_key_of K (rh_api_key header))) (\<lambda>api_key.
         bindK (decode_request K body api_key version) (\<lambda>request.
         Inr (Some (header, request), rest))))))"

definition with_header :: "codec_env \<Rightarrow> response_header \<Rightarrow> i16 \<Rightarrow> bytes option \<Rightarrow> bytes kres" where
  "with_header K h hv body =
     bindK (encode_kind (enc_response_header K h hv)) (\<lambda>hb. bindK (encode_kind body) (\<lambda>b. Inr (hb @ b)))"

fun encode_response :: "codec_env \<Rightarrow> response_header \<Rightarrow> response_kind \<Rightarrow> i16 \<Rightarrow> bytes kres" where
  "encode_response K h (ApiVersionsResponse r) v =
     with_header K h (response_header_version K ApiVersionsKey v) (enc_api_versions_res K r v)"
| "encode_response K h (MetadataResponse r) v =
     with_header K h (response_header_version K MetadataKey v) (enc_metadata_res K r v)"
| "encode_response K h (CreateTopicsResponse r) v =
     with_header K h (response_header_version K CreateTopicsKey v) (enc_create_topics_res K r v)"
| "encode_response K h ListGroupsResponse v =
     with_header K h (response_header_version K ListGroupsKey v) (enc_list_groups_res K v)"
| "encode_response K h (FindCoordinatorResponse r) v =
     with_header K h (response_header_version K FindCoordinatorKey v) (enc_find_coordinator_res K r v)"
| "encode_response K h r v = Inl UnsupportedOperation"

definition server_encode :: "codec_env \<Rightarrow> i16 \<times> response_header \<times> response_kind \<Rightarrow> bytes kres" where
  "server_encode K = (\<lambda>(version, header, response).
     bindK (encode_response K header response version) (\<lambda>bs. io_kind (frame_encode K bs)))"

text \<open>\<^verbatim>\<open>stream_messages\<close> of \<^verbatim>\<open>broker/tcp.rs\<close>: the answer to one request of a connection.\<close>

definition answer_request ::
  "codec_env \<Rightarrow> response_header \<Rightarrow> request_header \<Rightarrow> response_kind \<Rightarrow> bytes kres" where
  "answer_request K dflt header res =
     server_encode K (rh_api_version header, dflt\<lparr>sh_correlation_id := rh_correlation_id header\<rparr>, res)"

section \<open>The codec of the client\<close>

record client_codec =
  cc_correlation_id :: i32
  cc_requests :: "(i32 \<times> request_header) list"

definition client_codec_new :: client_codec where
  "client_codec_new = \<lparr>cc_correlation_id = 0, cc_requests = []\<rparr>"

fun encode_request :: "codec_env \<Rightarrow> request_header \<Rightarrow> request_kind \<Rightarrow> i16 \<Rightarrow> bytes kres" where
  "encode_request K h ApiVersionsRequest v =
     bindK (encode_kind (enc_request_header K h (request_header_version K LeaderAndIsrKey v))) (\<lambda>hb.
     bindK (encode_kind (enc_api_versions_req K v)) (\<lambda>b. Inr (hb @ b)))"
| "encode_request K h (LeaderAndIsrRequest r) v =
     bindK (encode_kind (enc_request_header K h (request_header_version K LeaderAndIsrKey v))) (\<lambda>hb.
     bindK (encode_kind (enc_leader_and_isr_req K r v)) (\<lambda>b. Inr (hb @ b)))"
| "encode_request K h (CreateTopicsRequest r) v =
     bindK (encode_kind (enc_request_header K h (request_header_version K CreateTopicsKey v))) (\<lambda>hb.
     bindK (encode_kind (enc_create_topics_req K r v)) (\<lambda>b. Inr (hb @ b)))"
| "encode_request K h r v = Inl EncodeError"

text \<open>\<^verbatim>\<open>fetch_add\<close> wraps around; the request is remembered before it is encoded.\<close>

definition client_encode ::
  "codec_env \<Rightarrow> client_codec \<Rightarrow> request_header \<Rightarrow> request_kind \<Rightarrow> client_codec \<times> bytes kres" where
  "client_encode K c header request =
     (let h = header\<lparr>rh_correlation_id := cc_correlation_id c\<rparr>;
          c' = \<lparr>cc_correlation_id = cc_correlation_id c + 1,
                cc_requests = AList.update (rh_correlation_id h) h (cc_requests c)\<rparr>
      in (c', bindK (encode_request K h request (rh_api_version h)) (\<lambda>bs. io_kind (frame_encode K bs))))"

fun decode_response :: "codec_env \<Rightarrow> bytes \<Rightarrow> api_key \<Rightarrow> i16 \<Rightarrow> response_kind kres" where
  "decode_response K bs ApiVersionsKey v =
     bindK (decode_kind (dec_api_versions_res K bs (response_header_version K CreateTopicsKey v))) (\<lambda>r.
     Inr (ApiVersionsResponse r))"
| "decode_response K bs LeaderAndIsrKey v =
     bindK (decode_kind (dec_leader_and_isr_res K bs (response_header_version K LeaderAndIsrKey v))) (\<lambda>_.
     Inr LeaderAndIsrResponse)"
| "decode_response K bs CreateTopicsKey v =
     bindK (decode_kind (dec_create_topics_res K bs (response_header_version K CreateTopicsKey v))) (\<lambda>r.
     Inr (CreateTopicsResponse r))"
| "decode_response K bs k v = Inl UnsupportedOperation"

definition client_decode ::
  "codec_env \<Rightarrow> client_codec \<Rightarrow> bytes \<Rightarrow>
   (client_codec \<times> (response_header \<times> response_kind) option \<times> bytes) kres" where
  "client_decode K c src =
     bindK (io_kind (frame_decode K src)) (\<lambda>(frame, rest).
     case frame of
       None \<Rightarrow> Inr (c, None, rest)
     | Some bs \<Rightarrow>
         bindK (decode_kind (dec_response_header K bs 1)) (\<lambda>(header, body).
         bindK (decode_kind (map_of (cc_requests c) (sh_correlation_id header))) (\<lambda>req.
         let c' = c\<lparr>cc_requests := AList.delete (sh_correlation_id header) (cc_requests c)\<rparr>
         in bindK (decode_kind (api_key_of K (rh_api_key req))) (\<lambda>api_key.
            bindK (decode_response K body api_key (rh_api_version req)) (\<lambda>res.
            Inr (c', Some (header, res), rest))))))"

section \<open>The connection of the client\<close>

text \<open>
  \<^verbatim>\<open>kafka/tcp.rs\<close>: one task writes requests and remembers their callbacks, another reads responses
  and calls them.  A callback is known by the identifier \<open>'c\<close> of the caller that waits for it.
\<close>

record 'c connection =
  cn_codec :: client_codec
  cn_cbs :: "(i32 \<times> 'c) list"
  cn_written :: "bytes list"
  cn_answers :: "('c \<times> response_kind) list"

definition connection_new :: "'c connection" where
  "connection_new = \<lparr>cn_codec = client_codec_new, cn_cbs = [], cn_written = [], cn_answers = []\<rparr>"

text \<open>
  The text of an error, without the newline it ends with; the description of an input or output error
  is left out.
\<close>

definition kind_failure :: "error_kind \<Rightarrow> failure" where
  "kind_failure e = Error (case e of DecodeError \<Rightarrow> ''Error decoding message''
     | EncodeError \<Rightarrow> ''Error encoding message'' | UnsupportedOperation \<Rightarrow> ''Unsupported API''
     | IoError \<Rightarrow> ''IoError'')"

text \<open>The request is sent first, and its callback is registered under the caller's identifier after that.\<close>

definition connection_send ::
  "codec_env \<Rightarrow> 'c connection \<Rightarrow> request_header \<Rightarrow> request_kind \<Rightarrow> 'c connection res" where
  "connection_send K n header req =
     (case client_encode K (cn_codec n) header req of
        (c, Inl e) \<Rightarrow> Inl (kind_failure e)
      | (c, Inr bs) \<Rightarrow> Inr (n\<lparr>cn_codec := c, cn_written := cn_written n @ [bs]\<rparr>))"

definition connection_write ::
  "codec_env \<Rightarrow> 'c connection \<Rightarrow> request_header \<Rightarrow> request_kind \<Rightarrow> 'c \<Rightarrow> 'c connection res" where
  "connection_write K n header req cb =
     bindE (connection_send K n header req) (\<lambda>n'.
     Inr (n'\<lparr>cn_cbs := AList.update (rh_correlation_id header) cb (cn_cbs n')\<rparr>))"

definition connection_read ::
  "codec_env \<Rightarrow> ('c \<Rightarrow> bool) \<Rightarrow> 'c connection \<Rightarrow> bytes \<Rightarrow> 'c connection res" where
  "connection_read K listening n src =
     (case client_decode K (cn_codec n) src of
        Inl e \<Rightarrow> Inl (kind_failure e)
      | Inr (c, None, rest) \<Rightarrow> Inr (n\<lparr>cn_codec := c\<rparr>)
      | Inr (c, Some (header, res), rest) \<Rightarrow>
          bindE (expectE (map_of (cn_cbs n) (sh_correlation_id header)) ''unknown correlation id'') (\<lambda>cb.
          if listening cb then
            Inr (n\<lparr>cn_codec := c, cn_cbs := AList.delete (sh_correlation_id header) (cn_cbs n),
                   cn_answers := cn_answers n @ [(cb, res)]\<rparr>)
          else Inl (Panic ''unwrap'')))"

section \<open>Identifiers\<close>

lemma bindK_simps [simp]: "bindK (Inl e) f = Inl e" "bindK (Inr x) f = f x"
  by (simp_all add: bindK_def)

lemma bindK_Inr: "bindK r f = Inr y \<longleftrightarrow> (\<exists>x. r = Inr x \<and> f x = Inr y)"
  by (cases r) auto

lemma kind_Inr [simp]:
  "io_kind x = Inr v \<longleftrightarrow> x = Some v" "decode_kind x = Inr v \<longleftrightarrow> x = Some v" "encode_kind x = Inr v \<longleftrightarrow> x = Some v"
  by (simp_all add: io_kind_def decode_kind_def encode_kind_def split: option.splits)

lemma kind_simps [simp]:
  "io_kind (Some v) = Inr v" "decode_kind (Some v) = Inr v" "decode_kind None = Inl DecodeError"
  "encode_kind (Some v) = Inr v"
  by (simp_all add: io_kind_def decode_kind_def encode_kind_def)

lemma connection_write_Inr:
  assumes "connection_write K n header req cb = Inr n'"
  shows "map_of (cn_cbs n') = (map_of (cn_cbs n))(rh_correlation_id header \<mapsto> cb)"
    and "cc_correlation_id (cn_codec n') = cc_correlation_id (cn_codec n) + 1"
    and "dom (map_of (cc_requests (cn_codec n'))) =
      insert (cc_correlation_id (cn_codec n)) (dom (map_of (cc_requests (cn_codec n))))"
    and "cn_answers n' = cn_answers n"
  using assms
  by (auto simp: connection_write_def connection_send_def client_encode_def bindE_Inr update_conv' Let_def
      split: sum.splits prod.splits)

text \<open>A connection over which requests with the same header have been written.\<close>

definition write_requests ::
  "codec_env \<Rightarrow> request_header \<Rightarrow> (request_kind \<times> 'c) list \<Rightarrow> 'c connection \<Rightarrow> 'c connection res" where
  "write_requests K header reqs n = foldE (\<lambda>(req, cb) n. connection_write K n header req cb) reqs n"

lemma write_requests_state:
  assumes "write_requests K header reqs connection_new = Inr n" and "reqs \<noteq> []"
  shows "map_of (cn_cbs n) = [rh_correlation_id header \<mapsto> snd (last reqs)] \<and> cn_answers n = []
    \<and> cc_correlation_id (cn_codec n) = word_of_nat (length reqs)
    \<and> dom (map_of (cc_requests (cn_codec n))) = word_of_nat ` {..<length reqs}"
  using assms
proof (induction reqs arbitrary: n rule: rev_induct)
  case (snoc r reqs)
  obtain req cb where r: "r = (req, cb)" by force
  obtain m where m: "write_requests K header reqs connection_new = Inr m"
    "connection_write K m header req cb = Inr n"
    using snoc.prems(1) r by (auto simp: write_requests_def bindE_Inr)
  note w = connection_write_Inr [OF m(2)]
  show ?case
  proof (cases "reqs = []")
    case True
    with m(1) have "m = connection_new" by (simp add: write_requests_def)
    with w r True show ?thesis by (simp add: connection_new_def client_codec_new_def lessThan_Suc)
  next
    case False
    from snoc.IH [OF m(1) False] w r show ?thesis by (simp add: lessThan_Suc fun_eq_iff)
  qed
qed simp

section \<open>Properties of the codec\<close>

text \<open>
  (C36) Answers over one connection.  The codec numbers the requests of a connection itself, but the
  callbacks are kept under the number the caller put into its header.  When the callers use the
  same header, as the broker does, a response is accepted only if its number happens to be the
  callers' one, and it goes to the last caller whichever request it answers; every other response
  panics.
\<close>

theorem response_matches_caller_number:
  assumes "write_requests K header reqs connection_new = Inr n" and "reqs \<noteq> []"
    and "client_decode K (cn_codec n) src = Inr (c, Some (h, res), rest)" and "\<forall>cb. listening cb"
  shows "(\<exists>i < length reqs. sh_correlation_id h = word_of_nat i)
    \<and> (if sh_correlation_id h = rh_correlation_id header
       then \<exists>n'. connection_read K listening n src = Inr n' \<and> cn_answers n' = [(snd (last reqs), res)]
       else connection_read K listening n src = Inl (Panic ''unknown correlation id''))"
proof -
  note st = write_requests_state [OF assms(1,2)]
  have "sh_correlation_id h \<in> dom (map_of (cc_requests (cn_codec n)))"
    using assms(3) by (auto simp: client_decode_def bindK_Inr Let_def split: option.splits)
  then have "\<exists>i < length reqs. sh_correlation_id h = word_of_nat i"
    using st by auto
  with assms(3,4) st show ?thesis by (simp add: connection_read_def)
qed

text \<open>
  What the layout of the protocol promises: a frame holds what was put into it, and the version and
  the key of a request are at the start of its header in every version of the header.
\<close>

definition codec_env_ok :: "codec_env \<Rightarrow> bool" where
  "codec_env_ok K \<longleftrightarrow>
     (\<forall>bs f. frame_encode K bs = Some f \<longrightarrow> frame_decode K f = Some (Some bs, []))
   \<and> (\<forall>h hv hb b. enc_request_header K h hv = Some hb \<longrightarrow> peek_version K (hb @ b) = Some (rh_api_version h)
        \<and> (\<forall>v h' b'. dec_request_header K (hb @ b) v = Some (h', b') \<longrightarrow> rh_api_key h' = rh_api_key h))"

text \<open>
  (C37) Brokers refuse each other.  To start the replicas of a topic a broker sends its peers a request
  that every broker advertises; the codec of the peer never accepts it, whatever the version.
\<close>

theorem peer_refuses_leader_and_isr:
  assumes "codec_env_ok K" and "api_key_of K (rh_api_key header) = Some LeaderAndIsrKey"
    and "client_encode K c header (LeaderAndIsrRequest r) = (c', Inr f)"
  shows "LeaderAndIsrKey \<in> set advertised_keys \<and> (\<exists>e. server_decode K f = Inl e)"
proof -
  let ?h = "header\<lparr>rh_correlation_id := cc_correlation_id c\<rparr>"
  obtain hb b where hb: "enc_request_header K ?h (request_header_version K LeaderAndIsrKey (rh_api_version ?h)) = Some hb"
    and f: "frame_encode K (hb @ b) = Some f"
    using assms(3) by (auto simp: client_encode_def bindK_Inr Let_def)
  have frame: "frame_decode K f = Some (Some (hb @ b), [])" and v: "peek_version K (hb @ b) = Some (rh_api_version ?h)"
    and key: "\<And>h' b'. dec_request_header K (hb @ b) (rh_api_version ?h) = Some (h', b') \<Longrightarrow> rh_api_key h' = rh_api_key ?h"
    using assms(1) hb f unfolding codec_env_ok_def by blast+
  show ?thesis
  proof (cases "dec_request_header K (hb @ b) (rh_api_version ?h)")
    case None
    with frame v show ?thesis by (simp add: server_decode_def read_version_def advertised_keys_def)
  next
    case (Some hd)
    obtain h' b' where "hd = (h', b')" by force
    with Some key [of h' b'] frame v assms(2) show ?thesis
      by (simp add: server_decode_def read_version_def advertised_keys_def)
  qed
qed

section \<open>A concrete codec\<close>

definition demo_codec :: codec_env where
  "demo_codec = \<lparr>frame_decode = (\<lambda>f. Some (Some f, [])), frame_encode = Some,
     peek_version = (\<lambda>bs. Some (dec_word (take 16 (drop 16 bs)))),
     api_key_of = (\<lambda>i. Some (if i = 4 then LeaderAndIsrKey else ApiVersionsKey)),
     request_header_version = (\<lambda>k v. 1), response_header_version = (\<lambda>k v. 1),
     dec_request_header = (\<lambda>bs v. Some (\<lparr>rh_api_key = dec_word (take 16 bs),
       rh_api_version = dec_word (take 16 (drop 16 bs)), rh_correlation_id = dec_word (take 16 (drop 32 bs))\<rparr>,
       drop 48 bs)),
     enc_request_header = (\<lambda>h v. Some (enc_word (rh_api_key h) @ enc_word (rh_api_version h)
       @ enc_word (rh_correlation_id h))),
     dec_response_header = (\<lambda>bs v. Some (\<lparr>sh_correlation_id = dec_word (take 16 bs)\<rparr>, drop 16 bs)),
     enc_response_header = (\<lambda>h v. Some (enc_word (sh_correlation_id h))),
     dec_api_versions_req = (\<lambda>bs v. Some ()), dec_metadata_req = (\<lambda>bs v. None),
     dec_create_topics_req = (\<lambda>bs v. None), dec_list_groups_req = (\<lambda>bs v. None),
     dec_find_coordinator_req = (\<lambda>bs v. None), enc_api_versions_res = (\<lambda>r v. Some []),
     enc_metadata_res = (\<lambda>r v. None), enc_create_topics_res = (\<lambda>r v. None), enc_list_groups_res = (\<lambda>v. None),
     enc_find_coordinator_res = (\<lambda>r v. None), enc_api_versions_req = (\<lambda>v. Some []),
     enc_leader_and_isr_req = (\<lambda>r v. Some []), enc_create_topics_req = (\<lambda>r v. None),
     dec_api_versions_res = (\<lambda>bs v. Some []), dec_leader_and_isr_res = (\<lambda>bs v. Some ()),
     dec_create_topics_res = (\<lambda>bs v. None)\<rparr>"

lemma length_enc_word [simp]: "length (enc_word w) = 16"
  by (simp add: enc_word_def)

lemma demo_codec_ok: "codec_env_ok demo_codec"
  by (simp add: codec_env_ok_def demo_codec_def)

definition demo_header :: request_header where
  "demo_header = \<lparr>rh_api_key = 4, rh_api_version = 5, rh_correlation_id = 0\<rparr>"

theorem response_matches_caller_number_witness:
  "\<exists>n. write_requests demo_codec demo_header [(ApiVersionsRequest, 7), (ApiVersionsRequest, 8 :: nat)]
      connection_new = Inr n
    \<and> connection_read demo_codec (\<lambda>_. True) n (enc_word (1 :: i32)) = Inl (Panic ''unknown correlation id'')"
proof -
  let ?h = "\<lambda>i. demo_header\<lparr>rh_correlation_id := i\<rparr>"
  let ?c = "\<lparr>cc_correlation_id = 2, cc_requests = [(0, ?h 0), (1, ?h 1)]\<rparr>"
  obtain n where n: "write_requests demo_codec demo_header [(ApiVersionsRequest, 7), (ApiVersionsRequest, 8 :: nat)]
      connection_new = Inr n" "cn_codec n = ?c"
    by (simp add: write_requests_def connection_write_def connection_send_def client_encode_def demo_codec_def
        demo_header_def connection_new_def client_codec_new_def Let_def)
  have "client_decode demo_codec (cn_codec n) (enc_word (1 :: i32)) =
      Inr (?c\<lparr>cc_requests := [(0, ?h 0)]\<rparr>, Some (\<lparr>sh_correlation_id = 1\<rparr>, LeaderAndIsrResponse), [])"
    unfolding n(2) by (simp add: client_decode_def demo_codec_def demo_header_def Let_def)
  from response_matches_caller_number [OF n(1) _ this, of "\<lambda>_. True"] n(1) show ?thesis
    by (simp add: demo_header_def)
qed

theorem peer_refuses_leader_and_isr_witness:
  "\<exists>c' f e. client_encode demo_codec client_codec_new demo_header
      (LeaderAndIsrRequest \<lparr>li_controller_id = 2, li_topic_states = []\<rparr>) = (c', Inr f)
    \<and> server_decode demo_codec f = Inl e"
proof -
  have key: "api_key_of demo_codec (rh_api_key demo_header) = Some LeaderAndIsrKey"
    by (simp add: demo_codec_def demo_header_def)
  obtain c' f where "client_encode demo_codec client_codec_new demo_header
      (LeaderAndIsrRequest \<lparr>li_controller_id = 2, li_topic_states = []\<rparr>) = (c', Inr f)"
    by (simp add: client_encode_def demo_codec_def Let_def)
  with peer_refuses_leader_and_isr [OF demo_codec_ok key this] show ?thesis by blast
qed

end
