(* ===== verification/Connections.thy ===== *)
theory Connections
  imports Kafka_Codec Server
begin

text \<open>
  The loops that read from a socket: \<^verbatim>\<open>stream_messages\<close> of \<^verbatim>\<open>raft/tcp.rs\<close>, which hands the messages of another
  node to the event loop, and \<^verbatim>\<open>stream_messages\<close> of \<^verbatim>\<open>broker/tcp.rs\<close>, which answers the requests of a
  client one after the other.  The framing of tokio and the encoding of messages are parameters.  A loop gets
  all bytes that arrive before the socket is closed; it need not end, so its result is an option.
\<close>

section \<open>Messages of another node\<close>

text \<open>
  How a format hands a byte string to the code that asks for one: borrowed from its input, as a copy, or as a sequence of numbers.
  The identifier of a block is read as a borrowed slice, which only the first can give.
\<close>

datatype lent = Borrowed bytes | Copied bytes | Numbers bytes

definition serialize_block_id :: "block_id \<Rightarrow> bytes" where
  "serialize_block_id i = bid_bytes i"

definition deserialize_block_id :: "lent \<Rightarrow> block_id option" where
  "deserialize_block_id l = (case l of Borrowed bs \<Rightarrow> Some (BlockId bs) | _ \<Rightarrow> None)"

text \<open>The identifiers a command is made of.\<close>

fun command_ids :: "command \<Rightarrow> block_id list" where
  "command_ids (VoteRequest _ _ _ h) = [h]"
| "command_ids (AppendEntries _ _ bs) = concat (map (\<lambda>b. [blk_id b, blk_next b]) bs)"
| "command_ids (AppendResponse _ _ h _) = [h]"
| "command_ids (Heartbeat _ c _) = [c]"
| "command_ids (HeartbeatResponse c _) = [c]"
| "command_ids _ = []"

text \<open>
  \<open>wire_encode\<close> is what the sink writes for a message (nothing when it fails), \<open>wire_decode\<close> takes a message from
  what has arrived (none when no whole frame is left), and \<open>wire_lend\<close> is how the format hands out a byte string that was written.  A message
  whose frame has arrived is read back exactly if all its identifiers are.
\<close>

record wire_env =
  wire_encode :: "message \<Rightarrow> bytes option"
  wire_decode :: "bytes \<Rightarrow> (message option \<times> bytes) option"
  wire_lend :: "bytes \<Rightarrow> lent"

definition wire_carries :: "wire_env \<Rightarrow> message \<Rightarrow> bool" where
  "wire_carries W m \<longleftrightarrow>
     list_all (\<lambda>i. deserialize_block_id (wire_lend W (serialize_block_id i)) = Some i) (command_ids (msg_command m))"

definition wire_env_ok :: "wire_env \<Rightarrow> bool" where
  "wire_env_ok W \<longleftrightarrow> wire_decode W [] = Some (None, [])
     \<and> (\<forall>bs. wire_lend W bs \<in> {Borrowed bs, Copied bs, Numbers bs})
     \<and> (\<forall>m f rest. wire_encode W m = Some f \<longrightarrow>
          wire_decode W (f @ rest) = (if wire_carries W m then Some (Some m, rest) else None))"

text \<open>The end of a stream in the middle of a frame is an error.\<close>

definition at_end :: "bytes \<Rightarrow> failure option" where
  "at_end rest = (if rest = [] then None else Some (Error ''bytes remaining on stream''))"

partial_function (option) raft_stream_messages ::
  "wire_env \<Rightarrow> bytes \<Rightarrow> message sender \<Rightarrow> (message sender \<times> failure option) option" where
  "raft_stream_messages W src in_tx =
     (case wire_decode W src of
        None \<Rightarrow> Some (in_tx, Some (Error ''decode''))
      | Some (None, rest) \<Rightarrow> Some (in_tx, at_end rest)
      | Some (Some m, rest) \<Rightarrow>
          (case chan_send in_tx m of
             Inl e \<Rightarrow> Some (in_tx, Some e)
           | Inr in_tx' \<Rightarrow> raft_stream_messages W rest in_tx'))"

section \<open>Requests of a client\<close>

text \<open>
  \<open>serve\<close> is the broker's loop: it is handed the request and answers on a channel made for it.  When the loop
  fails on a request the channel is dropped.  The result is the state of the broker, what has been written,
  and the error the connection ended with.
\<close>

partial_function (option) broker_stream_messages ::
  "codec_env \<Rightarrow> response_header \<Rightarrow> ('w \<Rightarrow> request_kind \<Rightarrow> ('w \<times> response_kind) res) \<Rightarrow> bytes \<Rightarrow> 'w \<Rightarrow> bytes list \<Rightarrow>
   ('w \<times> bytes list \<times> failure option) option" where
  "broker_stream_messages K dflt serve src w out =
     (case server_decode K src of
        Inl e \<Rightarrow> Some (w, out, Some (kind_failure e))
      | Inr (None, rest) \<Rightarrow> Some (w, out, at_end rest)
      | Inr (Some (header, message), rest) \<Rightarrow>
          (case serve w message of
             Inl e \<Rightarrow> Some (w, out, Some (Error ''channel closed''))
           | Inr (w', res) \<Rightarrow>
               (case answer_request K dflt header res of
                  Inl e \<Rightarrow> Some (w', out, Some (kind_failure e))
                | Inr bs \<Rightarrow> broker_stream_messages K dflt serve rest w' (out @ [bs]))))"

text \<open>
  What the framing promises: a frame holds what was put into it whatever follows, taking one makes the buffer
  shorter, and an empty buffer holds none.
\<close>

definition framing_ok :: "codec_env \<Rightarrow> bool" where
  "framing_ok K \<longleftrightarrow> frame_decode K [] = Some (None, [])
     \<and> (\<forall>bs f rest. frame_encode K bs = Some f \<longrightarrow> frame_decode K (f @ rest) = Some (Some bs, rest))
     \<and> (\<forall>src bs rest. frame_decode K src = Some (Some bs, rest) \<longrightarrow> length rest < length src)"

text \<open>A request as a client has written it.\<close>

definition request_frame :: "codec_env \<Rightarrow> bytes \<Rightarrow> request_header \<Rightarrow> request_kind \<Rightarrow> bool" where
  "request_frame K f header req \<longleftrightarrow>
     (\<exists>bs. frame_encode K bs = Some f) \<and> server_decode K f = Inr (Some (header, req), [])"

text \<open>The broker's loop, with the random choices \<open>inp i\<close> made for the \<open>i\<close>-th request it is handed.\<close>

definition serve_next ::
  "('w, 'db) broker_env \<Rightarrow> (nat \<Rightarrow> string \<Rightarrow> create_input) \<Rightarrow> nat \<times> 'w \<times> replicas \<Rightarrow> request_kind \<Rightarrow>
   ((nat \<times> 'w \<times> replicas) \<times> response_kind) res" where
  "serve_next B inp = (\<lambda>(i, st) req.
     bindE (handle_request B (inp i) st req) (\<lambda>(st', res). Inr ((Suc i, st'), res)))"

section \<open>The loops end\<close>

lemma server_decode_shorter:
  assumes "framing_ok K" and "server_decode K src = Inr (Some x, rest)"
  shows "length rest < length src"
proof -
  obtain bs where "frame_decode K src = Some (Some bs, rest)"
    using assms(2) by (auto simp: server_decode_def bindK_Inr split: option.splits)
  then show ?thesis using assms(1) unfolding framing_ok_def by blast
qed

lemma broker_stream_ends:
  assumes "framing_ok K"
  shows "\<exists>w' out' e. broker_stream_messages K dflt serve src w out = Some (w', out @ out', e)
    \<and> length out' \<le> length src"
proof (induction "length src" arbitrary: src w out rule: less_induct)
  case less
  show ?case
  proof (cases "server_decode K src")
    case (Inl e)
    then show ?thesis by (subst broker_stream_messages.simps) simp
  next
    case (Inr y)
    obtain x rest where y: "y = (x, rest)" by force
    show ?thesis
    proof (cases x)
      case None
      then show ?thesis using Inr y by (subst broker_stream_messages.simps) simp
    next
      case (Some hm)
      obtain h m where hm: "hm = (h, m)" by force
      have shorter: "length rest < length src" using server_decode_shorter [OF assms] Inr y Some by simp
      show ?thesis
      proof (cases "\<exists>w' res bs. serve w m = Inr (w', res) \<and> answer_request K dflt h res = Inr bs")
        case True
        then obtain w' res bs where s: "serve w m = Inr (w', res)" "answer_request K dflt h res = Inr bs" by blast
        obtain w'' out' e where r: "broker_stream_messages K dflt serve rest w' (out @ [bs]) = Some (w'', (out @ [bs]) @ out', e)"
          "length out' \<le> length rest"
          using less [OF shorter] by blast
        have "broker_stream_messages K dflt serve src w out = Some (w'', out @ (bs # out'), e)"
          using Inr y Some hm s r(1) by (subst broker_stream_messages.simps) simp
        moreover have "length (bs # out') \<le> length src" using r(2) shorter by simp
        ultimately show ?thesis by blast
      next
        case False
        then show ?thesis
          using Inr y Some hm by (subst broker_stream_messages.simps) (auto split: sum.splits)
      qed
    qed
  qed
qed


section \<open>What the loops deliver\<close>

lemma request_frame_decodes:
  assumes "framing_ok K" and "request_frame K f h m"
  shows "server_decode K (f @ rest) = Inr (Some (h, m), rest)"
proof -
  obtain bs where bs: "frame_encode K bs = Some f" and d: "server_decode K f = Inr (Some (h, m), [])"
    using assms(2) by (auto simp: request_frame_def)
  have frame: "frame_decode K (f @ r) = Some (Some bs, r)" for r
    using assms(1) bs unfolding framing_ok_def by blast
  show ?thesis
    using d frame [of "[]"] frame [of rest] by (auto simp: server_decode_def bindK_Inr)
qed

lemma broker_stream_serves:
  assumes "framing_ok K" and "\<forall>(f, h, m) \<in> set reqs. request_frame K f h m"
    and "handle_messages B (map (\<lambda>(i, f, h, m). (m, inp i, True)) (enumerate i reqs)) st = Inr (st', rs)"
    and "list_all2 (\<lambda>((f, h, m), r) o'. answer_request K dflt h r = Inr o') (zip reqs rs) outs"
  shows "broker_stream_messages K dflt (serve_next B inp) (concat (map fst reqs)) (i, st) out
    = Some ((i + length reqs, st'), out @ outs, None)"
  using assms(2-4)
proof (induction reqs arbitrary: i st rs outs out)
  case Nil
  then have "server_decode K [] = Inr (None, [])" "st' = st" "outs = []"
    using assms(1) by (auto simp: server_decode_def framing_ok_def)
  then show ?case by (subst broker_stream_messages.simps) (simp add: at_end_def)
next
  case (Cons q reqs)
  obtain f h m where q: "q = (f, h, m)" by (cases q) auto
  obtain st1 r rs' where r: "handle_request B (inp i) st m = Inr (st1, r)" "rs = r # rs'"
    "handle_messages B (map (\<lambda>(i, f, h, m). (m, inp i, True)) (enumerate (Suc i) reqs)) st1 = Inr (st', rs')"
    using Cons.prems(2) q by (auto simp: bindE_Inr)
  obtain o' outs' where o': "outs = o' # outs'" "answer_request K dflt h r = Inr o'"
    "list_all2 (\<lambda>((f, h, m), r) o'. answer_request K dflt h r = Inr o') (zip reqs rs') outs'"
    using Cons.prems(3) q r(2) by (auto simp: list_all2_Cons1)
  have d: "server_decode K (f @ concat (map fst reqs)) = Inr (Some (h, m), concat (map fst reqs))"
    using request_frame_decodes [OF assms(1)] Cons.prems(1) q by auto
  have s: "serve_next B inp (i, st) m = Inr ((Suc i, st1), r)" using r(1) by (simp add: serve_next_def)
  show ?case
    using Cons.IH [OF _ r(3) o'(3), of "out @ [o']"] Cons.prems(1) q d s o'
    by (subst broker_stream_messages.simps) simp
qed

lemma raft_stream_delivers:
  assumes "wire_env_ok W" and "rx_alive tx" and "list_all2 (\<lambda>m f. wire_encode W m = Some f) ms fs" and "\<forall>m \<in> set ms. wire_carries W m"
  shows "raft_stream_messages W (concat fs @ rest) tx = raft_stream_messages W rest (tx\<lparr>sent := sent tx @ ms\<rparr>)"
  using assms(3,2,4)
proof (induction arbitrary: tx rule: list_all2_induct)
  case (Cons m ms f fs)
  have "wire_decode W (f @ concat fs @ rest) = Some (Some m, concat fs @ rest)"
    using assms(1) Cons.hyps(1) Cons.prems(2) by (simp add: wire_env_ok_def)
  then show ?case
    using Cons.IH [of "tx\<lparr>sent := sent tx @ [m]\<rparr>"] Cons.prems
    by (subst raft_stream_messages.simps) (simp add: chan_send_def)
qed simp

lemma raft_stream_end: "wire_env_ok W \<Longrightarrow> raft_stream_messages W [] tx = Some (tx, None)"
  by (subst raft_stream_messages.simps) (simp add: wire_env_ok_def at_end_def)

lemma send_messages_all:
  "length oks \<ge> length q \<Longrightarrow> \<forall>b \<in> set oks. b \<Longrightarrow> send_messages oks q = (q, [], False)"
  by (induction oks q rule: send_messages.induct) auto

lemma encoded_all:
  "\<forall>m \<in> set ms. wire_encode W m \<noteq> None \<Longrightarrow>
   list_all2 (\<lambda>m f. wire_encode W m = Some f) ms (map (\<lambda>m. the (wire_encode W m)) ms)"
  by (induction ms) auto


text \<open>
  (C25) A format that does not lend its input, as the JSON reader of the connections between nodes, does not carry identifiers: the
  messages before the first one that has an identifier are delivered, and that one ends the connection with an error,
  whatever follows.  A vote request, a heartbeat, their answers and every block that is replicated have one.
\<close>

theorem unlent_identifier_ends_connection:
  assumes "wire_env_ok W" and "\<forall>bs. wire_lend W bs \<noteq> Borrowed bs" and "rx_alive in_tx"
    and "\<forall>m \<in> set (pre @ [msg]). wire_encode W m \<noteq> None"
    and "\<forall>m \<in> set pre. command_ids (msg_command m) = []" and "command_ids (msg_command msg) \<noteq> []"
  shows "raft_stream_messages W (concat (map (\<lambda>m. the (wire_encode W m)) (pre @ [msg])) @ rest) in_tx
    = Some (in_tx\<lparr>sent := sent in_tx @ pre\<rparr>, Some (Error ''decode''))"
proof -
  have "deserialize_block_id (wire_lend W bs) = None" for bs
  proof -
    have "wire_lend W bs \<in> {Copied bs, Numbers bs}" using assms(1,2) unfolding wire_env_ok_def by blast
    then show ?thesis by (auto simp: deserialize_block_id_def)
  qed
  then have no: "\<not> wire_carries W msg" using assms(6) by (cases "command_ids (msg_command msg)") (simp_all add: wire_carries_def)
  obtain f where f: "wire_encode W msg = Some f" using assms(4) by auto
  have "wire_decode W (f @ rest) = None" using assms(1) f no by (simp add: wire_env_ok_def)
  moreover have "\<forall>m \<in> set pre. wire_carries W m" using assms(5) by (simp add: wire_carries_def)
  ultimately show ?thesis
    using raft_stream_delivers [OF assms(1,3) encoded_all, of pre "f @ rest"] assms(4) f
    by (simp add: raft_stream_messages.simps [of W "f @ rest"])
qed


text \<open>
  (C11) Requests sent one after the other without waiting are handled in that order, and the answers are written in
  that order, each with the identifier and the version of its own request.
\<close>

theorem pipelined_requests_answered:
  assumes "framing_ok K" and "\<forall>(f, h, m) \<in> set reqs. request_frame K f h m"
    and "handle_messages B (map (\<lambda>(i, f, h, m). (m, inp i, True)) (enumerate i reqs)) st = Inr (st', rs)"
    and "list_all2 (\<lambda>((f, h, m), r) o'. server_encode K (rh_api_version h, dflt\<lparr>sh_correlation_id := rh_correlation_id h\<rparr>, r) = Inr o')
      (zip reqs rs) outs"
  shows "broker_stream_messages K dflt (serve_next B inp) (concat (map fst reqs)) (i, st) []
    = Some ((i + length reqs, st'), outs, None)"
  using broker_stream_serves [OF assms(1-3), of dflt outs "[]"] assms(4) by (simp add: answer_request_def)

section \<open>Concrete framings\<close>

text \<open>A length of eight bytes in front of every frame.\<close>

definition put_frame :: "bytes \<Rightarrow> bytes option" where
  "put_frame bs = (if length bs < 2 ^ 64 then Some (to_be_bytes (word_of_nat (length bs)) @ bs) else None)"

definition get_frame :: "bytes \<Rightarrow> bytes option \<times> bytes" where
  "get_frame src =
     (let n = unat (from_be_bytes (take 8 src))
      in if length src < 8 + n \<or> length src < 8 then (None, src) else (Some (take n (drop 8 src)), drop (8 + n) src))"

definition framed_codec :: codec_env where
  "framed_codec = demo_codec\<lparr>frame_decode := (\<lambda>src. Some (get_frame src)), frame_encode := put_frame\<rparr>"

lemma put_get_frame:
  assumes "put_frame bs = Some f"
  shows "get_frame (f @ rest) = (Some bs, rest)"
proof -
  have "length bs < 2 ^ 64" and f: "f = to_be_bytes (word_of_nat (length bs)) @ bs"
    using assms by (auto simp: put_frame_def split: if_splits)
  then have "unat (word_of_nat (length bs) :: u64) = length bs" by (simp add: unat_of_nat)
  then show ?thesis unfolding f by (simp add: get_frame_def Let_def)
qed

lemma get_frame_shorter: "get_frame src = (Some bs, rest) \<Longrightarrow> length rest < length src"
  by (auto simp: get_frame_def Let_def split: if_splits)

lemma framed_codec_ok: "framing_ok framed_codec"
  using put_get_frame get_frame_shorter by (simp add: framing_ok_def framed_codec_def) (simp add: get_frame_def)

text \<open>An encoding of two messages as one byte each, with a format that hands out byte strings as \<open>lend\<close> says.\<close>

definition byte_wire :: "(bytes \<Rightarrow> lent) \<Rightarrow> message \<Rightarrow> message \<Rightarrow> wire_env" where
  "byte_wire lend a b = \<lparr>wire_encode = (\<lambda>m. if m = a then Some [1] else if m = b then Some [2] else None),
     wire_decode = (\<lambda>src. case src of [] \<Rightarrow> Some (None, [])
       | x # rest \<Rightarrow> (let m = (if x = 1 then a else b) in
           if list_all (\<lambda>i. deserialize_block_id (lend (serialize_block_id i)) = Some i) (command_ids (msg_command m))
           then Some (Some m, rest) else None)),
     wire_lend = lend\<rparr>"

lemma byte_wire_ok: "\<forall>bs. lend bs \<in> {Borrowed bs, Copied bs, Numbers bs} \<Longrightarrow> wire_env_ok (byte_wire lend a b)"
  by (simp add: wire_env_ok_def byte_wire_def wire_carries_def Let_def)

definition tick_message :: message where
  "tick_message = message_new (Peer 1) (Peer 2) Tick"

definition beat_message :: message where
  "beat_message = message_new (Peer 1) (Peer 2) (Heartbeat 1 (BlockId [0, 0, 0, 0, 0, 0, 0, 0]) 1)"

lemmas demo_messages = tick_message_def beat_message_def message_new_def


theorem unlent_identifier_ends_connection_witness:
  "raft_stream_messages (byte_wire Numbers tick_message beat_message) [1, 2, 1] \<lparr>sent = [], rx_alive = True\<rparr>
    = Some (\<lparr>sent = [tick_message], rx_alive = True\<rparr>, Some (Error ''decode''))"
  using unlent_identifier_ends_connection [of "byte_wire Numbers tick_message beat_message" "\<lparr>sent = [], rx_alive = True\<rparr>"
      "[tick_message]" beat_message "[1]", OF byte_wire_ok]
  by (simp add: byte_wire_def demo_messages)


text \<open>Two requests for the versions, numbered 7 and 8.\<close>

definition versions_header :: "i32 \<Rightarrow> request_header" where
  "versions_header i = \<lparr>rh_api_key = 18, rh_api_version = 3, rh_correlation_id = i\<rparr>"

definition versions_frame :: "i32 \<Rightarrow> bytes" where
  "versions_frame i = the (put_frame (the (enc_request_header demo_codec (versions_header i) 1)))"

lemma versions_request: "request_frame framed_codec (versions_frame i) (versions_header i) ApiVersionsRequest"
proof -
  let ?bs = "the (enc_request_header demo_codec (versions_header i) 1)"
  have p: "put_frame ?bs = Some (versions_frame i)"
    by (simp add: versions_frame_def put_frame_def demo_codec_def)
  have "get_frame (versions_frame i) = (Some ?bs, [])" using put_get_frame [OF p, of "[]"] by simp
  then have "server_decode framed_codec (versions_frame i) = Inr (Some (versions_header i, ApiVersionsRequest), [])"
    by (simp add: server_decode_def framed_codec_def read_version_def demo_codec_def versions_header_def)
  then show ?thesis using p by (auto simp: request_frame_def framed_codec_def)
qed

lemma versions_answer:
  "server_encode framed_codec (v, \<lparr>sh_correlation_id = i\<rparr>, ApiVersionsResponse r) = Inr (the (put_frame (enc_word i)))"
  by (simp add: server_encode_def with_header_def framed_codec_def demo_codec_def put_frame_def)

theorem pipelined_requests_answered_witness:
  "broker_stream_messages framed_codec \<lparr>sh_correlation_id = 0\<rparr> (serve_next demo_broker (\<lambda>_ _. demo_create))
     (versions_frame 7 @ versions_frame 8) (0, RBT.empty, []) []
   = Some ((2, RBT.empty, []), [the (put_frame (enc_word (7 :: i32))), the (put_frame (enc_word (8 :: i32)))], None)"
proof -
  let ?q = "\<lambda>i. (versions_frame i, versions_header i, ApiVersionsRequest)"
  let ?r = "ApiVersionsResponse (handle_api_versions demo_broker [])"
  have "\<forall>(f, h, m) \<in> set [?q 7, ?q 8]. request_frame framed_codec f h m" by (simp add: versions_request)
  from pipelined_requests_answered [OF framed_codec_ok this, of demo_broker "\<lambda>_ _. demo_create" 0 "(RBT.empty, [])"
      "(RBT.empty, [])" "[?r, ?r]" "\<lparr>sh_correlation_id = 0\<rparr>"
      "[the (put_frame (enc_word (7 :: i32))), the (put_frame (enc_word (8 :: i32)))]"]
  show ?thesis by (simp add: versions_answer versions_header_def)
qed

end
