(* ===== verification/Shutdown.thy ===== *)
theory Shutdown
  imports Process Connections
begin

text \<open>
  Starting and stopping the tasks of a process: \<^verbatim>\<open>util.rs\<close>, the handler of \<^verbatim>\<open>main.rs\<close>, \<^verbatim>\<open>JosefineRaft\<close> of \<^verbatim>\<open>raft/mod.rs\<close>, and the loops of
  \<^verbatim>\<open>raft/tcp.rs\<close> and \<^verbatim>\<open>broker/tcp.rs\<close> that accept connections until they are stopped.
\<close>

section \<open>The broadcast channel\<close>

text \<open>
  The broadcast channel of tokio is a parameter.  A receiver is known by a number.  \<open>bc_recv\<close> returns nothing while the receiver has to
  wait, and otherwise whether it got a value or has lagged behind; \<open>bc_unseen\<close> is how many values a receiver has not seen.
\<close>

record 'b broadcast =
  bc_channel :: "nat \<Rightarrow> 'b \<times> nat"
  bc_send :: "'b \<Rightarrow> 'b option"
  bc_subscribe :: "'b \<Rightarrow> 'b \<times> nat"
  bc_drop :: "'b \<Rightarrow> nat \<Rightarrow> 'b"
  bc_recv :: "'b \<Rightarrow> nat \<Rightarrow> ('b \<times> bool) option"
  bc_unseen :: "'b \<Rightarrow> nat \<Rightarrow> nat option"

text \<open>
  What its documentation promises: a receiver sees what is sent after it has subscribed, sending fails only when there is no
  receiver, and receiving waits exactly while nothing is unseen.  (A receiver of the program always stands beside a sender, so the channel
  is never closed.)
\<close>

definition broadcast_ok :: "'b broadcast \<Rightarrow> bool" where
  "broadcast_ok B \<longleftrightarrow>
     (\<forall>cap b r. bc_channel B cap = (b, r) \<longrightarrow> bc_unseen B b = [r \<mapsto> 0])
   \<and> (\<forall>b b' r. bc_subscribe B b = (b', r) \<longrightarrow> bc_unseen B b r = None \<and> bc_unseen B b' = (bc_unseen B b)(r \<mapsto> 0))
   \<and> (\<forall>b r. bc_unseen B (bc_drop B b r) = (bc_unseen B b)(r := None))
   \<and> (\<forall>b. bc_unseen B b = Map.empty \<longrightarrow> bc_send B b = None)
   \<and> (\<forall>b. bc_unseen B b \<noteq> Map.empty \<longrightarrow> (\<exists>b'. bc_send B b = Some b' \<and> bc_unseen B b' = (\<lambda>r. map_option Suc (bc_unseen B b r))))
   \<and> (\<forall>b r. bc_unseen B b r \<in> {None, Some 0} \<longrightarrow> bc_recv B b r = None)
   \<and> (\<forall>b r n. bc_unseen B b r = Some (Suc n) \<longrightarrow> (\<exists>b' ok m. bc_recv B b r = Some (b', ok)
        \<and> bc_unseen B b' = (bc_unseen B b)(r \<mapsto> m)))"

section \<open>Shutdown\<close>

definition shutdown_new :: "'b broadcast \<Rightarrow> 'b \<times> nat" where
  "shutdown_new B = bc_channel B 1"

definition shutdown_clone :: "'b broadcast \<Rightarrow> 'b \<Rightarrow> 'b \<times> nat" where
  "shutdown_clone B b = bc_subscribe B b"

definition shutdown_shutdown :: "'b broadcast \<Rightarrow> 'b \<Rightarrow> 'b res" where
  "shutdown_shutdown B b = expectE (bc_send B b) ''shutdown channel closed''"

text \<open>A task that has to wait gets nothing.  A receiver that has lagged behind gets an error.\<close>

definition shutdown_wait :: "'b broadcast \<Rightarrow> 'b \<Rightarrow> nat \<Rightarrow> ('b \<times> unit res) option" where
  "shutdown_wait B b r =
     (case bc_recv B b r of
        None \<Rightarrow> None
      | Some (b', ok) \<Rightarrow> Some (b', if ok then Inr () else Inl (Error ''lagged'')))"

text \<open>What the holders of a shutdown do with it, the end of a holder included, and a run of any of these.\<close>

datatype shutdown_op = CloneOp | ShutdownOp | WaitOp nat | DropOp nat

fun shutdown_step :: "'b broadcast \<Rightarrow> shutdown_op \<Rightarrow> 'b \<Rightarrow> 'b res" where
  "shutdown_step B CloneOp b = Inr (fst (shutdown_clone B b))"
| "shutdown_step B ShutdownOp b = shutdown_shutdown B b"
| "shutdown_step B (WaitOp r) b = Inr (case shutdown_wait B b r of None \<Rightarrow> b | Some (b', _) \<Rightarrow> b')"
| "shutdown_step B (DropOp r) b = Inr (bc_drop B b r)"

section \<open>Starting\<close>

text \<open>The tasks a process starts subscribe one after the other.\<close>

fun start_tasks :: "'b broadcast \<Rightarrow> 'b \<Rightarrow> nat \<Rightarrow> 'b \<times> nat list" where
  "start_tasks B b 0 = (b, [])"
| "start_tasks B b (Suc n) = (let (b', r) = shutdown_clone B b; (b'', rs) = start_tasks B b' n in (b'', r # rs))"

text \<open>
  \<^verbatim>\<open>JosefineRaft::run_for\<close>: the future of the sleep is made and dropped, so the spawned task sends at once, whatever the duration; \<open>k\<close> of the \<open>n\<close> tasks
  of the server have subscribed by then.  The clone of the task ends with it.
\<close>

definition run_for ::
  "'b broadcast \<Rightarrow> 'b \<Rightarrow> duration \<Rightarrow> nat \<Rightarrow> nat \<Rightarrow> ('b \<times> nat list \<times> nat list) res" where
  "run_for B b duration k n =
     (let (b1, s) = shutdown_clone B b; (b2, early) = start_tasks B b1 k
      in bindE (shutdown_shutdown B b2) (\<lambda>b3.
         let (b4, late) = start_tasks B (bc_drop B b3 s) (n - k) in Inr (b4, early, late)))"

text \<open>\<open>handler_set\<close> says whether the handler of the interrupt signal could be installed; it holds a clone.\<close>

definition setup_shutdown :: "'b broadcast \<Rightarrow> bool \<Rightarrow> ('b \<times> nat \<times> nat) res" where
  "setup_shutdown B handler_set =
     (let (b, r) = shutdown_new B; (b', s) = shutdown_clone B b
      in if handler_set then Inr (b', r, s) else Inl (Error ''Unable to set ctrlc handler''))"

definition setup_tracing :: "bool \<Rightarrow> unit res" where
  "setup_tracing subscriber_set = (if subscriber_set then Inr () else Inl (Error ''Unable to set a global collector''))"

text \<open>The entry points of the library: with a configuration, and that of the raft server alone with the settings it reads itself.\<close>

definition josefine_with_config ::
  "'e ext \<Rightarrow> input \<Rightarrow> (socket_addr \<Rightarrow> bool) \<Rightarrow> (string \<Rightarrow> sled_error + 'd) \<Rightarrow> (string \<Rightarrow> sled_error + 'e) \<Rightarrow> josefine_config \<Rightarrow>
   ('e, 'd) process res" where
  "josefine_with_config E I bind open_state open_chain config =
     josefine_run E I bind (open_state (bc_state_file (jc_broker config))) (open_chain (rc_data_directory (jc_raft config))) config"

definition load_raft_config :: "'s option \<Rightarrow> ('s \<Rightarrow> raft_config option) \<Rightarrow> raft_config res" where
  "load_raft_config built de =
     bindE (expectE built ''Could not build configuration'') (\<lambda>c.
     expectE (de c) ''Could not create configuration'')"

definition main ::
  "'b broadcast \<Rightarrow> bool \<Rightarrow> bool \<Rightarrow> 'e ext \<Rightarrow> input \<Rightarrow> (socket_addr \<Rightarrow> bool) \<Rightarrow> (string \<Rightarrow> sled_error + 'd) \<Rightarrow> (string \<Rightarrow> sled_error + 'e) \<Rightarrow>
   's option \<Rightarrow> ('s \<Rightarrow> josefine_config option) \<Rightarrow> ('b \<times> nat \<times> nat \<times> ('e, 'd) process) res" where
  "main B subscriber_set handler_set E I bind open_state open_chain built de =
     bindE (setup_tracing subscriber_set) (\<lambda>_.
     bindE (setup_shutdown B handler_set) (\<lambda>(b, r, s).
     bindE (josefine E I bind open_state open_chain built de) (\<lambda>p. Inr (b, r, s, p))))"

section \<open>Accepting connections\<close>

text \<open>
  A branch of \<^verbatim>\<open>select!\<close> whose pattern does not match is disabled until the others have had their turn: after an accept that failed the loop
  waits for the shutdown only.  \<open>serve\<close> makes the task that is spawned for a connection; its outcome is ignored.  The result is the spawned
  tasks and whether the loop has returned.
\<close>

datatype 'c listen_event = Accepted 'c | AcceptFailed | Stopped

fun accept_loop :: "('c \<Rightarrow> 't) \<Rightarrow> 'c listen_event list \<Rightarrow> 't list \<times> bool" where
  "accept_loop serve [] = ([], False)"
| "accept_loop serve (Stopped # es) = ([], True)"
| "accept_loop serve (Accepted c # es) = (let (ts, d) = accept_loop serve es in (serve c # ts, d))"
| "accept_loop serve (AcceptFailed # es) = ([], Stopped \<in> set es)"

definition raft_receive_task ::
  "wire_env \<Rightarrow> bytes listen_event list \<Rightarrow> (message sender \<Rightarrow> (message sender \<times> failure option) option) list \<times> bool" where
  "raft_receive_task W es = accept_loop (raft_stream_messages W) es"

definition broker_receive_task ::
  "codec_env \<Rightarrow> response_header \<Rightarrow> ('w \<Rightarrow> request_kind \<Rightarrow> ('w \<times> response_kind) res) \<Rightarrow> bytes listen_event list \<Rightarrow>
   ('w \<Rightarrow> ('w \<times> bytes list \<times> failure option) option) list \<times> bool" where
  "broker_receive_task K dflt serve es = accept_loop (\<lambda>src w. broker_stream_messages K dflt serve src w []) es"

section \<open>Who is woken\<close>

lemma broadcast_okD:
  assumes "broadcast_ok B"
  shows "bc_channel B cap = (b, r) \<Longrightarrow> bc_unseen B b = [r \<mapsto> 0]"
    and "bc_subscribe B b = (b', r) \<Longrightarrow> bc_unseen B b r = None"
    and "bc_subscribe B b = (b', r) \<Longrightarrow> bc_unseen B b' = (bc_unseen B b)(r \<mapsto> 0)"
    and "bc_unseen B (bc_drop B b r) = (bc_unseen B b)(r := None)"
    and "bc_unseen B b \<noteq> Map.empty \<Longrightarrow> \<exists>b'. bc_send B b = Some b' \<and> bc_unseen B b' = (\<lambda>r. map_option Suc (bc_unseen B b r))"
    and "bc_unseen B b r \<in> {None, Some 0} \<Longrightarrow> bc_recv B b r = None"
    and "bc_unseen B b r = Some (Suc n) \<Longrightarrow> \<exists>b' ok m. bc_recv B b r = Some (b', ok) \<and> bc_unseen B b' = (bc_unseen B b)(r \<mapsto> m)"
  using assms unfolding broadcast_ok_def by blast+

lemma wait_unseen:
  assumes "broadcast_ok B" and "bc_unseen B b r = Some n"
  shows "shutdown_wait B b r = None \<longleftrightarrow> n = 0"
  using broadcast_okD(6,7) [OF assms(1), of b r] assms(2) by (cases n) (auto simp: shutdown_wait_def split: option.splits)

lemma shutdown_sends:
  assumes "broadcast_ok B" and "r \<in> dom (bc_unseen B b)"
  obtains b' where "shutdown_shutdown B b = Inr b'" "bc_unseen B b' = (\<lambda>r. map_option Suc (bc_unseen B b r))"
proof -
  have "bc_unseen B b \<noteq> Map.empty" using assms(2) by auto
  then obtain b' where "bc_send B b = Some b'" "bc_unseen B b' = (\<lambda>r. map_option Suc (bc_unseen B b r))"
    using broadcast_okD(5) [OF assms(1)] by blast
  then show ?thesis using that by (simp add: shutdown_shutdown_def expectE_def)
qed

lemma start_tasks_unseen:
  assumes "broadcast_ok B" and "start_tasks B b n = (b', rs)"
  shows "length rs = n \<and> distinct rs \<and> set rs \<inter> dom (bc_unseen B b) = {}
    \<and> bc_unseen B b' = (\<lambda>r. if r \<in> set rs then Some 0 else bc_unseen B b r)"
  using assms(2)
proof (induction n arbitrary: b b' rs)
  case (Suc n)
  obtain b1 r where r: "shutdown_clone B b = (b1, r)" by force
  obtain b2 ts where ts: "start_tasks B b1 n = (b2, ts)" by force
  have u: "bc_unseen B b r = None" "bc_unseen B b1 = (bc_unseen B b)(r \<mapsto> 0)"
    using broadcast_okD(2,3) [OF assms(1)] r by (simp_all add: shutdown_clone_def)
  have "b' = b2" "rs = r # ts" using Suc.prems r ts by simp_all
  then show ?case using Suc.IH [OF ts] u by (auto simp: fun_eq_iff)
qed simp

lemma drop_unseen [simp]: "broadcast_ok B \<Longrightarrow> bc_unseen B (bc_drop B b r) = (bc_unseen B b)(r := None)"
  by (rule broadcast_okD(4))

text \<open>Whoever keeps a shutdown keeps its receiver, whatever the other holders do.\<close>

lemma shutdown_step_keeps:
  assumes "broadcast_ok B" and "r \<in> dom (bc_unseen B b)" and "a \<noteq> DropOp r"
  shows "\<exists>b'. shutdown_step B a b = Inr b' \<and> r \<in> dom (bc_unseen B b')"
proof (cases a)
  case CloneOp
  obtain b' q where q: "bc_subscribe B b = (b', q)" by force
  show ?thesis using broadcast_okD(3) [OF assms(1) q] assms(2) CloneOp q by (auto simp: shutdown_clone_def)
next
  case ShutdownOp
  obtain b' where "shutdown_shutdown B b = Inr b'" "bc_unseen B b' = (\<lambda>r. map_option Suc (bc_unseen B b r))"
    using shutdown_sends [OF assms(1,2)] .
  then show ?thesis using assms(2) ShutdownOp by auto
next
  case (WaitOp q)
  show ?thesis
  proof (cases "bc_unseen B b q")
    case None
    show ?thesis using assms(1,2) WaitOp broadcast_okD(6) [OF assms(1), of b q] None by (simp add: shutdown_wait_def)
  next
    case (Some n)
    show ?thesis
    proof (cases n)
      case 0
      then show ?thesis using broadcast_okD(6) [OF assms(1), of b q] Some assms(2) WaitOp by (simp add: shutdown_wait_def)
    next
      case (Suc m)
      then obtain b' ok k where "bc_recv B b q = Some (b', ok)" "bc_unseen B b' = (bc_unseen B b)(q \<mapsto> k)"
        using broadcast_okD(7) [OF assms(1)] Some by blast
      then show ?thesis using assms(2) WaitOp by (auto simp: shutdown_wait_def)
    qed
  qed
next
  case (DropOp q)
  then show ?thesis using assms by auto
qed

lemma shutdown_run_keeps:
  assumes "broadcast_ok B" and "r \<in> dom (bc_unseen B b)" and "DropOp r \<notin> set ops"
  shows "\<exists>b'. foldE (shutdown_step B) ops b = Inr b' \<and> r \<in> dom (bc_unseen B b')"
  using assms(2,3)
proof (induction ops arbitrary: b)
  case (Cons a ops)
  obtain b1 where "shutdown_step B a b = Inr b1" "r \<in> dom (bc_unseen B b1)"
    using shutdown_step_keeps [OF assms(1) Cons.prems(1), of a] Cons.prems(2) by auto
  then show ?case using Cons.IH [of b1] Cons.prems(2) by simp
qed simp

section \<open>A channel of counters\<close>

text \<open>Receivers are numbered in order; one that was dropped has no counter.  A receiver that has missed more than the capacity, one, lags.\<close>

definition counters :: "nat option list broadcast" where
  "counters = \<lparr>bc_channel = \<lambda>cap. ([Some 0], 0),
     bc_send = \<lambda>b. if list_all (\<lambda>n. n = None) b then None else Some (map (map_option Suc) b),
     bc_subscribe = \<lambda>b. (b @ [Some 0], length b),
     bc_drop = \<lambda>b r. b[r := None],
     bc_recv = \<lambda>b r. case (if r < length b then b ! r else None) of
         Some (Suc n) \<Rightarrow> Some (b[r := Some (if n = 0 then 0 else 1)], n = 0)
       | _ \<Rightarrow> None,
     bc_unseen = \<lambda>b r. if r < length b then b ! r else None\<rparr>"

lemma counters_ok: "broadcast_ok counters"
  unfolding broadcast_ok_def
proof (intro conjI allI impI)
  fix b :: "nat option list"
  assume "bc_unseen counters b = Map.empty"
  then have "b ! r = None" if "r < length b" for r using that by (auto simp: counters_def fun_eq_iff split: if_splits)
  then show "bc_send counters b = None" by (simp add: counters_def list_all_length)
next
  fix b :: "nat option list"
  assume "bc_unseen counters b \<noteq> Map.empty"
  then obtain r where "r < length b" "b ! r \<noteq> None" by (auto simp: counters_def fun_eq_iff split: if_splits)
  then have "\<not> list_all (\<lambda>n. n = None) b" by (auto simp: list_all_length)
  then show "\<exists>b'. bc_send counters b = Some b' \<and> bc_unseen counters b' = (\<lambda>r. map_option Suc (bc_unseen counters b r))"
    by (auto simp: counters_def fun_eq_iff)
qed (auto simp: counters_def fun_eq_iff nth_append nth_list_update less_Suc_eq split: if_splits)

section \<open>The properties\<close>





lemma accept_loop_accepts:
  "accept_loop serve (map Accepted cs @ es) = (map serve cs @ fst (accept_loop serve es), snd (accept_loop serve es))"
  by (induction cs) simp_all

text \<open>
  A listener spawns a task for each connection it accepts, in order, until it is stopped.  The first accept that fails ends that for good:
  no connection that arrives afterwards is served, by the listener of the raft server or by that of the broker, and the loop does not return
  before the shutdown, so that nothing else of the process notices.
\<close>

lemma failed_accept_ends_listening:
  "raft_receive_task W (map Accepted cs @ Stopped # es) = (map (raft_stream_messages W) cs, True)
   \<and> raft_receive_task W (map Accepted cs @ AcceptFailed # es) = (map (raft_stream_messages W) cs, Stopped \<in> set es)
   \<and> broker_receive_task K dflt serve (map Accepted cs @ Stopped # es)
       = (map (\<lambda>src w. broker_stream_messages K dflt serve src w []) cs, True)
   \<and> broker_receive_task K dflt serve (map Accepted cs @ AcceptFailed # es)
       = (map (\<lambda>src w. broker_stream_messages K dflt serve src w []) cs, Stopped \<in> set es)"
  by (simp add: raft_receive_task_def broker_receive_task_def accept_loop_accepts)

text \<open>An interrupt stops a process that \<open>main\<close> has started: the handler does not panic, and every task started so far is woken.\<close>

lemma interrupt_wakes_tasks:
  assumes "broadcast_ok B" and "main B subscriber_set handler_set E I bind open_state open_chain built de = Inr (b, r, s, p)"
    and "start_tasks B b n = (b', rs)"
  shows "\<exists>b''. shutdown_shutdown B b' = Inr b'' \<and> (\<forall>q \<in> set (r # rs). shutdown_wait B b'' q \<noteq> None)"
proof -
  obtain b0 where new: "bc_channel B 1 = (b0, r)" and s: "bc_subscribe B b0 = (b, s)"
    using assms(2) by (auto simp: main_def setup_shutdown_def shutdown_new_def shutdown_clone_def bindE_Inr split: prod.splits if_splits)
  have "r \<in> dom (bc_unseen B b)" using broadcast_okD(1) [OF assms(1) new] broadcast_okD(3) [OF assms(1) s] by simp
  then have live: "set (r # rs) \<subseteq> dom (bc_unseen B b')" using start_tasks_unseen [OF assms(1,3)] by auto
  then obtain b'' where b'': "shutdown_shutdown B b' = Inr b''" "bc_unseen B b'' = (\<lambda>r. map_option Suc (bc_unseen B b' r))"
    using shutdown_sends [OF assms(1), of r b'] by auto
  have "shutdown_wait B b'' q \<noteq> None" if "q \<in> set (r # rs)" for q
    using that live wait_unseen [OF assms(1), of b'' q] b''(2) by (auto simp: subset_iff dom_def)
  then show ?thesis using b''(1) by blast
qed

end
