(* ===== verification/Kafka_Client.thy ===== *)
theory Kafka_Client
  imports Kafka_Codec
begin

text \<open>
  The client the broker uses to reach other brokers: \<^verbatim>\<open>KafkaClient\<close> and \<^verbatim>\<open>ConnectedKafkaClient\<close> of \<^verbatim>\<open>kafka/mod.rs\<close> and the tasks of
  \<^verbatim>\<open>kafka/tcp.rs\<close> with what they share.  The callbacks are behind a mutex, which a task that panics while it holds it poisons.  The first task to end
  ends \<^verbatim>\<open>send_messages\<close>, but not the other tasks, which go on detached.
\<close>

section \<open>The client\<close>

text \<open>
  A caller \<open>'c\<close> waits for its answer.  \<open>kc_failed\<close> are the callers that have got an error: the channel refused their request, or the
  sender of their callback was dropped.
\<close>

record 'c kafka_client =
  kc_conn :: "'c connection"
  kc_queue :: "(request_header \<times> request_kind \<times> 'c) list"
  kc_writing :: bool
  kc_reading :: bool
  kc_poisoned :: bool
  kc_failed :: "'c list"

definition kafka_client_new :: "bool \<Rightarrow> unit res" where
  "kafka_client_new connected = (if connected then Inr () else Inl (Error ''connect''))"

definition kafka_client_connect :: "'c kafka_client" where
  "kafka_client_connect = \<lparr>kc_conn = connection_new, kc_queue = [], kc_writing = True, kc_reading = True,
     kc_poisoned = False, kc_failed = []\<rparr>"

text \<open>The writing task owns the receiver of the channel.\<close>

definition kafka_client_send ::
  "'c kafka_client \<Rightarrow> request_header \<Rightarrow> request_kind \<Rightarrow> 'c \<Rightarrow> 'c kafka_client" where
  "kafka_client_send k header req cb =
     (if kc_writing k then k\<lparr>kc_queue := kc_queue k @ [(header, req, cb)]\<rparr>
      else k\<lparr>kc_failed := kc_failed k @ [cb]\<rparr>)"

section \<open>The end of a task\<close>

text \<open>The callbacks are dropped with the last of the two tasks.\<close>

definition drop_callbacks :: "'c kafka_client \<Rightarrow> 'c kafka_client" where
  "drop_callbacks k =
     (if kc_writing k \<or> kc_reading k then k
      else k\<lparr>kc_failed := kc_failed k @ map snd (cn_cbs (kc_conn k)), kc_conn := (kc_conn k)\<lparr>cn_cbs := []\<rparr>\<rparr>)"

definition stop_writer :: "'c kafka_client \<Rightarrow> 'c \<Rightarrow> 'c kafka_client" where
  "stop_writer k cb =
     drop_callbacks (k\<lparr>kc_writing := False, kc_failed := kc_failed k @ cb # map (\<lambda>(_, _, c). c) (kc_queue k), kc_queue := []\<rparr>)"

definition stop_reader :: "'c kafka_client \<Rightarrow> 'c kafka_client" where
  "stop_reader k = drop_callbacks (k\<lparr>kc_reading := False\<rparr>)"

section \<open>The tasks\<close>

text \<open>
  One round of the writing task; \<open>io\<close> says whether the socket takes the bytes.  The request is written before the mutex is locked.  A callback under
  the same number is replaced, which drops it.
\<close>

definition client_write_task :: "codec_env \<Rightarrow> bool \<Rightarrow> 'c kafka_client \<Rightarrow> 'c kafka_client" where
  "client_write_task K io k =
     (case kc_queue k of
        [] \<Rightarrow> k
      | (header, req, cb) # q \<Rightarrow>
          (let (c, enc) = client_encode K (cn_codec (kc_conn k)) header req;
               k1 = k\<lparr>kc_queue := q, kc_conn := (kc_conn k)\<lparr>cn_codec := c\<rparr>\<rparr>
           in case enc of
                Inl e \<Rightarrow> stop_writer k1 cb
              | Inr bs \<Rightarrow>
                  if \<not> io then stop_writer k1 cb
                  else (let n = (kc_conn k1)\<lparr>cn_written := cn_written (kc_conn k1) @ [bs]\<rparr>
                        in if kc_poisoned k1 then stop_writer (k1\<lparr>kc_conn := n\<rparr>) cb
                           else k1\<lparr>kc_conn := n\<lparr>cn_cbs := AList.update (rh_correlation_id header) cb (cn_cbs n)\<rparr>,
                                   kc_failed := kc_failed k1 @ (case map_of (cn_cbs n) (rh_correlation_id header) of
                                     None \<Rightarrow> [] | Some old \<Rightarrow> [old])\<rparr>)))"

text \<open>One round of the reading task.  It holds the mutex while it looks for the callback and while it calls it.\<close>

definition client_read_task ::
  "codec_env \<Rightarrow> ('c \<Rightarrow> bool) \<Rightarrow> bytes \<Rightarrow> 'c kafka_client \<Rightarrow> 'c kafka_client" where
  "client_read_task K listening src k =
     (if \<not> kc_reading k then k
      else case client_decode K (cn_codec (kc_conn k)) src of
        Inl e \<Rightarrow> stop_reader k
      | Inr (c, None, rest) \<Rightarrow> k\<lparr>kc_conn := (kc_conn k)\<lparr>cn_codec := c\<rparr>\<rparr>
      | Inr (c, Some (header, res), rest) \<Rightarrow>
          (let n = (kc_conn k)\<lparr>cn_codec := c\<rparr>
           in if kc_poisoned k then stop_reader (k\<lparr>kc_conn := n\<rparr>)
              else case map_of (cn_cbs n) (sh_correlation_id header) of
                None \<Rightarrow> stop_reader (k\<lparr>kc_conn := n, kc_poisoned := True\<rparr>)
              | Some cb \<Rightarrow>
                  (let n' = n\<lparr>cn_cbs := AList.delete (sh_correlation_id header) (cn_cbs n)\<rparr>
                   in if listening cb then k\<lparr>kc_conn := n'\<lparr>cn_answers := cn_answers n' @ [(cb, res)]\<rparr>\<rparr>
                      else stop_reader (k\<lparr>kc_conn := n', kc_poisoned := True\<rparr>))))"

datatype 'c client_event = Call request_header request_kind 'c | WriteTurn bool | Arrives bytes | PeerCloses

fun client_step :: "codec_env \<Rightarrow> ('c \<Rightarrow> bool) \<Rightarrow> 'c kafka_client \<Rightarrow> 'c client_event \<Rightarrow> 'c kafka_client" where
  "client_step K listening k (Call header req cb) = kafka_client_send k header req cb"
| "client_step K listening k (WriteTurn io) = client_write_task K io k"
| "client_step K listening k (Arrives src) = client_read_task K listening src k"
| "client_step K listening k PeerCloses = (if kc_reading k then stop_reader k else k)"

section \<open>A client that has stopped\<close>

lemma drop_callbacks_fields [simp]:
  "kc_writing (drop_callbacks k) = kc_writing k" "kc_reading (drop_callbacks k) = kc_reading k"
  "kc_poisoned (drop_callbacks k) = kc_poisoned k" "kc_queue (drop_callbacks k) = kc_queue k"
  "cn_answers (kc_conn (drop_callbacks k)) = cn_answers (kc_conn k)" "cn_written (kc_conn (drop_callbacks k)) = cn_written (kc_conn k)"
  by (simp_all add: drop_callbacks_def)

lemma stop_fields [simp]:
  "kc_writing (stop_writer k cb) = False" "kc_queue (stop_writer k cb) = []" "kc_reading (stop_writer k cb) = kc_reading k"
  "kc_poisoned (stop_writer k cb) = kc_poisoned k" "cn_answers (kc_conn (stop_writer k cb)) = cn_answers (kc_conn k)"
  "cn_written (kc_conn (stop_writer k cb)) = cn_written (kc_conn k)"
  "kc_reading (stop_reader k) = False" "kc_poisoned (stop_reader k) = kc_poisoned k" "kc_writing (stop_reader k) = kc_writing k"
  "kc_queue (stop_reader k) = kc_queue k" "cn_answers (kc_conn (stop_reader k)) = cn_answers (kc_conn k)"
  by (simp_all add: stop_writer_def stop_reader_def)

text \<open>A writer that has stopped has no queue.\<close>

definition queue_ok :: "'c kafka_client \<Rightarrow> bool" where
  "queue_ok k \<longleftrightarrow> kc_writing k \<or> kc_queue k = []"

lemma write_task_fields:
  "kc_reading (client_write_task K io k) = kc_reading k \<and> kc_poisoned (client_write_task K io k) = kc_poisoned k
   \<and> cn_answers (kc_conn (client_write_task K io k)) = cn_answers (kc_conn k)
   \<and> (queue_ok k \<longrightarrow> queue_ok (client_write_task K io k)) \<and> (kc_writing (client_write_task K io k) \<longrightarrow> kc_writing k)"
  by (auto simp: client_write_task_def queue_ok_def Let_def split: list.splits prod.splits sum.splits)

text \<open>Nobody is answered once the reading task has ended.\<close>

lemma stopped_reader_step:
  assumes "\<not> kc_reading k"
  shows "\<not> kc_reading (client_step K l k e) \<and> kc_poisoned (client_step K l k e) = kc_poisoned k
    \<and> cn_answers (kc_conn (client_step K l k e)) = cn_answers (kc_conn k)"
  using assms write_task_fields [of K _ k] by (cases e) (simp_all add: kafka_client_send_def client_read_task_def)

lemma stopped_reader_run:
  assumes "\<not> kc_reading k"
  shows "\<not> kc_reading (foldl (client_step K l) k es) \<and> kc_poisoned (foldl (client_step K l) k es) = kc_poisoned k
    \<and> cn_answers (kc_conn (foldl (client_step K l) k es)) = cn_answers (kc_conn k)"
  using assms by (induction es arbitrary: k) (simp_all add: stopped_reader_step)

text \<open>A request that is written while the mutex is poisoned ends the writing task, and with it everybody who waits.\<close>

lemma poisoned_write:
  assumes "\<not> kc_reading k" and "kc_poisoned k" and "kc_queue k = [(header, req, cb)]"
    and "client_encode K (cn_codec (kc_conn k)) header req = (c, Inr bs)"
  shows "kc_failed (client_write_task K True k) = kc_failed k @ cb # map snd (cn_cbs (kc_conn k))
    \<and> cn_written (kc_conn (client_write_task K True k)) = cn_written (kc_conn k) @ [bs] \<and> \<not> kc_writing (client_write_task K True k)"
  using assms by (simp add: client_write_task_def Let_def) (simp add: stop_writer_def drop_callbacks_def)

lemma stopped_writer_run:
  assumes "\<not> kc_writing k" and "queue_ok k"
  shows "\<not> kc_writing (foldl (client_step K l) k es) \<and> cn_written (kc_conn (foldl (client_step K l) k es)) = cn_written (kc_conn k)"
  using assms
proof (induction es arbitrary: k)
  case (Cons e es)
  have "\<not> kc_writing (client_step K l k e) \<and> queue_ok (client_step K l k e)
      \<and> cn_written (kc_conn (client_step K l k e)) = cn_written (kc_conn k)"
    using Cons.prems
    by (cases e) (auto simp: kafka_client_send_def client_write_task_def client_read_task_def queue_ok_def stop_reader_def Let_def
        split: sum.splits option.splits prod.splits)
  then show ?case using Cons.IH by simp
qed simp


text \<open>
  (C38) A response nobody has a callback for ends the client in steps.  The reading task panics with the mutex in its hands, so that whatever happens
  afterwards no caller is answered, while those that wait are not told.  The next request still reaches the peer, and then its caller and all
  that wait get an error; every call after that is refused.
\<close>

theorem stray_response_ends_client:
  assumes "kc_reading k" and "kc_writing k" and "\<not> kc_poisoned k" and "kc_queue k = []"
    and "client_decode K (cn_codec (kc_conn k)) src = Inr (c, Some (h, res), rest)"
    and "map_of (cn_cbs (kc_conn k)) (sh_correlation_id h) = None" and "client_encode K c header req = (c', Inr bs)"
    and "k1 = client_step K listening k (Arrives src)"
    and "k2 = foldl (client_step K listening) k1 [Call header req cb, WriteTurn True]"
  shows "(\<forall>es. cn_answers (kc_conn (foldl (client_step K listening) k1 es)) = cn_answers (kc_conn k))
    \<and> kc_failed k1 = kc_failed k
    \<and> kc_failed k2 = kc_failed k @ cb # map snd (cn_cbs (kc_conn k)) \<and> cn_written (kc_conn k2) = cn_written (kc_conn k) @ [bs]
    \<and> (\<forall>es header' req' cb'. cb' \<in> set (kc_failed (foldl (client_step K listening) k2 (es @ [Call header' req' cb']))))"
proof -
  have k1: "k1 = k\<lparr>kc_conn := (kc_conn k)\<lparr>cn_codec := c\<rparr>, kc_poisoned := True, kc_reading := False\<rparr>"
    using assms(1-3,5,6,8) by (simp add: client_read_task_def stop_reader_def drop_callbacks_def Let_def)
  let ?q = "k1\<lparr>kc_queue := [(header, req, cb)]\<rparr>"
  have q: "k2 = client_write_task K True ?q" using assms(2,4,9) k1 by (simp add: kafka_client_send_def)
  have w: "kc_failed k2 = kc_failed k @ cb # map snd (cn_cbs (kc_conn k)) \<and> cn_written (kc_conn k2) = cn_written (kc_conn k) @ [bs]
      \<and> \<not> kc_writing k2"
    using poisoned_write [of ?q header req cb K c' bs] assms(7) k1 unfolding q by simp
  have "queue_ok k2" using write_task_fields [of K True ?q] assms(2) k1 unfolding q by (simp add: queue_ok_def)
  then have "\<not> kc_writing (foldl (client_step K listening) k2 es)" for es using stopped_writer_run w by blast
  moreover have "cn_answers (kc_conn (foldl (client_step K listening) k1 es)) = cn_answers (kc_conn k)" for es
    using stopped_reader_run [of k1 K listening es] k1 by simp
  ultimately show ?thesis using w k1 by (simp add: kafka_client_send_def)
qed

text \<open>Two callers with the same header; the answer to the second request has the number 1, and no callback has.\<close>

definition two_calls :: "nat kafka_client" where
  "two_calls = foldl (client_step demo_codec (\<lambda>_. True)) kafka_client_connect
     [Call demo_header ApiVersionsRequest 7, WriteTurn True, Call demo_header ApiVersionsRequest 8, WriteTurn True]"

lemma two_calls_state:
  "kc_reading two_calls \<and> kc_writing two_calls \<and> \<not> kc_poisoned two_calls \<and> kc_queue two_calls = [] \<and> kc_failed two_calls = [7]
   \<and> cn_codec (kc_conn two_calls) = \<lparr>cc_correlation_id = 2,
       cc_requests = [(0, demo_header), (1, demo_header\<lparr>rh_correlation_id := 1\<rparr>)]\<rparr>
   \<and> cn_cbs (kc_conn two_calls) = [(0, 8)] \<and> cn_answers (kc_conn two_calls) = []"
  by (simp add: two_calls_def kafka_client_connect_def kafka_client_send_def client_write_task_def client_encode_def demo_codec_def
      demo_header_def connection_new_def client_codec_new_def Let_def)

theorem stray_response_ends_client_witness:
  "\<exists>k1 k2. k1 = client_step demo_codec (\<lambda>_. True) two_calls (Arrives (enc_word (1 :: i32)))
    \<and> k2 = foldl (client_step demo_codec (\<lambda>_. True)) k1 [Call demo_header ApiVersionsRequest 9, WriteTurn True]
    \<and> (\<forall>es. cn_answers (kc_conn (foldl (client_step demo_codec (\<lambda>_. True)) k1 es)) = [])
    \<and> kc_failed k1 = [7] \<and> kc_failed k2 = [7, 9, 8]"
proof -
  note st = two_calls_state
  let ?c = "\<lparr>cc_correlation_id = 2, cc_requests = [(0, demo_header)]\<rparr>"
  have d: "client_decode demo_codec (cn_codec (kc_conn two_calls)) (enc_word (1 :: i32)) =
      Inr (?c, Some (\<lparr>sh_correlation_id = 1\<rparr>, LeaderAndIsrResponse), [])"
    using st by (simp add: client_decode_def demo_codec_def demo_header_def Let_def)
  obtain c' bs where e: "client_encode demo_codec ?c demo_header ApiVersionsRequest = (c', Inr bs)"
    by (simp add: client_encode_def demo_codec_def demo_header_def Let_def)
  show ?thesis
    using stray_response_ends_client [OF _ _ _ _ d _ e refl refl, of "\<lambda>_. True" 9] st by simp
qed

end
