(* ===== verification/Spec2Isabelle.thy ===== *)
theory Spec2Isabelle
  imports Restart Lone_Process Tracing Shutdown Kafka_Client
begin

text \<open>
  A verification development of josefine, a Kafka-like broker in Rust that keeps its metadata in a raft
  cluster.

  \<^bold>\<open>The program.\<close>  A process runs a raft node (\<^verbatim>\<open>src/src/raft\<close>) and a broker (\<^verbatim>\<open>src/src/broker\<close>).
  The raft node is an event loop (\<^verbatim>\<open>server.rs\<close>) around a state machine with the roles follower, candidate
  and leader (\<^verbatim>\<open>mod.rs\<close>, \<^verbatim>\<open>follower.rs\<close>, \<^verbatim>\<open>candidate.rs\<close>, \<^verbatim>\<open>leader.rs\<close>); it stores blocks in a chain
  (\<^verbatim>\<open>chain.rs\<close>), counts votes (\<^verbatim>\<open>election.rs\<close>), follows the heads of the other nodes (\<^verbatim>\<open>progress.rs\<close>),
  exchanges messages with them (\<^verbatim>\<open>rpc.rs\<close>, \<^verbatim>\<open>tcp.rs\<close>) and hands committed blocks to a driver
  (\<^verbatim>\<open>fsm.rs\<close>), which applies them to the broker's state machine (\<^verbatim>\<open>broker/fsm.rs\<close>) and answers the
  client that proposed them (\<^verbatim>\<open>client.rs\<close>).  The broker answers Kafka requests
  (\<^verbatim>\<open>broker/mod.rs\<close>, \<^verbatim>\<open>broker/handler\<close>) read by the codecs of \<^verbatim>\<open>src/src/kafka\<close>; what changes the
  metadata is proposed to the raft node, and records are written to the log of a replica
  (\<^verbatim>\<open>broker/replica.rs\<close>, \<^verbatim>\<open>broker/log\<close>).

  \<^bold>\<open>Conventions.\<close>  A function of the source is a definition with its name, prefixed where the name
  would clash: \<^verbatim>\<open>Chain::append\<close> is \<open>chain_append\<close>, \<^verbatim>\<open>Raft<Follower>::apply_tick\<close> is
  \<open>follower_apply_tick\<close>.  A struct is a record, an enum a datatype, \<^verbatim>\<open>u64\<close> a word of 64 bits.  A
  function that can fail returns \<open>'a res\<close>: \<open>Inl (Error e)\<close> is a returned error, \<open>Inl (Panic e)\<close> a
  panic, an overflow of checked arithmetic and an out-of-range index included.  Methods that
  consume the node carry no state in a failure.  Sending to a channel appends to the list of what was
  sent.  The clock, random numbers and the success of a write are inputs of a step.

  \<^bold>\<open>Theories.\<close>
  \<^item> \<open>Prelude\<close>: outcomes, machine integers, the interfaces \<open>codec\<close> and \<open>step_system\<close> (an invariant
    that every step keeps is kept by every run).
  \<^item> \<open>External\<close>: sled and bincode as parameters with the laws \<open>ext_ok\<close>, and an instance.
  \<^item> \<open>Chain\<close> (\<^verbatim>\<open>chain.rs\<close>): blocks, append, extend, commit, range, compact.  The interface
    \<open>block_store\<close> states what the roles rely on.  Lemmas: every branch of every operation, what a range
    yields, ancestry, what compaction keeps and loses, opening a directory again.
  \<^item> \<open>Election\<close>, \<open>Progress\<close> (\<^verbatim>\<open>election.rs\<close>, \<^verbatim>\<open>progress.rs\<close>): counting votes and acknowledged heads.  The
    interface \<open>quorum_system\<close>: two majorities share a node.  Lemmas: the status counts the last response of
    each voter, the committed index is reached by a majority and never goes back.
  \<^item> \<open>Rpc\<close>, \<open>Raft\<close> (\<^verbatim>\<open>rpc.rs\<close>, \<^verbatim>\<open>config.rs\<close>, \<^verbatim>\<open>mod.rs\<close>): messages, configuration, state, sending.
  \<^item> \<open>Campaign\<close>, \<open>Candidate_Role\<close>, \<open>Follower_Role\<close>, \<open>Leader_Role\<close>: the handlers of the three roles; for each
    its effect on every branch and that it keeps the invariant.
  \<^item> \<open>Raft_Handle\<close>: the enum over the roles and the runs of one node; it keeps its invariant and votes once.
  \<^item> \<open>Fsm_Driver\<close> (\<^verbatim>\<open>fsm.rs\<close>): the driver refines the replay of the applied data.
  \<^item> \<open>Server\<close> (\<^verbatim>\<open>server.rs\<close>, \<^verbatim>\<open>tcp.rs\<close>, \<^verbatim>\<open>client.rs\<close>): one step per branch of the loop, routing of outgoing
    messages, the connection to a peer; answers reach the client that asked, and the failures that stop a node.
  \<^item> \<open>Cluster\<close>: any number of nodes joined by a network that may lose, repeat, delay and reorder
    messages, as a step relation; at most one leader ever.
  \<^item> \<open>Effects\<close>: what a command does to the log of a node and what the messages it sends say of it, one lemma
    for every handler.
  \<^item> \<open>Replication_Run\<close>, \<open>Agreement\<close>: a concrete run of a cluster, and by induction over all runs from empty databases: the chains and the
    applied blocks of all nodes agree, equal identifiers have equal ancestors, and an applied block is stored by a majority.
  \<^item> \<open>Restart\<close>: the cluster with a step that stops a node and starts it again; a run in which the agreement is lost.
  \<^item> \<open>Display\<close>, \<open>Broker_Log\<close>: formatting and \<^verbatim>\<open>write_all\<close> of the standard library, index, segments and log.
  \<^item> \<open>Broker_State\<close>, \<open>Broker_Store\<close>: the metadata in a sled tree, with the interface \<open>metadata_store\<close>, and
    the state machine that changes it.
  \<^item> \<open>Broker_Handlers\<close>: every request handler and the dispatch, against the interface \<open>replicated_store\<close>
    (a proposal applies its transition).
  \<^item> \<open>Node\<close>: a leader alone in its cluster serves within one step; the driver around the broker's state machine replays the abstract metadata.
  \<^item> \<open>Kafka_Codec\<close>, \<open>Kafka_Client\<close> (\<^verbatim>\<open>kafka/codec.rs\<close>, \<^verbatim>\<open>kafka/tcp.rs\<close>, \<^verbatim>\<open>kafka/mod.rs\<close>): both codecs, the connection of the client, and the client with
    its tasks and the mutex they share; which caller a response reaches, and how a response without a caller ends the client.
  \<^item> \<open>Connections\<close> (\<^verbatim>\<open>stream_messages\<close> of \<^verbatim>\<open>raft/tcp.rs\<close> and \<^verbatim>\<open>broker/tcp.rs\<close>): the loops that read a socket; messages between nodes
    arrive in order when the format can lend the bytes of block identifiers and end the connection when it cannot, the loop of a client ends, pipelined
    requests are answered in order.
  \<^item> \<open>Shutdown\<close> (\<^verbatim>\<open>util.rs\<close>, \<^verbatim>\<open>main.rs\<close>, \<^verbatim>\<open>run_for\<close>, \<^verbatim>\<open>receive_task\<close> of both \<^verbatim>\<open>tcp.rs\<close>): who a shutdown wakes, and the loops that accept connections.
  \<^item> \<open>Tracing\<close> (\<^verbatim>\<open>Debug\<close> and \<^verbatim>\<open>Display\<close> of \<^verbatim>\<open>raft/mod.rs\<close>, \<^verbatim>\<open>chain.rs\<close>, \<^verbatim>\<open>rpc.rs\<close>, \<^verbatim>\<open>log_command\<close>): what is printed, and exactly when printing panics.
  \<^item> \<open>Process\<close> (\<^verbatim>\<open>lib.rs\<close>, \<^verbatim>\<open>config.rs\<close>, \<^verbatim>\<open>broker/config.rs\<close>, \<^verbatim>\<open>Server::run\<close>): the start of a process, its tasks and the channels
    between them, scheduled in any order; when it starts, that it stays well formed, and that its store follows the raft node.
  \<^item> \<open>Lone_Process\<close>: a process that is alone in its cluster is a \<open>replicated_store\<close>, so the lemmas on the handlers hold of the
    broker on top of the tasks of a real process; from its start to a created topic.
  \<^item> \<open>Spec2Isabelle\<close>: the metadata of a leader is the one its committed blocks give.

  \<^bold>\<open>Parameters and hypotheses.\<close>  sled, bincode, byteorder, memmap, kafka-protocol, the framing of tokio and its broadcast channel are not part
  of the source: they are fields of the records \<open>ext\<close>, \<open>store_env\<close>, \<open>log_env\<close>, \<open>kafka_env\<close>, \<open>broker_env\<close>,
  \<open>codec_env\<close>, \<open>wire_env\<close> and \<open>broadcast\<close>; \<open>ext_ok\<close>, \<open>store_env_ok\<close>, \<open>log_env_ok\<close>, \<open>codec_env_ok\<close>, \<open>framing_ok\<close>, \<open>wire_env_ok\<close> and \<open>broadcast_ok\<close> state what their documentation promises.
  The witnesses use the instances \<open>tree_ext\<close>, \<open>tree_store\<close>, \<open>std_log_env\<close>, \<open>demo_codec\<close>,
  \<open>framed_codec\<close>, \<open>byte_wire\<close> and \<open>counters\<close>.

  \<^bold>\<open>Bounds and fuel.\<close>  No definition has fuel: loops are recursions over lists, and \<open>write_all\<close> has
  a termination proof.  The loops that read a socket return an option; the one of the broker is proved to return for every input,
  the one of the raft node for everything another node has written.  Block identifiers are eight bytes and the commit entry of the tree has the key
  \<^verbatim>\<open>commit\<close>, so a range comes across it only from the identifier whose first byte is \<^verbatim>\<open>c\<close>; the lemmas on a serving node keep the
  identifiers below \<open>2 ^ 62\<close>, which is below that key, and count down from there.

  \<^bold>\<open>Not modelled.\<close>  Sockets, the scheduling of tasks by tokio and the joining of finished tasks: the schedule and what the operating system returns are
  inputs.  In \<open>Process\<close> the broker appears by its store, its
  replicas and the proposals it submits; its handlers run in \<open>Lone_Process\<close>, where a proposal waits for its answer.  In \<open>Cluster\<close> messages travel as values; what
  their format does to them is in \<open>Connections\<close>.  Reading the configuration file and the command line:
  the config and clap crates do it, and their results are arguments.  The \<^verbatim>\<open>Debug\<close> implementations of configuration, store and broker: derived or constant texts.
  \<^verbatim>\<open>kafka/util.rs\<close>: wraps a string without changing it.  \<^verbatim>\<open>broker/state/broker.rs\<close> and the types \<^verbatim>\<open>EntryType\<close> and \<^verbatim>\<open>Entry\<close> of
  \<^verbatim>\<open>raft/mod.rs\<close>: unused types without operations.  The tests.
\<close>

section \<open>The replicated metadata\<close>

lemma applied_data: "applied is = map blk_data (filter (\<lambda>b. blk_id b \<noteq> genesis) (applied_blocks is))"
  by (induction "is" rule: applied_blocks.induct) (simp_all add: genesis_def)

text \<open>
  (C5) The metadata of the leader.  In a cluster of at least two nodes on empty databases, whatever the
  network does, take the leader at any moment.  Its driver, fed with the instructions the leader has sent
  it, never fails while the event loop is alive, and the topics and partitions of the broker's store are then the
  ones that the transitions in the committed blocks of the chain give, each block taken once and in ascending order.
\<close>

theorem leader_metadata_committed:
  assumes "cluster_init ids s0" and "cluster_fresh E ids s0" and "distinct ids" and "1 < length ids"
    and "rtranclp (cluster_step E ids) s0 s" and "i \<in> set ids" and "is_leader (cl_node s i)"
    and "store_ok S f" and "rx_alive tx"
  shows "\<exists>d bs. driver_run (josefine_transition S) (driver_new tx f) (sent (h_fsm (cl_node s i))) = Inr d
    \<and> store_ok S (drv_fsm d)
    \<and> sorted_wrt (<) (map blk_id bs)
    \<and> set bs = {b. chain_block E (h_chain (cl_node s i)) (blk_id b) = Some b \<and> genesis < blk_id b
         \<and> blk_id b \<le> get_commit (h_chain (cl_node s i))}
    \<and> metadata S (drv_fsm d) = fold metadata_step (List.map_filter (de_transition S) (map blk_data bs)) (metadata S f)"
proof -
  obtain L where L: "log_inv E ids L s" "cluster_inv ids s" by (rule fresh_reachable [OF assms(1-5)])
  let ?is = "sent (h_fsm (cl_node s i))"
  note i = log_invD(2) [OF L(1) assms(6)]
  have bs: "between (chain_block E (h_chain (cl_node s i))) genesis (get_commit (h_chain (cl_node s i))) (applied_blocks ?is)"
    using node_logD(6,7) [OF i assms(7)] by simp
  then have "filter (\<lambda>b. blk_id b \<noteq> genesis) (applied_blocks ?is) = applied_blocks ?is"
    by (auto simp: between_def filter_id_conv)
  then have "applied ?is = map blk_data (applied_blocks ?is)" by (simp add: applied_data)
  with bs show ?thesis
    using driver_replays_metadata [of S "driver_new tx f" ?is] assms(8,9)
    by (auto simp: between_def driver_new_def intro!: exI [of _ "applied_blocks ?is"])
qed

theorem leader_metadata_committed_witness:
  "\<exists>d. driver_run (josefine_transition tree_store) (driver_new \<lparr>sent = [], rx_alive = True\<rparr> RBT.empty)
      (sent (h_fsm (cl_node replicated_cluster 1))) = Inr d \<and> store_ok tree_store (drv_fsm d)"
proof -
  have "is_leader (cl_node replicated_cluster 1)" "rx_alive \<lparr>sent = [] :: message list, rx_alive = True\<rparr>"
    by (simp_all add: replicated_cluster_def replication_chains)
  from leader_metadata_committed [OF demo_cluster_init demo_cluster_fresh demo_ids(1,2) demo_replication demo_ids(3)
      this(1) empty_store_ok this(2)]
  show ?thesis by blast
qed

end
